(* ===== verification/Prelude.thy ===== *)
theory Prelude
  imports Main "HOL-Library.Word" "HOL-Library.Multiset" "HOL-Library.AList"
begin

text \<open>
  Vocabulary shared by every component theory.
  \<^item> Machine integers of the Go sources (\<open>u8\<close>, \<open>u32\<close>, \<open>u64\<close>), byte strings.
  \<^item> Go errors and panics as values (\<open>gerr\<close>), the result type \<open>'a res\<close>, sequencing of
    fallible calls (\<open>bindE\<close>), error wrapping (\<open>wrapE\<close>) and loops that return at the
    first error (\<open>mapE\<close>, \<open>foldE\<close>).
  \<^item> Go maps as association lists with unique keys, whose iteration order is an oracle
    (locale \<open>go_range\<close>), and \<open>sort.Slice\<close>, an unstable sort (locale \<open>go_sort\<close>).
  \<^item> Big-endian byte encodings and decimal printing.
\<close>

named_theorems resE \<open>inversion of successful results\<close>

unbundle bit_operations_syntax

section \<open>Machine types\<close>

type_synonym u8 = "8 word"
type_synonym u32 = "32 word"
type_synonym i32 = "32 word"
type_synonym u64 = "64 word"
type_synonym bytes = "u8 list"

section \<open>Errors and panics\<close>

text \<open>
  \<open>Err s\<close> is \<open>errors.New(s)\<close>, \<open>Wrap s e\<close> is \<open>fmt.Errorf(s + ": %w", e)\<close>,
  \<open>Panic s\<close> is a run-time panic: it is not an error value, so no \<open>if err != nil\<close>
  branch sees it and it unwinds unchanged through the callers.
\<close>

datatype gerr = Err string | Wrap string gerr | Panic string

type_synonym 'a res = "gerr + 'a"

fun is_panic :: "gerr \<Rightarrow> bool" where
  "is_panic (Panic s) = True"
| "is_panic (Err s) = False"
| "is_panic (Wrap s e) = False"

definition bindE :: "'e + 'a \<Rightarrow> ('a \<Rightarrow> 'e + 'b) \<Rightarrow> 'e + 'b" where
  "bindE m f = (case m of Inl e \<Rightarrow> Inl e | Inr x \<Rightarrow> f x)"

definition wrapE :: "string \<Rightarrow> 'a res \<Rightarrow> 'a res" where
  "wrapE s m = (case m of Inl e \<Rightarrow> Inl (if is_panic e then e else Wrap s e) | Inr x \<Rightarrow> Inr x)"

text \<open>The \<open>Must\<close> functions of libraries: an error becomes a panic.\<close>

definition must :: "string \<Rightarrow> 'a res \<Rightarrow> 'a res" where
  "must s m = (case m of Inl e \<Rightarrow> Inl (Panic s) | Inr x \<Rightarrow> Inr x)"

fun mapE :: "('a \<Rightarrow> 'e + 'b) \<Rightarrow> 'a list \<Rightarrow> 'e + 'b list" where
  "mapE f [] = Inr []"
| "mapE f (x # xs) = bindE (f x) (\<lambda>y. bindE (mapE f xs) (\<lambda>ys. Inr (y # ys)))"

fun foldE :: "('a \<Rightarrow> 's \<Rightarrow> 'e + 's) \<Rightarrow> 'a list \<Rightarrow> 's \<Rightarrow> 'e + 's" where
  "foldE f [] s = Inr s"
| "foldE f (x # xs) s = bindE (f x s) (foldE f xs)"

text \<open>
  Calls that may also not return: \<open>None\<close> is a loop that never ends.
\<close>

definition bindO :: "('e + 'a) option \<Rightarrow> ('a \<Rightarrow> ('e + 'b) option) \<Rightarrow> ('e + 'b) option" where
  "bindO m f = (case m of None \<Rightarrow> None | Some (Inl e) \<Rightarrow> Some (Inl e) | Some (Inr x) \<Rightarrow> f x)"

fun mapO :: "('a \<Rightarrow> ('e + 'b) option) \<Rightarrow> 'a list \<Rightarrow> ('e + 'b list) option" where
  "mapO f [] = Some (Inr [])"
| "mapO f (x # xs) = bindO (f x) (\<lambda>y. bindO (mapO f xs) (\<lambda>ys. Some (Inr (y # ys))))"

definition okE :: "'e + 'a \<Rightarrow> bool" where
  "okE m = (case m of Inl e \<Rightarrow> False | Inr x \<Rightarrow> True)"

section \<open>Go maps\<close>

type_synonym ('k, 'v) gomap = "('k \<times> 'v) list"

abbreviation gput :: "'k \<Rightarrow> 'v \<Rightarrow> ('k, 'v) gomap \<Rightarrow> ('k, 'v) gomap" where
  "gput \<equiv> AList.update"

abbreviation gdel :: "'k \<Rightarrow> ('k, 'v) gomap \<Rightarrow> ('k, 'v) gomap" where
  "gdel \<equiv> AList.delete"

definition gomap_wf :: "('k, 'v) gomap \<Rightarrow> bool" where
  "gomap_wf m = distinct (map fst m)"

section \<open>Sorting\<close>

text \<open>Insertion sort by a comparison function: what \<open>sort.Slice\<close> runs on short slices.\<close>

fun insert_by :: "('a \<Rightarrow> 'a \<Rightarrow> bool) \<Rightarrow> 'a \<Rightarrow> 'a list \<Rightarrow> 'a list" where
  "insert_by lt x [] = [x]"
| "insert_by lt x (y # ys) = (if lt y x then y # insert_by lt x ys else x # y # ys)"

fun sort_by :: "('a \<Rightarrow> 'a \<Rightarrow> bool) \<Rightarrow> 'a list \<Rightarrow> 'a list" where
  "sort_by lt [] = []"
| "sort_by lt (x # xs) = insert_by lt x (sort_by lt xs)"

text \<open>The contract \<open>sort.Slice\<close> asks of its comparison: a strict weak ordering.\<close>

definition strict_weak :: "('a \<Rightarrow> 'a \<Rightarrow> bool) \<Rightarrow> bool" where
  "strict_weak lt = ((\<forall>x. \<not> lt x x) \<and> (\<forall>x y z. lt x y \<longrightarrow> lt y z \<longrightarrow> lt x z) \<and>
     (\<forall>x y z. \<not> lt x y \<longrightarrow> \<not> lt y z \<longrightarrow> \<not> lt x z))"

section \<open>Byte encodings and printing\<close>

fun be_bytes :: "nat \<Rightarrow> nat \<Rightarrow> bytes" where
  "be_bytes 0 v = []"
| "be_bytes (Suc n) v = be_bytes n (v div 256) @ [word_of_nat (v mod 256)]"

definition be_nat :: "bytes \<Rightarrow> nat" where
  "be_nat bs = foldl (\<lambda>a b. 256 * a + unat b) 0 bs"

text \<open>\<open>[]byte(s)\<close>\<close>

definition string_bytes :: "string \<Rightarrow> bytes" where
  "string_bytes s = map (\<lambda>c. of_nat (of_char c)) s"

fun show_nat :: "nat \<Rightarrow> string" where
  "show_nat n = (if n < 10 then [char_of (48 + n)] else show_nat (n div 10) @ [char_of (48 + n mod 10)])"

declare show_nat.simps [simp del]

definition show_int :: "int \<Rightarrow> string" where
  "show_int i = (if i < 0 then CHR ''-'' # show_nat (nat (- i)) else show_nat (nat i))"

text \<open>\<open>strings.ToLower\<close> on ASCII; \<open>%x\<close> of a byte string, which is \<open>hex.EncodeToString\<close>; and \<open>hex.DecodeString\<close>.\<close>

definition ToLower :: "string \<Rightarrow> string" where
  "ToLower s = map (\<lambda>c. if 65 \<le> (of_char c :: nat) \<and> (of_char c :: nat) \<le> 90 then char_of ((of_char c :: nat) + 32) else c) s"

definition hex_digit :: "nat \<Rightarrow> char" where
  "hex_digit n = (if n < 10 then char_of (48 + n) else char_of (87 + n))"

definition show_hex :: "bytes \<Rightarrow> string" where
  "show_hex bs = concat (map (\<lambda>b. [hex_digit (unat b div 16), hex_digit (unat b mod 16)]) bs)"

definition hex_value :: "char \<Rightarrow> nat option" where
  "hex_value c = (let n = of_char c :: nat
     in if 48 \<le> n \<and> n \<le> 57 then Some (n - 48)
        else if 97 \<le> n \<and> n \<le> 102 then Some (n - 87)
        else if 65 \<le> n \<and> n \<le> 70 then Some (n - 55) else None)"

fun hex_DecodeString :: "string \<Rightarrow> bytes res" where
  "hex_DecodeString [] = Inr []"
| "hex_DecodeString [c] = Inl (Err ''encoding/hex: odd length hex string'')"
| "hex_DecodeString (a # b # cs) = (case (hex_value a, hex_value b) of
       (Some x, Some y) \<Rightarrow> bindE (hex_DecodeString cs) (\<lambda>bs. Inr (of_nat (16 * x + y) # bs))
     | _ \<Rightarrow> Inl (Err ''encoding/hex: invalid byte''))"

text \<open>\<open>strconv.ParseInt(s, 10, bits)\<close> for a positive number of bits; \<open>strconv.FormatInt(i, 10)\<close> is \<open>show_int\<close>.\<close>

fun digits_value :: "string \<Rightarrow> nat \<Rightarrow> nat option" where
  "digits_value [] acc = Some acc"
| "digits_value (c # cs) acc = (let n = of_char c :: nat
     in if 48 \<le> n \<and> n \<le> 57 then digits_value cs (10 * acc + (n - 48)) else None)"

definition ParseInt :: "nat \<Rightarrow> string \<Rightarrow> int res" where
  "ParseInt bits s =
     (let (neg, ds) = (case s of [] \<Rightarrow> (False, []) | c # cs \<Rightarrow> if c = CHR ''-'' then (True, cs) else if c = CHR ''+'' then (False, cs) else (False, s))
      in if ds = [] then Inl (Err ''invalid syntax'')
         else case digits_value ds 0 of
                None \<Rightarrow> Inl (Err ''invalid syntax'')
              | Some n \<Rightarrow> let i = (if neg then - int n else int n)
                  in if i < - (2 ^ (bits - 1)) \<or> 2 ^ (bits - 1) \<le> i then Inl (Err ''value out of range'') else Inr i)"

text \<open>\<open>[32]byte(s)\<close>: the conversion of a slice to an array panics when the slice is too short.\<close>

definition Bytes32 :: "bytes \<Rightarrow> bytes res" where
  "Bytes32 s = (if length s < 32 then Inl (Panic ''cannot convert slice to array'') else Inr (take 32 s))"

section \<open>Lemmas on results\<close>

lemma bindE_simps [simp]:
  "bindE (Inl e) f = Inl e"
  "bindE (Inr x) f = f x"
  by (simp_all add: bindE_def)

lemma wrapE_simps [simp]:
  "wrapE s (Inr x) = Inr x"
  "wrapE s (Inl e) = Inl (if is_panic e then e else Wrap s e)"
  by (simp_all add: wrapE_def)

lemma okE_simps [simp]: "okE (Inr x)" "\<not> okE (Inl e)"
  by (simp_all add: okE_def)

lemma not_Inl_iff: "(\<forall>x. m \<noteq> Inl x) \<longleftrightarrow> (\<exists>y. m = Inr y)"
  by (cases m) auto

lemma okE_iff: "okE m \<longleftrightarrow> (\<exists>x. m = Inr x)"
  by (cases m) auto

lemma bindE_Inr_iff [resE, simp]: "bindE m f = Inr y \<longleftrightarrow> (\<exists>x. m = Inr x \<and> f x = Inr y)"
  by (cases m) auto

lemma wrapE_Inr_iff [resE, simp]: "wrapE s m = Inr y \<longleftrightarrow> m = Inr y"
  by (cases m) auto

lemma must_Inr_iff [resE, simp]: "must s m = Inr y \<longleftrightarrow> m = Inr y"
  by (cases m) (auto simp: must_def)

lemma must_Inr [simp]: "must s (Inr x) = Inr x"
  by simp

lemma bindE_Inr [simp]: "bindE m Inr = m"
  by (cases m) auto

lemma bindE_assoc: "bindE (bindE m f) g = bindE m (\<lambda>x. bindE (f x) g)"
  by (cases m) auto

lemma bindE_cong [fundef_cong]:
  "m = m' \<Longrightarrow> (\<And>x. m' = Inr x \<Longrightarrow> f x = f' x) \<Longrightarrow> bindE m f = bindE m' f'"
  by (cases m') auto

lemma bindO_simps [simp]:
  "bindO None f = None"
  "bindO (Some (Inl e)) f = Some (Inl e)"
  "bindO (Some (Inr x)) f = f x"
  by (simp_all add: bindO_def)

lemma bindO_Inr_iff [resE, simp]: "bindO m f = Some (Inr y) \<longleftrightarrow> (\<exists>x. m = Some (Inr x) \<and> f x = Some (Inr y))"
  by (cases m rule: option.exhaust; cases "the m") (auto simp: bindO_def)

lemma mapO_all: "(\<And>x. x \<in> set xs \<Longrightarrow> f x = Some (Inr (g x))) \<Longrightarrow> mapO f xs = Some (Inr (map g xs))"
  by (induction xs) auto

lemma mapO_okD: "mapO f xs = Some (Inr ys) \<Longrightarrow> x \<in> set xs \<Longrightarrow> \<exists>y. f x = Some (Inr y)"
  by (induction xs arbitrary: ys) auto

lemma mapO_roundtrip:
  assumes "\<And>x. x \<in> set xs \<Longrightarrow> \<exists>y. f x = Some (Inr y) \<and> P y \<and> g y = Some (Inr (h x))"
  shows "\<exists>ys. mapO f xs = Some (Inr ys) \<and> (\<forall>y \<in> set ys. P y) \<and> mapO g ys = Some (Inr (map h xs))"
  using assms
proof (induction xs)
  case (Cons x xs)
  then obtain ys where "mapO f xs = Some (Inr ys)" "\<forall>y \<in> set ys. P y" "mapO g ys = Some (Inr (map h xs))" by auto
  moreover obtain y where "f x = Some (Inr y)" "P y" "g y = Some (Inr (h x))" using Cons.prems by auto
  ultimately show ?case by (intro exI [of _ "y # ys"]) simp
qed simp

lemma mapO_list_all2: "mapO f xs = Some (Inr ys) \<longleftrightarrow> list_all2 (\<lambda>x y. f x = Some (Inr y)) xs ys"
proof (induction xs arbitrary: ys)
  case Nil
  then show ?case by auto
next
  case (Cons x xs)
  then show ?case by (cases ys) auto
qed

lemma mapE_Inr_iff: "mapE f xs = Inr ys \<longleftrightarrow> list_all2 (\<lambda>x y. f x = Inr y) xs ys"
proof (induction xs arbitrary: ys)
  case Nil
  then show ?case by auto
next
  case (Cons x xs)
  show ?case by (cases ys) (auto simp: Cons.IH)
qed

lemma list_all2_rightD: "list_all2 P xs ys \<Longrightarrow> y \<in> set ys \<Longrightarrow> \<exists>x \<in> set xs. P x y"
  by (induction rule: list_all2_induct) auto

lemma mapE_length: "mapE f xs = Inr ys \<Longrightarrow> length ys = length xs"
  by (simp add: mapE_Inr_iff list_all2_lengthD)

lemma mapE_map: "mapE f (map g xs) = mapE (\<lambda>x. f (g x)) xs"
  by (induction xs) auto

lemma mapE_all_Inr: "(\<And>x. x \<in> set xs \<Longrightarrow> f x = Inr (g x)) \<Longrightarrow> mapE f xs = Inr (map g xs)"
  by (induction xs) auto

lemma mapE_roundtrip:
  assumes "\<And>x. x \<in> set xs \<Longrightarrow> \<exists>y. f x = Inr y \<and> P y \<and> g y = x"
  shows "\<exists>ys. mapE f xs = Inr ys \<and> (\<forall>y \<in> set ys. P y) \<and> map g ys = xs"
  using assms
proof (induction xs)
  case (Cons x xs)
  then obtain ys where "mapE f xs = Inr ys" "\<forall>y \<in> set ys. P y" "map g ys = xs" by auto
  moreover obtain y where "f x = Inr y" "P y" "g y = x" using Cons.prems by auto
  ultimately show ?case by (intro exI [of _ "y # ys"]) simp
qed simp

lemma mapE_append:
  "mapE f (us @ vs) = bindE (mapE f us) (\<lambda>a. bindE (mapE f vs) (\<lambda>b. Inr (a @ b)))"
  by (induction us) (auto simp: bindE_assoc intro!: bindE_cong)

lemma mapE_error_at:
  "\<forall>u\<in>set us. okE (f u) \<Longrightarrow> f x = Inl e \<Longrightarrow> mapE f (us @ x # vs) = Inl e"
  by (induction us) (auto simp: okE_iff)

lemma mapE_InlD:
  "mapE f xs = Inl e \<Longrightarrow> \<exists>us x vs. xs = us @ x # vs \<and> (\<forall>u\<in>set us. okE (f u)) \<and> f x = Inl e"
proof (induction xs)
  case Nil
  then show ?case by simp
next
  case (Cons a xs)
  show ?case
  proof (cases "f a")
    case (Inl e')
    with Cons.prems show ?thesis by (intro exI [of _ "[]"]) auto
  next
    case (Inr y)
    with Cons.prems have "mapE f xs = Inl e" by (cases "mapE f xs") auto
    with Cons.IH obtain us x vs where "xs = us @ x # vs" "\<forall>u\<in>set us. okE (f u)" "f x = Inl e" by blast
    with Inr show ?thesis by (intro exI [of _ "a # us"]) auto
  qed
qed

lemma foldE_append: "foldE f (xs @ ys) s = bindE (foldE f xs s) (foldE f ys)"
  by (induction xs arbitrary: s) (auto simp: bindE_assoc intro: bindE_cong)

lemma foldE_invariant:
  assumes "foldE f xs s = Inr s'" "P s"
    and "\<And>x s s'. x \<in> set xs \<Longrightarrow> P s \<Longrightarrow> f x s = Inr s' \<Longrightarrow> P s'"
  shows "P s'"
  using assms by (induction xs arbitrary: s) auto

section \<open>Lemmas on Go maps\<close>

lemma concat_concat_map: "concat (concat (map f xs)) = concat (map (\<lambda>x. concat (f x)) xs)"
  by (induction xs) simp_all

lemma mset_concat_map: "mset (concat (map f xs)) = sum_mset (image_mset (\<lambda>x. mset (f x)) (mset xs))"
  by (induction xs) auto

lemma gomap_wf_Nil [simp]: "gomap_wf []"
  by (simp add: gomap_wf_def)

lemma gomap_wf_gput [simp]: "gomap_wf m \<Longrightarrow> gomap_wf (gput k v m)"
  by (simp add: gomap_wf_def distinct_update)

lemma gomap_wf_gdel [simp]: "gomap_wf m \<Longrightarrow> gomap_wf (gdel k m)"
  by (simp add: gomap_wf_def distinct_delete)

lemma lookup_gput [simp]: "map_of (gput k v m) k' = (if k' = k then Some v else map_of m k')"
  by (simp add: update_conv')

lemma lookup_gdel [simp]: "map_of (gdel k m) k' = (if k' = k then None else map_of m k')"
  by (simp add: delete_conv')

lemma in_gomap: "gomap_wf m \<Longrightarrow> (k, v) \<in> set m \<longleftrightarrow> map_of m k = Some v"
  by (simp add: gomap_wf_def)

lemma length_gput_fresh: "map_of m k = None \<Longrightarrow> length (gput k v m) = Suc (length m)"
  by (induction m) (auto split: if_splits)

lemma length_gput_old: "map_of m k = Some w \<Longrightarrow> length (gput k v m) = length m"
  by (induction m) (auto split: if_splits)

lemma length_gdel: "gomap_wf m \<Longrightarrow> map_of m k = Some v \<Longrightarrow> Suc (length (gdel k m)) = length m"
proof (induction m)
  case Nil
  then show ?case by simp
next
  case (Cons kv m)
  obtain k' v' where kv: "kv = (k', v')" by (cases kv)
  show ?case
  proof (cases "k' = k")
    case True
    with Cons.prems kv have "k \<notin> fst ` set m" by (simp add: gomap_wf_def)
    then have "gdel k m = m" by (simp add: delete_id)
    with True kv show ?thesis by simp
  next
    case False
    with Cons kv show ?thesis by (simp add: gomap_wf_def)
  qed
qed

text \<open>
  \<open>for k, v := range m\<close> visits every entry once, in an order the language leaves open.
  A definition that ranges over a map takes the order as an oracle; this is its contract.
\<close>

locale go_range =
  fixes rng :: "('k \<times> 'v) list \<Rightarrow> ('k \<times> 'v) list"
  assumes mset_rng: "mset (rng m) = mset m"
begin

lemma set_rng: "set (rng m) = set m"
  using mset_rng [of m] by (metis set_mset_mset)

lemma length_rng: "length (rng m) = length m"
  using mset_rng [of m] by (metis size_mset)

lemma wf_rng: "gomap_wf (rng m) = gomap_wf m"
  unfolding gomap_wf_def using mset_rng [of m]
  by (metis mset_eq_imp_distinct_iff mset_map)

lemma map_of_rng: "gomap_wf m \<Longrightarrow> map_of (rng m) = map_of m"
  by (rule map_of_inject_set [THEN iffD2]) (auto simp: set_rng gomap_wf_def [symmetric] wf_rng)

end

interpretation rng_id: go_range "\<lambda>m. m"
  by unfold_locales simp

interpretation rng_rev: go_range rev
  by unfold_locales simp

section \<open>Lemmas on sorting\<close>

locale go_sort =
  fixes sort_Slice :: "('a \<Rightarrow> 'a \<Rightarrow> bool) \<Rightarrow> 'a list \<Rightarrow> 'a list"
  assumes mset_sort: "mset (sort_Slice lt xs) = mset xs"
    and sorted_sort: "strict_weak lt \<Longrightarrow> sorted_wrt (\<lambda>x y. \<not> lt y x) (sort_Slice lt xs)"
begin

lemma set_sort: "set (sort_Slice lt xs) = set xs"
  using mset_sort by (metis set_mset_mset)

lemma length_sort: "length (sort_Slice lt xs) = length xs"
  using mset_sort by (metis size_mset)

end

lemma mset_insert_by [simp]: "mset (insert_by lt x xs) = add_mset x (mset xs)"
  by (induction xs) auto

lemma set_insert_by [simp]: "set (insert_by lt x xs) = insert x (set xs)"
  by (induction xs) auto

lemma mset_sort_by [simp]: "mset (sort_by lt xs) = mset xs"
  by (induction xs) auto

lemma sorted_insert_by:
  assumes "strict_weak lt" "sorted_wrt (\<lambda>x y. \<not> lt y x) xs"
  shows "sorted_wrt (\<lambda>x y. \<not> lt y x) (insert_by lt x xs)"
  using assms(2)
proof (induction xs)
  case Nil
  then show ?case by simp
next
  case (Cons y ys)
  from assms(1) have irrefl: "lt a b \<Longrightarrow> \<not> lt b a" and trans: "\<not> lt a b \<Longrightarrow> \<not> lt b c \<Longrightarrow> \<not> lt a c" for a b c
    unfolding strict_weak_def by blast+
  from Cons.prems have ys: "sorted_wrt (\<lambda>x y. \<not> lt y x) ys" and y: "\<forall>z\<in>set ys. \<not> lt z y" by auto
  show ?case
  proof (cases "lt y x")
    case True
    with Cons.IH [OF ys] y irrefl [OF True] show ?thesis by simp
  next
    case False
    have "\<not> lt z x" if "z \<in> set ys" for z
      using y that False trans by blast
    with False Cons.prems show ?thesis by simp
  qed
qed

lemma sorted_sort_by: "strict_weak lt \<Longrightarrow> sorted_wrt (\<lambda>x y. \<not> lt y x) (sort_by lt xs)"
  by (induction xs) (auto intro: sorted_insert_by)

interpretation isort: go_sort sort_by
  by unfold_locales (auto intro: sorted_sort_by)

section \<open>Lemmas on byte encodings and printing\<close>

lemma length_be_bytes [simp]: "length (be_bytes n v) = n"
  by (induction n arbitrary: v) auto

lemma be_bytes_4: "be_bytes 4 v =
    [of_nat (v div 256 div 256 div 256 mod 256), of_nat (v div 256 div 256 mod 256), of_nat (v div 256 mod 256), of_nat (v mod 256)]"
proof -
  have four: "4 = Suc (Suc (Suc (Suc 0)))" by simp
  show ?thesis by (simp only: four be_bytes.simps append.simps)
qed

lemma replicate_4: "replicate 4 x = [x, x, x, x]"
  by (simp add: eval_nat_numeral)

lemma be_nat_Nil [simp]: "be_nat [] = 0"
  by (simp add: be_nat_def)

lemma be_nat_snoc [simp]: "be_nat (bs @ [b]) = 256 * be_nat bs + unat b"
  by (simp add: be_nat_def)

lemma be_nat_bytes: "be_nat (be_bytes n v) = v mod 256 ^ n"
proof (induction n arbitrary: v)
  case 0
  then show ?case by simp
next
  case (Suc n)
  have "unat (word_of_nat (v mod 256) :: u8) = v mod 256"
    by (simp add: unat_of_nat)
  then show ?case
    by (simp add: Suc.IH mod_mult2_eq add.commute)
qed

lemma be_bytes_nat: "be_bytes (length bs) (be_nat bs) = bs"
proof (induction bs rule: rev_induct)
  case Nil
  then show ?case by simp
next
  case (snoc b bs)
  have "unat b < 256" using unsigned_less [of b, where ?'a = nat] by simp
  then have "(256 * be_nat bs + unat b) div 256 = be_nat bs"
    and "(256 * be_nat bs + unat b) mod 256 = unat b" by auto
  with snoc.IH show ?case by simp
qed

lemma be_nat_bound: "be_nat bs < 256 ^ length bs"
  using be_nat_bytes [of "length bs" "be_nat bs"] be_bytes_nat [of bs]
  by (metis mod_less_divisor zero_less_numeral zero_less_power)

lemma show_nat_neq_Nil [simp]: "show_nat n \<noteq> []"
  by (subst show_nat.simps) simp

lemma digit_char_inj: "a < 10 \<Longrightarrow> b < 10 \<Longrightarrow> (char_of (48 + a) :: char) = char_of (48 + b) \<Longrightarrow> a = (b :: nat)"
  by (drule arg_cong [where f = "of_char :: char \<Rightarrow> nat"]) simp

lemma show_nat_inj: "show_nat m = show_nat n \<Longrightarrow> m = n"
proof (induction m arbitrary: n rule: less_induct)
  case (less m)
  have split: "show_nat k = (if k < 10 then [] else show_nat (k div 10)) @ [char_of (48 + k mod 10)]" for k
    by (subst show_nat.simps) simp
  from less.prems have last: "m mod 10 = n mod 10"
    and init: "(if m < 10 then [] else show_nat (m div 10)) = (if n < 10 then [] else show_nat (n div 10))"
    by (auto simp: split [of m] split [of n] intro: digit_char_inj)
  show ?case
  proof (cases "m < 10")
    case True
    with init have "n < 10" by (auto split: if_splits dest: sym)
    with True last show ?thesis by simp
  next
    case False
    with init have "\<not> n < 10" "show_nat (m div 10) = show_nat (n div 10)"
      by (auto split: if_splits)
    moreover from False have "m div 10 < m" by simp
    ultimately have "m div 10 = n div 10" using less.IH by blast
    with last show ?thesis by (metis div_mult_mod_eq)
  qed
qed

lemma hd_show_nat: "hd (show_nat n) \<noteq> CHR ''-''"
proof (induction n rule: less_induct)
  case (less n)
  have digit: "(char_of (48 + k) :: char) \<noteq> CHR ''-''" if "k < 10" for k :: nat
    using that by (auto dest: arg_cong [where f = "of_char :: char \<Rightarrow> nat"])
  show ?case
  proof (cases "n < 10")
    case True
    then show ?thesis by (subst show_nat.simps) (simp add: digit)
  next
    case False
    then have "hd (show_nat (n div 10)) \<noteq> CHR ''-''" by (intro less.IH) simp
    with False show ?thesis by (subst show_nat.simps) simp
  qed
qed

lemma show_int_inj: "show_int i = show_int j \<Longrightarrow> i = j"
proof -
  assume eq: "show_int i = show_int j"
  have neg: "show_nat a \<noteq> CHR ''-'' # show_nat b" for a b
    using hd_show_nat [of a] by auto
  from eq show "i = j"
    using neg neg [symmetric] by (auto simp: show_int_def split: if_splits dest!: show_nat_inj)
qed

lemma digits_value_snoc: "digits_value (xs @ ys) a = (case digits_value xs a of None \<Rightarrow> None | Some b \<Rightarrow> digits_value ys b)"
  by (induction xs arbitrary: a) (auto simp: Let_def)

lemma digits_value_show: "digits_value (show_nat n) 0 = Some n"
proof (induction n rule: less_induct)
  case (less n)
  have digit: "digits_value [char_of (48 + d)] a = Some (10 * a + d)" if "d < 10" for d a :: nat
    using that by simp
  show ?case
  proof (cases "n < 10")
    case True
    then show ?thesis using digit [of n 0] by (subst show_nat.simps) simp
  next
    case False
    then have "digits_value (show_nat (n div 10)) 0 = Some (n div 10)" by (intro less.IH) simp
    then show ?thesis using False digit [of "n mod 10" "n div 10"] by (subst show_nat.simps) (simp add: digits_value_snoc)
  qed
qed

lemma show_nat_hd: "\<exists>(d :: nat) cs. show_nat n = char_of (48 + d) # cs \<and> d < 10"
proof (induction n rule: less_induct)
  case (less n)
  show ?case
  proof (cases "n < 10")
    case True
    then have "show_nat n = [char_of (48 + n)]" by (subst show_nat.simps) simp
    with True show ?thesis by blast
  next
    case False
    then obtain d :: nat and cs where "show_nat (n div 10) = char_of (48 + d) # cs" "d < 10" using less.IH [of "n div 10"] by auto
    moreover from False have "show_nat n = show_nat (n div 10) @ [char_of (48 + n mod 10)]" by (subst show_nat.simps) simp
    ultimately show ?thesis by (metis append_Cons)
  qed
qed

text \<open>Printing and parsing are inverse on the integers that have \<open>bits\<close> bits.\<close>

lemma ParseInt_show: "- (2 ^ (bits - 1)) \<le> i \<Longrightarrow> i < 2 ^ (bits - 1) \<Longrightarrow> ParseInt bits (show_int i) = Inr i"
proof -
  assume range: "- (2 ^ (bits - 1)) \<le> i" "i < 2 ^ (bits - 1)"
  obtain d :: nat and cs where hd: "show_nat (nat i) = char_of (48 + d) # cs" "d < 10" using show_nat_hd by blast
  have "(char_of (48 + d) :: char) \<noteq> CHR ''-''" "(char_of (48 + d) :: char) \<noteq> CHR ''+''"
    using hd(2) by (auto dest: arg_cong [where f = "of_char :: char \<Rightarrow> nat"])
  with range hd(1) show ?thesis
    using digits_value_show [of "nat i"] digits_value_show [of "nat (- i)"] by (auto simp: ParseInt_def show_int_def Let_def)
qed

end
