(* ===== verification/Log_Filters.thy ===== *)
theory Log_Filters
  imports Prelude
begin

text \<open>
  The registry of log filters (\<open>pkg/logpoller/filters.go\<close>, \<open>pkg/logpoller/types/models.go\<close>).
  Filters are kept by name, with an index from printed addresses to the watched topics.

  Addresses are those of tonutils-go, of an arbitrary type \<open>'a\<close>; \<open>Address.String\<close>,
  \<open>Address.Equals\<close> and \<open>address.MustParseAddr\<close> (which panics on a string that is not an
  address) are arguments. Every operation holds the registry's lock, so a history of the
  registry is a sequence of whole operations.
\<close>

section \<open>Data\<close>

record 'a Filter =
  flt_ID :: "64 word" \<comment> \<open>int64\<close>
  flt_Name :: string
  flt_Address :: 'a
  flt_EventName :: string
  flt_EventTopic :: u32
  flt_StartingSeqNo :: u32
  flt_Retention :: int

record 'a Filters =
  filtersByName :: "(string, 'a Filter) gomap"
  filtersByAddress :: "(string, (u32, unit) gomap) gomap"

section \<open>Operations\<close>

definition newFilters :: "'a Filters" where
  "newFilters = \<lparr>filtersByName = [], filtersByAddress = []\<rparr>"

text \<open>A missing key reads as the nil map, which is empty.\<close>

definition topics_at :: "'a Filters \<Rightarrow> string \<Rightarrow> (u32, unit) gomap" where
  "topics_at f a = (case map_of (filtersByAddress f) a of None \<Rightarrow> [] | Some ts \<Rightarrow> ts)"

definition RegisterFilter :: "('a \<Rightarrow> string) \<Rightarrow> 'a Filter \<Rightarrow> 'a Filters \<Rightarrow> 'a Filters" where
  "RegisterFilter String flt f =
     (let a = String (flt_Address flt)
      in f\<lparr>filtersByName := gput (flt_Name flt) flt (filtersByName f),
           filtersByAddress := gput a (gput (flt_EventTopic flt) () (topics_at f a)) (filtersByAddress f)\<rparr>)"

definition UnregisterFilter :: "('a \<Rightarrow> string) \<Rightarrow> string \<Rightarrow> 'a Filters \<Rightarrow> 'a Filters" where
  "UnregisterFilter String name f = (case map_of (filtersByName f) name of
       None \<Rightarrow> f
     | Some flt \<Rightarrow>
        let a = String (flt_Address flt);
            ts = gdel (flt_EventTopic flt) (topics_at f a)
        in f\<lparr>filtersByName := gdel name (filtersByName f),
             filtersByAddress := (if ts = [] then gdel a (filtersByAddress f)
                                  else gput a ts (filtersByAddress f))\<rparr>)"

definition GetDistinctAddresses ::
  "((string \<times> (u32, unit) gomap) list \<Rightarrow> (string \<times> (u32, unit) gomap) list) \<Rightarrow> (string \<Rightarrow> 'a res) \<Rightarrow>
   'a Filters \<Rightarrow> 'a list res" where
  "GetDistinctAddresses rng MustParseAddr f = mapE (\<lambda>(a, _). MustParseAddr a) (rng (filtersByAddress f))"

definition MatchingFilters ::
  "((string \<times> 'a Filter) list \<Rightarrow> (string \<times> 'a Filter) list) \<Rightarrow> ('a \<Rightarrow> string) \<Rightarrow> ('a \<Rightarrow> 'a \<Rightarrow> bool) \<Rightarrow>
   'a \<Rightarrow> u32 \<Rightarrow> 'a Filters \<Rightarrow> 64 word list" where
  "MatchingFilters rng String Equals contractAddr topic f = (case map_of (filtersByAddress f) (String contractAddr) of
       None \<Rightarrow> []
     | Some byTopic \<Rightarrow>
        if map_of byTopic topic = None then []
        else map (\<lambda>(_, flt). flt_ID flt)
               (filter (\<lambda>(_, flt). Equals (flt_Address flt) contractAddr \<and> flt_EventTopic flt = topic)
                  (rng (filtersByName f))))"

section \<open>Invariants\<close>

text \<open>Both maps are maps, filters are filed under their names and no address is watched in vain.\<close>

definition filters_wf :: "'a Filters \<Rightarrow> bool" where
  "filters_wf f = (gomap_wf (filtersByName f) \<and> gomap_wf (filtersByAddress f) \<and>
     (\<forall>n flt. map_of (filtersByName f) n = Some flt \<longrightarrow> flt_Name flt = n) \<and>
     (\<forall>a ts. map_of (filtersByAddress f) a = Some ts \<longrightarrow> gomap_wf ts \<and> ts \<noteq> []))"

text \<open>What the index says is watched.\<close>

definition watched :: "'a Filters \<Rightarrow> string \<times> u32 \<Rightarrow> bool" where
  "watched f k = (map_of (topics_at f (fst k)) (snd k) \<noteq> None)"

text \<open>What a filter asks to be watched: the printed address and the topic.\<close>

definition filter_key :: "('a \<Rightarrow> string) \<Rightarrow> 'a Filter \<Rightarrow> string \<times> u32" where
  "filter_key String flt = (String (flt_Address flt), flt_EventTopic flt)"

definition registered :: "'a Filters \<Rightarrow> string \<rightharpoonup> 'a Filter" where
  "registered f = map_of (filtersByName f)"

lemma topics_at_simps [simp]:
  "topics_at (f\<lparr>filtersByName := m\<rparr>) a = topics_at f a"
  "topics_at (f\<lparr>filtersByAddress := gput b ts n\<rparr>) a = (if a = b then ts else topics_at (f\<lparr>filtersByAddress := n\<rparr>) a)"
  "topics_at (f\<lparr>filtersByAddress := gdel b n\<rparr>) a = (if a = b then [] else topics_at (f\<lparr>filtersByAddress := n\<rparr>) a)"
  "topics_at (f\<lparr>filtersByAddress := filtersByAddress f\<rparr>) a = topics_at f a"
  by (auto simp: topics_at_def)

lemma topics_at_wf: "filters_wf f \<Longrightarrow> gomap_wf (topics_at f a)"
  by (auto simp: topics_at_def filters_wf_def split: option.splits)

lemma gput_neq_Nil [simp]: "gput k v m \<noteq> []"
  by (cases m) auto

lemma filters_wf_new: "filters_wf newFilters"
  by (simp add: filters_wf_def newFilters_def)

lemma RegisterFilter_wf: "filters_wf f \<Longrightarrow> filters_wf (RegisterFilter String flt f)"
  using topics_at_wf [of f] by (auto simp: filters_wf_def RegisterFilter_def Let_def)

lemma UnregisterFilter_wf: "filters_wf f \<Longrightarrow> filters_wf (UnregisterFilter String name f)"
  using topics_at_wf [of f]
  by (auto simp: filters_wf_def UnregisterFilter_def Let_def split: option.splits)

lemma watched_Register:
  "watched (RegisterFilter String flt f) k \<longleftrightarrow> watched f k \<or> k = filter_key String flt"
  by (cases k) (auto simp: watched_def filter_key_def RegisterFilter_def Let_def)

lemma watched_Unregister:
  "watched (UnregisterFilter String name f) k \<longleftrightarrow>
     watched f k \<and> (\<forall>flt. registered f name = Some flt \<longrightarrow> k \<noteq> filter_key String flt)"
proof (cases "map_of (filtersByName f) name")
  case None
  then show ?thesis by (simp add: UnregisterFilter_def registered_def)
next
  case (Some flt)
  let ?a = "String (flt_Address flt)" and ?ts = "gdel (flt_EventTopic flt) (topics_at f (String (flt_Address flt)))"
  have del: "map_of ?ts topic = (if topic = flt_EventTopic flt then None else map_of (topics_at f ?a) topic)" for topic
    by simp
  have "topics_at (UnregisterFilter String name f) a = (if a = ?a then ?ts else topics_at f a)" for a
    using Some by (auto simp: UnregisterFilter_def Let_def)
  with Some show ?thesis
    by (cases k) (auto simp: watched_def filter_key_def registered_def del)
qed

lemma registered_Register: "registered (RegisterFilter String flt f) = (registered f)(flt_Name flt \<mapsto> flt)"
  by (auto simp: RegisterFilter_def Let_def registered_def)

lemma registered_Unregister: "registered (UnregisterFilter String name f) = (registered f)(name := None)"
  by (auto simp: UnregisterFilter_def Let_def registered_def fun_eq_iff split: option.splits)

section \<open>The registry as an index\<close>

text \<open>
  The interface of a registry whose items are filed by name and indexed by key. The index is a
  set of keys, not of items, so it is exact only while no two items share a key: \<open>fresh\<close> is the
  discipline on histories that guarantees it.
\<close>

datatype 'f reg_op = Register 'f | Unregister string

locale keyed_registry =
  fixes items :: "'s \<Rightarrow> string \<rightharpoonup> 'f" and indexed :: "'s \<Rightarrow> 'k \<Rightarrow> bool"
    and name_of :: "'f \<Rightarrow> string" and key :: "'f \<Rightarrow> 'k"
    and add :: "'f \<Rightarrow> 's \<Rightarrow> 's" and remove :: "string \<Rightarrow> 's \<Rightarrow> 's"
  assumes items_add: "items (add x s) = (items s)(name_of x \<mapsto> x)"
    and items_remove: "items (remove n s) = (items s)(n := None)"
    and indexed_add: "indexed (add x s) k \<longleftrightarrow> indexed s k \<or> k = key x"
    and indexed_remove: "indexed (remove n s) k \<longleftrightarrow> indexed s k \<and> (\<forall>x. items s n = Some x \<longrightarrow> k \<noteq> key x)"
begin

fun reg_run :: "'f reg_op list \<Rightarrow> 's \<Rightarrow> 's" where
  "reg_run [] s = s"
| "reg_run (Register x # ops) s = reg_run ops (add x s)"
| "reg_run (Unregister n # ops) s = reg_run ops (remove n s)"

fun reg_map :: "'f reg_op list \<Rightarrow> (string \<rightharpoonup> 'f) \<Rightarrow> (string \<rightharpoonup> 'f)" where
  "reg_map [] r = r"
| "reg_map (Register x # ops) r = reg_map ops (r(name_of x \<mapsto> x))"
| "reg_map (Unregister n # ops) r = reg_map ops (r(n := None))"

fun fresh :: "'f reg_op list \<Rightarrow> (string \<rightharpoonup> 'f) \<Rightarrow> bool" where
  "fresh [] r = True"
| "fresh (Register x # ops) r = (r (name_of x) = None \<and> (\<forall>y \<in> ran r. key y \<noteq> key x) \<and> fresh ops (r(name_of x \<mapsto> x)))"
| "fresh (Unregister n # ops) r = fresh ops (r(n := None))"

definition unshared :: "'s \<Rightarrow> bool" where
  "unshared s = (\<forall>n m x y. items s n = Some x \<longrightarrow> items s m = Some y \<longrightarrow> key x = key y \<longrightarrow> n = m)"

definition exact :: "'s \<Rightarrow> bool" where
  "exact s = (\<forall>k. indexed s k = (\<exists>x \<in> ran (items s). key x = k))"

lemma run_refines: "items (reg_run ops s) = reg_map ops (items s)"
  by (induction ops s rule: reg_run.induct) (simp_all only: reg_run.simps reg_map.simps items_add items_remove)

lemma exact_add:
  assumes "exact s" "unshared s" "items s (name_of x) = None" "\<forall>y \<in> ran (items s). key y \<noteq> key x"
  shows "exact (add x s) \<and> unshared (add x s)"
proof
  show "exact (add x s)"
    using assms(1,3) by (auto simp: exact_def indexed_add items_add ran_map_upd)
  show "unshared (add x s)"
    using assms(2,4) by (auto simp: unshared_def items_add ran_def)
qed

lemma exact_remove:
  assumes "exact s" "unshared s"
  shows "exact (remove n s) \<and> unshared (remove n s)"
proof
  show "unshared (remove n s)"
    using assms(2) by (auto simp: unshared_def items_remove)
  have "(\<exists>x \<in> ran ((items s)(n := None)). key x = k) \<longleftrightarrow>
     (\<exists>x \<in> ran (items s). key x = k) \<and> (\<forall>x. items s n = Some x \<longrightarrow> k \<noteq> key x)" for k
  proof
    assume "\<exists>x \<in> ran ((items s)(n := None)). key x = k"
    then obtain m x where x: "m \<noteq> n" "items s m = Some x" "key x = k" by (auto simp: ran_def split: if_splits)
    with assms(2) have "\<forall>y. items s n = Some y \<longrightarrow> k \<noteq> key y" by (auto simp: unshared_def)
    with x show "(\<exists>x \<in> ran (items s). key x = k) \<and> (\<forall>x. items s n = Some x \<longrightarrow> k \<noteq> key x)" by (auto simp: ran_def)
  next
    assume "(\<exists>x \<in> ran (items s). key x = k) \<and> (\<forall>x. items s n = Some x \<longrightarrow> k \<noteq> key x)"
    then obtain m x where "items s m = Some x" "key x = k" "m \<noteq> n" by (auto simp: ran_def)
    then show "\<exists>x \<in> ran ((items s)(n := None)). key x = k" by (auto simp: ran_def)
  qed
  with assms(1) show "exact (remove n s)"
    by (simp add: exact_def indexed_remove items_remove)
qed

lemma run_exact: "fresh ops (items s) \<Longrightarrow> exact s \<Longrightarrow> unshared s \<Longrightarrow> exact (reg_run ops s) \<and> unshared (reg_run ops s)"
  by (induction ops s rule: reg_run.induct)
    (auto simp: items_add items_remove dest: exact_add exact_remove)

lemma shared_lost:
  assumes "items s n = Some x" "items s m = Some y" "n \<noteq> m" "key x = key y"
  shows "items (remove n s) m = Some y \<and> \<not> indexed (remove n s) (key y)"
  using assms by (auto simp: items_remove indexed_remove)

end

interpretation filter_index: keyed_registry registered watched flt_Name "filter_key String" "RegisterFilter String" "UnregisterFilter String"
  for String
  by unfold_locales (simp_all add: registered_Register registered_Unregister watched_Register watched_Unregister)

section \<open>Histories of the registry\<close>

fun filter_ops :: "('a \<Rightarrow> string) \<Rightarrow> 'a Filter reg_op list \<Rightarrow> 'a Filters \<Rightarrow> 'a Filters" where
  "filter_ops String [] f = f"
| "filter_ops String (Register flt # ops) f = filter_ops String ops (RegisterFilter String flt f)"
| "filter_ops String (Unregister name # ops) f = filter_ops String ops (UnregisterFilter String name f)"

text \<open>The filters a history leaves, as a map from names.\<close>

fun current :: "'a Filter reg_op list \<Rightarrow> (string \<rightharpoonup> 'a Filter) \<Rightarrow> (string \<rightharpoonup> 'a Filter)" where
  "current [] r = r"
| "current (Register flt # ops) r = current ops (r(flt_Name flt \<mapsto> flt))"
| "current (Unregister name # ops) r = current ops (r(name := None))"

text \<open>Filters are registered under new names, and never twice for one address and topic.\<close>

fun disciplined :: "('a \<Rightarrow> string) \<Rightarrow> 'a Filter reg_op list \<Rightarrow> (string \<rightharpoonup> 'a Filter) \<Rightarrow> bool" where
  "disciplined String [] r = True"
| "disciplined String (Register flt # ops) r = (r (flt_Name flt) = None \<and>
     (\<forall>flt' \<in> ran r. filter_key String flt' \<noteq> filter_key String flt) \<and> disciplined String ops (r(flt_Name flt \<mapsto> flt)))"
| "disciplined String (Unregister name # ops) r = disciplined String ops (r(name := None))"

lemma filter_ops_run: "filter_ops String ops f = filter_index.reg_run String ops f"
  by (induction String ops f rule: filter_ops.induct) simp_all

lemma current_run_map: "current ops r = filter_index.reg_map ops r"
  by (induction ops r rule: current.induct) (simp_all add: fun_upd_def)

lemma disciplined_fresh: "disciplined String ops r = filter_index.fresh String ops r"
  by (induction String ops r rule: disciplined.induct) (simp_all add: fun_upd_def)

lemma filter_ops_wf: "filters_wf f \<Longrightarrow> filters_wf (filter_ops String ops f)"
  by (induction String ops f rule: filter_ops.induct) (simp_all add: RegisterFilter_wf UnregisterFilter_wf)

lemma registered_new [simp]: "registered newFilters = Map.empty"
  by (simp add: registered_def newFilters_def)

lemma registered_ops: "registered (filter_ops String ops newFilters) = current ops Map.empty"
  by (simp add: filter_ops_run filter_index.run_refines current_run_map)

lemma exact_new: "filter_index.exact String newFilters" "filter_index.unshared String newFilters"
  by (simp_all add: filter_index.exact_def filter_index.unshared_def) (simp add: watched_def topics_at_def newFilters_def)

lemma history_exact:
  assumes "disciplined String ops Map.empty"
  shows "filter_index.exact String (filter_ops String ops newFilters)"
    "filter_index.unshared String (filter_ops String ops newFilters)"
  using filter_index.run_exact [OF _ exact_new, of String ops] assms
  by (simp_all add: filter_ops_run disciplined_fresh)

lemma MatchingFilters_watched:
  assumes "watched f (String c, topic)"
  shows "MatchingFilters rng String Equals c topic f = map (\<lambda>(_, flt). flt_ID flt)
    (filter (\<lambda>(_, flt). Equals (flt_Address flt) c \<and> flt_EventTopic flt = topic) (rng (filtersByName f)))"
  using assms by (auto simp: MatchingFilters_def watched_def topics_at_def split: option.splits)

lemma MatchingFilters_unwatched:
  "\<not> watched f (String c, topic) \<Longrightarrow> MatchingFilters rng String Equals c topic f = []"
  by (auto simp: MatchingFilters_def watched_def topics_at_def split: option.splits)

lemma filter_single:
  assumes "distinct xs" "x \<in> set xs" "P x" "\<And>y. y \<in> set xs \<Longrightarrow> P y \<Longrightarrow> y = x"
  shows "filter P xs = [x]"
proof -
  have "set (filter P xs) = {x}" unfolding set_filter using assms(2,3,4) by blast
  moreover have "distinct (filter P xs)" using assms(1) by simp
  ultimately have "length (filter P xs) = 1" using distinct_card [of "filter P xs"] by simp
  then obtain y where "filter P xs = [y]" by (auto simp: length_Suc_conv)
  with \<open>set (filter P xs) = {x}\<close> show ?thesis by simp
qed

section \<open>Properties\<close>

text \<open>
  C24: In a disciplined use of the registry (every filter under a new name and no two for one printed address and topic) the
  matching filters are the registered ones. After any history, a filter that is still registered is the one match of
  its address and topic, for every order in which Go iterates over the map, provided that no registered filter
  names the contract's account in another printed form than the contract's address. An address and topic
  that no registered filter asks for in this printed form has no match, even where a filter names the same account in
  another form. (Two addresses that print alike are taken to be equal under \<open>Equals\<close>, but not conversely: one account
  has several user-friendly forms.)
\<close>

theorem MatchingFilters_registered:
  assumes "disciplined String ops Map.empty" "go_range rng" "\<And>x y. String x = String y \<Longrightarrow> Equals x y"
  shows "(\<forall>name flt. current ops Map.empty name = Some flt \<longrightarrow> filter_key String flt = (String c, topic) \<longrightarrow>
      (\<forall>flt' \<in> ran (current ops Map.empty). Equals (flt_Address flt') c \<longrightarrow> String (flt_Address flt') = String c) \<longrightarrow>
      MatchingFilters rng String Equals c topic (filter_ops String ops newFilters) = [flt_ID flt]) \<and>
    ((\<forall>flt \<in> ran (current ops Map.empty). filter_key String flt \<noteq> (String c, topic)) \<longrightarrow>
      MatchingFilters rng String Equals c topic (filter_ops String ops newFilters) = [])"
proof (intro conjI allI impI)
  let ?f = "filter_ops String ops newFilters"
  note exact = history_exact [OF assms(1)]
  have wf: "gomap_wf (filtersByName ?f)" using filter_ops_wf [OF filters_wf_new] by (auto simp: filters_wf_def)
  show "MatchingFilters rng String Equals c topic ?f = [flt_ID flt]"
    if flt: "current ops Map.empty name = Some flt" "filter_key String flt = (String c, topic)"
      and form: "\<forall>flt' \<in> ran (current ops Map.empty). Equals (flt_Address flt') c \<longrightarrow> String (flt_Address flt') = String c" for name flt
  proof -
    from flt have reg: "registered ?f name = Some flt" by (simp add: registered_ops)
    with flt exact(1) have "watched ?f (String c, topic)" by (auto simp: filter_index.exact_def ran_def)
    moreover have "filter (\<lambda>(_, flt). Equals (flt_Address flt) c \<and> flt_EventTopic flt = topic) (rng (filtersByName ?f)) = [(name, flt)]"
    proof (rule filter_single)
      show "distinct (rng (filtersByName ?f))"
        using wf go_range.wf_rng [OF assms(2), of "filtersByName ?f"] unfolding gomap_wf_def by (auto simp: distinct_map)
      show "(name, flt) \<in> set (rng (filtersByName ?f))"
        using reg wf by (simp add: go_range.set_rng [OF assms(2)] in_gomap registered_def)
      show "case (name, flt) of (_, flt) \<Rightarrow> Equals (flt_Address flt) c \<and> flt_EventTopic flt = topic"
        using flt assms(3) by (simp add: filter_key_def)
    next
      fix y assume y: "y \<in> set (rng (filtersByName ?f))"
        "case y of (_, flt) \<Rightarrow> Equals (flt_Address flt) c \<and> flt_EventTopic flt = topic"
      obtain n flt' where n: "y = (n, flt')" by (cases y)
      with y wf have other: "registered ?f n = Some flt'" by (simp add: go_range.set_rng [OF assms(2)] in_gomap registered_def)
      then have "flt' \<in> ran (current ops Map.empty)" by (auto simp: registered_ops ran_def)
      with form y n flt have "filter_key String flt' = filter_key String flt" by (simp add: filter_key_def)
      with other show "y = (name, flt)"
        using exact(2) reg n unfolding filter_index.unshared_def by (metis option.inject)
    qed
    ultimately show ?thesis by (simp add: MatchingFilters_watched)
  qed
  show "MatchingFilters rng String Equals c topic ?f = []"
    if "\<forall>flt \<in> ran (current ops Map.empty). filter_key String flt \<noteq> (String c, topic)"
    using that exact(1) by (intro MatchingFilters_unwatched) (simp add: filter_index.exact_def registered_ops)
qed

text \<open>
  C28: Unregistering one of two filters for the same address and topic silences the other: it stays
  registered, but nothing the contract emits under the topic matches any more.
\<close>

theorem UnregisterFilter_silences:
  assumes "map_of (filtersByName f) n = Some flt" "map_of (filtersByName f) m = Some flt'" "n \<noteq> m"
    and "String (flt_Address flt) = String (flt_Address flt')" "flt_EventTopic flt = flt_EventTopic flt'"
    and "String c = String (flt_Address flt')"
  shows "map_of (filtersByName (UnregisterFilter String n f)) m = Some flt' \<and>
    MatchingFilters rng String Equals c (flt_EventTopic flt') (UnregisterFilter String n f) = []"
proof -
  have "filter_key String flt = filter_key String flt'" using assms(4,5) by (simp add: filter_key_def)
  from filter_index.shared_lost [OF _ _ assms(3) this, of f] assms(1,2) have
    "registered (UnregisterFilter String n f) m = Some flt'" "\<not> watched (UnregisterFilter String n f) (filter_key String flt')"
    by (simp_all add: registered_def)
  then show ?thesis using assms(6) by (simp add: registered_def filter_key_def MatchingFilters_unwatched)
qed

text \<open>
  The addresses the poller scans are those of the registered filters, each once: after a
  disciplined history \<open>GetDistinctAddresses\<close> does not panic, and what it returns prints to exactly
  the addresses of the filters that are still registered, without repetition.
\<close>

theorem GetDistinctAddresses_registered:
  assumes "disciplined String ops Map.empty" "go_range rng"
    and "\<And>x. \<exists>y. MustParseAddr (String x) = Inr y \<and> String y = String x"
  shows "\<exists>out. GetDistinctAddresses rng MustParseAddr (filter_ops String ops newFilters) = Inr out \<and>
    distinct (map String out) \<and> String ` set out = (String \<circ> flt_Address) ` ran (current ops Map.empty)"
proof -
  let ?f = "filter_ops String ops newFilters" and ?keys = "map fst (rng (filtersByAddress (filter_ops String ops newFilters)))"
  have wf: "filters_wf ?f" by (rule filter_ops_wf [OF filters_wf_new])
  have dist: "distinct ?keys"
    using wf go_range.wf_rng [OF assms(2)] by (simp add: filters_wf_def gomap_wf_def)
  have "a \<in> set ?keys \<longleftrightarrow> (\<exists>topic. watched ?f (a, topic))" for a
  proof -
    have "a \<in> set ?keys \<longleftrightarrow> (\<exists>ts. map_of (filtersByAddress ?f) a = Some ts)"
      by (simp add: go_range.set_rng [OF assms(2)] flip: dom_map_of_conv_image_fst) blast
    also have "\<dots> \<longleftrightarrow> (\<exists>topic. watched ?f (a, topic))"
    proof
      assume "\<exists>ts. map_of (filtersByAddress ?f) a = Some ts"
      then obtain ts where ts: "map_of (filtersByAddress ?f) a = Some ts" by blast
      with wf obtain topic u ts' where "ts = (topic, u) # ts'" by (cases ts) (auto simp: filters_wf_def)
      with ts show "\<exists>topic. watched ?f (a, topic)" by (auto simp: watched_def topics_at_def)
    qed (auto simp: watched_def topics_at_def split: option.splits)
    finally show ?thesis .
  qed
  then have keys: "set ?keys = (String \<circ> flt_Address) ` ran (current ops Map.empty)"
    using history_exact(1) [OF assms(1)] unfolding filter_index.exact_def filter_key_def registered_ops set_eq_iff image_iff comp_def
    by (metis prod.inject)
  have "\<forall>a \<in> set ?keys. \<exists>y. MustParseAddr a = Inr y \<and> String y = a" using assms(3) unfolding keys by fastforce
  then obtain g where g: "\<forall>a \<in> set ?keys. MustParseAddr a = Inr (g a) \<and> String (g a) = a" by metis
  then have "mapE MustParseAddr ?keys = Inr (map g ?keys)" by (intro mapE_all_Inr) blast
  then have "GetDistinctAddresses rng MustParseAddr ?f = Inr (map g ?keys)"
    by (simp add: GetDistinctAddresses_def mapE_map case_prod_unfold)
  moreover from g have "map String (map g ?keys) = ?keys" by (auto intro: map_idI)
  ultimately show ?thesis using dist keys by (metis set_map)
qed

section \<open>A concrete history\<close>

definition sample_filter :: "string \<Rightarrow> string \<Rightarrow> u32 \<Rightarrow> 64 word \<Rightarrow> string Filter" where
  "sample_filter name a topic i = \<lparr>flt_ID = i, flt_Name = name, flt_Address = a, flt_EventName = ''CCIPMessageSent'',
     flt_EventTopic = topic, flt_StartingSeqNo = 0, flt_Retention = 0\<rparr>"

definition sample_ops :: "string Filter reg_op list" where
  "sample_ops = [Register (sample_filter ''a'' ''x'' 1 10), Register (sample_filter ''b'' ''y'' 1 11),
     Register (sample_filter ''c'' ''x'' 2 12), Unregister ''a'']"

lemma sample_disciplined: "disciplined id sample_ops Map.empty"
  by (auto simp: sample_ops_def sample_filter_def filter_key_def ran_def split: if_splits)

text \<open>Addresses of which \<open>x\<close> and \<open>u\<close> are two forms of one account: the filter on the form \<open>x\<close> is not found for \<open>u\<close>.\<close>

definition sample_Equals :: "string \<Rightarrow> string \<Rightarrow> bool" where
  "sample_Equals a b = (a = b \<or> a \<in> {''x'', ''u''} \<and> b \<in> {''x'', ''u''})"

theorem MatchingFilters_registered_witness:
  "MatchingFilters rev id sample_Equals ''x'' 2 (filter_ops id sample_ops newFilters) = [12] \<and>
   sample_Equals ''x'' ''u'' \<and> MatchingFilters rev id sample_Equals ''u'' 2 (filter_ops id sample_ops newFilters) = []"
proof -
  have "current sample_ops Map.empty ''c'' = Some (sample_filter ''c'' ''x'' 2 12)"
    by (simp add: sample_ops_def sample_filter_def)
  moreover have "\<forall>flt \<in> ran (current sample_ops Map.empty). filter_key id flt \<noteq> (''u'', 2)"
    "\<forall>flt \<in> ran (current sample_ops Map.empty). sample_Equals (flt_Address flt) ''x'' \<longrightarrow> id (flt_Address flt) = id ''x''"
    by (auto simp: sample_ops_def sample_filter_def filter_key_def sample_Equals_def ran_def split: if_splits)
  moreover have eq: "sample_Equals x y" if "id x = id y" for x y using that by (simp add: sample_Equals_def)
  ultimately show ?thesis
    using MatchingFilters_registered [OF sample_disciplined rng_rev.go_range_axioms, where Equals = sample_Equals and c = "''x''" and topic = 2, OF eq]
      MatchingFilters_registered [OF sample_disciplined rng_rev.go_range_axioms, where Equals = sample_Equals and c = "''u''" and topic = 2, OF eq]
    by (auto simp: sample_filter_def filter_key_def) (auto simp: sample_Equals_def)
qed

theorem UnregisterFilter_silences_witness:
  "let f = filter_ops id [Register (sample_filter ''a'' ''x'' 1 10), Register (sample_filter ''b'' ''x'' 1 11)] newFilters
   in map_of (filtersByName (UnregisterFilter id ''a'' f)) ''b'' = Some (sample_filter ''b'' ''x'' 1 11) \<and>
      MatchingFilters rev id (=) ''x'' 1 f = [11, 10] \<and>
      MatchingFilters rev id (=) ''x'' 1 (UnregisterFilter id ''a'' f) = []"
proof -
  let ?f = "filter_ops id [Register (sample_filter ''a'' ''x'' 1 10), Register (sample_filter ''b'' ''x'' 1 11)] newFilters"
  have f: "map_of (filtersByName ?f) ''a'' = Some (sample_filter ''a'' ''x'' 1 10)"
    "map_of (filtersByName ?f) ''b'' = Some (sample_filter ''b'' ''x'' 1 11)"
    by (simp_all add: RegisterFilter_def sample_filter_def Let_def)
  have "MatchingFilters rev id (=) ''x'' 1 ?f = [11, 10]"
    by (simp add: RegisterFilter_def sample_filter_def newFilters_def topics_at_def MatchingFilters_def Let_def)
  with UnregisterFilter_silences [OF f, of id "''x''" rev "(=)"] show ?thesis
    by (simp add: sample_filter_def)
qed

lemma sample_current:
  "current sample_ops Map.empty = Map.empty(''b'' \<mapsto> sample_filter ''b'' ''y'' 1 11, ''c'' \<mapsto> sample_filter ''c'' ''x'' 2 12)"
  by (simp add: sample_ops_def sample_filter_def fun_eq_iff)

theorem GetDistinctAddresses_registered_witness:
  "\<exists>out. GetDistinctAddresses rev Inr (filter_ops id sample_ops newFilters) = Inr out \<and>
    distinct out \<and> set out = {''x'', ''y''}"
proof -
  have "flt_Address ` ran (current sample_ops Map.empty) = {''x'', ''y''}"
    unfolding sample_current by (subst ran_map_upd) (auto simp: sample_filter_def)
  then show ?thesis
    using GetDistinctAddresses_registered [OF sample_disciplined rng_rev.go_range_axioms, where MustParseAddr = Inr] by simp
qed

end
