(* ===== verification/Log_Query.thy ===== *)
theory Log_Query
  imports Prelude
begin

text \<open>
  The in-memory log store and its query engine (\<open>pkg/logpoller/store.go\<close>,
  \<open>pkg/logpoller/query.go\<close>, \<open>pkg/logpoller/types\<close>): logs are saved in order of arrival and
  queried by source address, topic and byte comparisons at offsets of the log's cell, sorted by
  transaction time and paginated.

  \<open>cell.FromBOC\<close> and \<open>Slice.RestBits\<close> of tonutils-go, the printer of addresses, log parsers
  and filters are arguments. \<open>int\<close> and \<open>uint\<close> are 64 bits wide and wrap around; a slice
  expression out of range panics.
\<close>

section \<open>Data\<close>

record 'a Log =
  log_ID :: "64 word"
  log_FilterID :: "64 word"
  log_Address :: 'a
  log_TxHash :: bytes
  log_TxLT :: u64
  log_Topic :: u32
  log_Data :: bytes
  log_CreatedAt :: int \<comment> \<open>time.Time, in nanoseconds; 0 is the zero time\<close>
  log_ReceivedAt :: int
  log_ExpiresAt :: "int option"
  log_Error :: "string option"

record CellQuery =
  q_Offset :: u64
  q_Operator :: string
  q_Value :: bytes

record SortBy =
  sb_Field :: string
  sb_Order :: string

record QueryOptions =
  qo_Limit :: "64 word"
  qo_Offset :: "64 word"
  qo_SortBy :: "SortBy list"

record 'a QueryResult =
  qr_Logs :: "'a Log list"
  qr_HasMore :: bool
  qr_Total :: nat

abbreviation EQ :: string where "EQ \<equiv> ''=''"
abbreviation NEQ :: string where "NEQ \<equiv> ''!=''"
abbreviation GT :: string where "GT \<equiv> ''>''"
abbreviation GTE :: string where "GTE \<equiv> ''>=''"
abbreviation LT :: string where "LT \<equiv> ''<''"
abbreviation LTE :: string where "LTE \<equiv> ''<=''"

abbreviation SortByTxLT :: string where "SortByTxLT \<equiv> ''tx_lt''"
abbreviation ASC :: string where "ASC \<equiv> ''ASC''"
abbreviation DESC :: string where "DESC \<equiv> ''DESC''"

section \<open>The query engine\<close>

definition ExtractCellPayload ::
  "(bytes \<Rightarrow> 'c res) \<Rightarrow> ('c \<Rightarrow> bytes res) \<Rightarrow> bytes \<Rightarrow> nat \<Rightarrow> bytes res" where
  "ExtractCellPayload FromBOC RestBits logData logIndex =
     bindE (wrapE (''could not parse BOC for log #'' @ show_nat logIndex) (FromBOC logData)) (\<lambda>parsedCell.
     wrapE (''could not extract payload from cell for log #'' @ show_nat logIndex) (RestBits parsedCell))"

text \<open>\<open>bytes.Compare\<close>\<close>

fun bytes_Compare :: "bytes \<Rightarrow> bytes \<Rightarrow> int" where
  "bytes_Compare [] [] = 0"
| "bytes_Compare [] (y # ys) = -1"
| "bytes_Compare (x # xs) [] = 1"
| "bytes_Compare (x # xs) (y # ys) = (if x < y then -1 else if y < x then 1 else bytes_Compare xs ys)"

definition compareBytes :: "bytes \<Rightarrow> bytes \<Rightarrow> string \<Rightarrow> bool res" where
  "compareBytes dataSlice queryValue operator =
     (let comparison = bytes_Compare dataSlice queryValue
      in if operator = EQ then Inr (comparison = 0)
         else if operator = NEQ then Inr (comparison \<noteq> 0)
         else if operator = GT then Inr (comparison > 0)
         else if operator = GTE then Inr (comparison \<ge> 0)
         else if operator = LT then Inr (comparison < 0)
         else if operator = LTE then Inr (comparison \<le> 0)
         else Inl (Err (''unsupported operator: '' @ operator)))"

text \<open>\<open>xs[i:j]\<close>, which panics unless \<open>0 <= i <= j <= len(xs)\<close>.\<close>

definition go_slice :: "'a list \<Rightarrow> int \<Rightarrow> int \<Rightarrow> 'a list res" where
  "go_slice xs i j = (if 0 \<le> i \<and> i \<le> j \<and> j \<le> int (length xs) then Inr (take (nat (j - i)) (drop (nat i) xs))
     else Inl (Panic ''slice bounds out of range''))"

fun passes_from :: "bytes \<Rightarrow> CellQuery list \<Rightarrow> nat \<Rightarrow> nat \<Rightarrow> bool res" where
  "passes_from payload [] j logIndex = Inr True"
| "passes_from payload (query # queries) j logIndex =
     (if (of_nat (length payload) :: u64) < q_Offset query + of_nat (length (q_Value query)) then Inr False
      else let stop = q_Offset query + of_nat (length (q_Value query))
           in if stop > of_nat (length payload) then Inr False
              else bindE (go_slice payload (uint (q_Offset query)) (uint stop)) (\<lambda>dataSlice.
                   bindE (wrapE (''query #'' @ show_nat j @ '' comparison failed for log #'' @ show_nat logIndex)
                            (compareBytes dataSlice (q_Value query) (q_Operator query))) (\<lambda>match.
                   if \<not> match then Inr False else passes_from payload queries (Suc j) logIndex)))"

definition PassesAllQueries :: "bytes \<Rightarrow> CellQuery list \<Rightarrow> nat \<Rightarrow> bool res" where
  "PassesAllQueries payload queries logIndex = passes_from payload queries 0 logIndex"

text \<open>The comparison function handed to \<open>sort.Slice\<close>.\<close>

fun log_less :: "SortBy list \<Rightarrow> 'a Log \<Rightarrow> 'a Log \<Rightarrow> bool" where
  "log_less [] x y = False"
| "log_less (c # cs) x y =
     (let cmp :: int = (if sb_Field c = SortByTxLT then
                          (if log_TxLT x < log_TxLT y then -1 else if log_TxLT x > log_TxLT y then 1 else 0)
                        else 0)
      in if cmp \<noteq> 0 then (if sb_Order c = DESC then cmp > 0 else cmp < 0) else log_less cs x y)"

definition ApplySorting ::
  "(('a Log \<Rightarrow> 'a Log \<Rightarrow> bool) \<Rightarrow> 'a Log list \<Rightarrow> 'a Log list) \<Rightarrow> 'a Log list \<Rightarrow> SortBy list \<Rightarrow> 'a Log list" where
  "ApplySorting sort_Slice logs sortBy = (if sortBy = [] then logs else sort_Slice (log_less sortBy) logs)"

definition ApplyPagination :: "'a Log list \<Rightarrow> 64 word \<Rightarrow> 64 word \<Rightarrow> 'a QueryResult res" where
  "ApplyPagination logs limit offset =
     (let totalCount = length logs
      in if sint offset \<ge> int totalCount then Inr \<lparr>qr_Logs = [], qr_HasMore = False, qr_Total = totalCount\<rparr>
         else let start = sint offset;
                  stop = (if sint limit > 0 \<and> sint (offset + limit) < int totalCount then sint (offset + limit)
                         else int totalCount)
              in bindE (go_slice logs start stop) (\<lambda>page.
                 Inr \<lparr>qr_Logs = page, qr_HasMore = (stop < int totalCount), qr_Total = totalCount\<rparr>))"

section \<open>The store\<close>

text \<open>The state is the slice of logs. \<open>now\<close> is the reading of the clock.\<close>

definition SaveLog :: "int \<Rightarrow> 'a Log \<Rightarrow> 'a Log list \<Rightarrow> 'a Log list" where
  "SaveLog now log logs =
     (let log1 = log\<lparr>log_ReceivedAt := now\<rparr>;
          log2 = (if log_ExpiresAt log1 = None \<and> log_ReceivedAt log1 \<noteq> 0
                  then log1\<lparr>log_ExpiresAt := Some (now + 24 * 3600 * 10 ^ 9)\<rparr> else log1)
      in logs @ [log2])"

definition GetLogs :: "('a \<Rightarrow> string) \<Rightarrow> string \<Rightarrow> 'a Log list \<Rightarrow> 'a Log list" where
  "GetLogs String evtSrcAddress logs = filter (\<lambda>log. String (log_Address log) = evtSrcAddress) logs"

fun matching_from ::
  "('a \<Rightarrow> string) \<Rightarrow> (bytes \<Rightarrow> 'c res) \<Rightarrow> ('c \<Rightarrow> bytes res) \<Rightarrow> string \<Rightarrow> u32 \<Rightarrow> CellQuery list \<Rightarrow>
   'a Log list \<Rightarrow> nat \<Rightarrow> 'a Log list res" where
  "matching_from String FromBOC RestBits evtSrcAddress topic filters [] i = Inr []"
| "matching_from String FromBOC RestBits evtSrcAddress topic filters (log # logs) i =
     (if log_Topic log \<noteq> topic \<or> String (log_Address log) \<noteq> evtSrcAddress
      then matching_from String FromBOC RestBits evtSrcAddress topic filters logs (Suc i)
      else bindE (wrapE (''failed to parse log at index '' @ show_nat i)
                   (ExtractCellPayload FromBOC RestBits (log_Data log) i)) (\<lambda>cellPayload.
           bindE (wrapE (''failed to apply filter to log at index '' @ show_nat i)
                   (PassesAllQueries cellPayload filters i)) (\<lambda>passes.
           bindE (matching_from String FromBOC RestBits evtSrcAddress topic filters logs (Suc i)) (\<lambda>matchingLogs.
           Inr (if passes then log # matchingLogs else matchingLogs)))))"

definition FilteredLogs ::
  "(('a Log \<Rightarrow> 'a Log \<Rightarrow> bool) \<Rightarrow> 'a Log list \<Rightarrow> 'a Log list) \<Rightarrow> ('a \<Rightarrow> string) \<Rightarrow> (bytes \<Rightarrow> 'c res) \<Rightarrow> ('c \<Rightarrow> bytes res) \<Rightarrow>
   string \<Rightarrow> u32 \<Rightarrow> CellQuery list \<Rightarrow> QueryOptions \<Rightarrow> 'a Log list \<Rightarrow> 'a QueryResult res" where
  "FilteredLogs sort_Slice String FromBOC RestBits evtSrcAddress topic filters options logs =
     bindE (matching_from String FromBOC RestBits evtSrcAddress topic filters logs 0) (\<lambda>matchingLogs.
       ApplyPagination (ApplySorting sort_Slice matchingLogs (qo_SortBy options)) (qo_Limit options) (qo_Offset options))"

fun FilteredLogsWithParser ::
  "('a \<Rightarrow> string) \<Rightarrow> (bytes \<Rightarrow> 'c res) \<Rightarrow> string \<Rightarrow> u32 \<Rightarrow> ('c \<Rightarrow> 'e res) \<Rightarrow> ('e \<Rightarrow> bool) option \<Rightarrow>
   'a Log list \<Rightarrow> 'e list res" where
  "FilteredLogsWithParser String FromBOC evtSrcAddress topic parser flt [] = Inr []"
| "FilteredLogsWithParser String FromBOC evtSrcAddress topic parser flt (log # logs) =
     (let rest = FilteredLogsWithParser String FromBOC evtSrcAddress topic parser flt logs
      in if log_Topic log \<noteq> topic \<or> String (log_Address log) \<noteq> evtSrcAddress then rest
         else (case FromBOC (log_Data log) of
                 Inl e \<Rightarrow> if is_panic e then Inl e else rest
               | Inr c \<Rightarrow> (case parser c of
                     Inl e \<Rightarrow> if is_panic e then Inl e else rest
                   | Inr parsedEvent \<Rightarrow>
                      (case flt of
                         Some p \<Rightarrow> if \<not> p parsedEvent then rest else bindE rest (\<lambda>es. Inr (parsedEvent # es))
                       | None \<Rightarrow> bindE rest (\<lambda>es. Inr (parsedEvent # es))))))"

section \<open>Comparisons\<close>

text \<open>What an operator means on numbers.\<close>

definition op_holds :: "string \<Rightarrow> nat \<Rightarrow> nat \<Rightarrow> bool" where
  "op_holds operator a b = (operator = EQ \<and> a = b \<or> operator = NEQ \<and> a \<noteq> b \<or> operator = GT \<and> a > b \<or>
     operator = GTE \<and> a \<ge> b \<or> operator = LT \<and> a < b \<or> operator = LTE \<and> a \<le> b)"

definition supported :: "string \<Rightarrow> bool" where
  "supported operator = (operator \<in> {EQ, NEQ, GT, GTE, LT, LTE})"

text \<open>What a query asks of a payload: the bytes at the offset, read as a big-endian number.\<close>

definition query_holds :: "bytes \<Rightarrow> CellQuery \<Rightarrow> bool" where
  "query_holds payload q = (unat (q_Offset q) + length (q_Value q) \<le> length payload \<and>
     op_holds (q_Operator q) (be_nat (take (length (q_Value q)) (drop (unat (q_Offset q)) payload))) (be_nat (q_Value q)))"

lemma be_nat_Cons: "be_nat (x # xs) = unat x * 256 ^ length xs + be_nat xs"
proof (induction xs rule: rev_induct)
  case Nil
  then show ?case using be_nat_snoc [of "[]" x] by simp
next
  case (snoc b xs)
  then show ?case using be_nat_snoc [of "x # xs" b] by (simp add: algebra_simps)
qed

lemma be_nat_less:
  assumes "x < y" "length xs = length ys"
  shows "be_nat (x # xs) < be_nat (y # ys)"
proof -
  have "unat x + 1 \<le> unat y" using assms(1) by (simp add: word_less_nat_alt)
  then have "(unat x + 1) * 256 ^ length ys \<le> unat y * 256 ^ length ys" by (rule mult_right_mono) simp
  with be_nat_bound [of xs] assms(2) show ?thesis by (simp add: be_nat_Cons algebra_simps)
qed

lemma bytes_Compare_be_nat:
  "length xs = length ys \<Longrightarrow>
     bytes_Compare xs ys = (if be_nat xs < be_nat ys then -1 else if be_nat ys < be_nat xs then 1 else 0)"
proof (induction xs ys rule: bytes_Compare.induct)
  case (4 x xs y ys)
  then have len: "length xs = length ys" by simp
  consider "x < y" | "y < x" | "x = y" using linorder_less_linear [of x y] by blast
  then show ?case
  proof cases
    case 1
    with be_nat_less [OF 1 len] show ?thesis by simp
  next
    case 2
    with be_nat_less [OF 2 len [symmetric]] show ?thesis by simp
  next
    case 3
    with 4 len show ?thesis by (simp add: be_nat_Cons)
  qed
qed auto

lemma compareBytes_numeric:
  "length d = length v \<Longrightarrow> supported operator \<Longrightarrow> compareBytes d v operator = Inr (op_holds operator (be_nat d) (be_nat v))"
  unfolding supported_def
  by (elim insertE emptyE) (auto simp: compareBytes_def op_holds_def bytes_Compare_be_nat)

lemma compareBytes_unsupported:
  "\<not> supported operator \<Longrightarrow> compareBytes d v operator = Inl (Err (''unsupported operator: '' @ operator))"
  by (simp add: compareBytes_def supported_def)

lemma unat_add_nat:
  "unat (a :: u64) + n < 2 ^ 64 \<Longrightarrow> unat (a + of_nat n) = unat a + n"
  by (simp add: unat_word_ariths unat_of_nat)

lemma go_slice_ok:
  "i \<le> j \<Longrightarrow> j \<le> length xs \<Longrightarrow> go_slice xs (int i) (int j) = Inr (take (j - i) (drop i xs))"
  by (simp add: go_slice_def nat_diff_distrib)

text \<open>One query whose offset and length do not overflow.\<close>

lemma passes_from_step:
  assumes "length payload < 2 ^ 64" "unat (q_Offset q) + length (q_Value q) < 2 ^ 64" "supported (q_Operator q)"
  shows "passes_from payload (q # qs) j i = (if query_holds payload q then passes_from payload qs (Suc j) i else Inr False)"
proof -
  let ?stop = "q_Offset q + of_nat (length (q_Value q)) :: u64"
  have end_nat: "unat ?stop = unat (q_Offset q) + length (q_Value q)" by (rule unat_add_nat [OF assms(2)])
  have len: "unat (of_nat (length payload) :: u64) = length payload" using assms(1) by (simp add: unat_of_nat)
  show ?thesis
  proof (cases "unat (q_Offset q) + length (q_Value q) \<le> length payload")
    case False
    with end_nat len have "(of_nat (length payload) :: u64) < ?stop" by (simp add: word_less_nat_alt)
    with False show ?thesis by (simp add: query_holds_def)
  next
    case True
    with end_nat len have le: "\<not> (of_nat (length payload) :: u64) < ?stop" by (simp add: word_less_nat_alt)
    let ?d = "take (length (q_Value q)) (drop (unat (q_Offset q)) payload)"
    have "go_slice payload (uint (q_Offset q)) (uint ?stop) = Inr ?d"
      unfolding uint_nat end_nat using go_slice_ok [of "unat (q_Offset q)" _ payload, OF le_add1 True] by simp
    moreover from True have "length ?d = length (q_Value q)" by simp
    ultimately show ?thesis
      using True le compareBytes_numeric [of ?d "q_Value q", OF _ assms(3)] by (simp add: query_holds_def Let_def)
  qed
qed

lemma passes_from_spec:
  assumes "length payload < 2 ^ 64"
    and "\<forall>q \<in> set qs. unat (q_Offset q) + length (q_Value q) < 2 ^ 64 \<and> supported (q_Operator q)"
  shows "passes_from payload qs j i = Inr (\<forall>q \<in> set qs. query_holds payload q)"
  using assms(2)
proof (induction qs arbitrary: j)
  case (Cons q qs)
  then show ?case using passes_from_step [OF assms(1), of q qs j i] by simp
qed simp

section \<open>Sorting\<close>

text \<open>The order of the first criterion on a known field decides; the others have no effect.\<close>

definition lt_order :: "SortBy list \<Rightarrow> string option" where
  "lt_order sortBy = map_option sb_Order (find (\<lambda>c. sb_Field c = SortByTxLT) sortBy)"

lemma log_less_same: "log_TxLT x = log_TxLT y \<Longrightarrow> \<not> log_less cs x y"
  by (induction cs) (auto simp: Let_def)

lemma log_less_eq:
  "log_less cs x y = (case lt_order cs of None \<Rightarrow> False
     | Some ord \<Rightarrow> if ord = DESC then log_TxLT y < log_TxLT x else log_TxLT x < log_TxLT y)"
proof (induction cs)
  case Nil
  then show ?case by (simp add: lt_order_def)
next
  case (Cons c cs)
  show ?case
  proof (cases "sb_Field c = SortByTxLT")
    case True
    then have "lt_order (c # cs) = Some (sb_Order c)" by (simp add: lt_order_def)
    moreover have "log_TxLT x < log_TxLT y \<or> log_TxLT y < log_TxLT x \<or> log_TxLT x = log_TxLT y" by auto
    ultimately show ?thesis using True log_less_same [of x y cs] by (auto simp: Let_def)
  next
    case False
    then have "lt_order (c # cs) = lt_order cs" by (simp add: lt_order_def)
    with False Cons show ?thesis by simp
  qed
qed

lemma log_less_strict_weak: "strict_weak (log_less cs)"
  by (auto simp: strict_weak_def log_less_eq split: option.splits)

definition lt_sorted :: "SortBy list \<Rightarrow> 'a Log list \<Rightarrow> bool" where
  "lt_sorted sortBy logs = (case lt_order sortBy of None \<Rightarrow> True
     | Some ord \<Rightarrow> sorted (map log_TxLT (if ord = DESC then rev logs else logs)))"

lemma ApplySorting_mset: "go_sort srt \<Longrightarrow> mset (ApplySorting srt logs sortBy) = mset logs"
  by (simp add: ApplySorting_def go_sort.mset_sort)

lemma ApplySorting_sorted:
  assumes "go_sort srt"
  shows "lt_sorted sortBy (ApplySorting srt logs sortBy)"
proof (cases "lt_order sortBy")
  case None
  then show ?thesis by (simp add: lt_sorted_def)
next
  case (Some ord)
  then have "sortBy \<noteq> []" by (auto simp: lt_order_def)
  with go_sort.sorted_sort [OF assms log_less_strict_weak [of sortBy]] Some show ?thesis
    by (auto simp: lt_sorted_def ApplySorting_def log_less_eq sorted_map sorted_wrt_rev not_less)
qed

section \<open>Pagination\<close>

definition page :: "nat \<Rightarrow> nat \<Rightarrow> 'a list \<Rightarrow> 'a list" where
  "page limit offset xs = (if limit = 0 then drop offset xs else take limit (drop offset xs))"

lemma sint_add:
  fixes a b :: "64 word"
  assumes "0 \<le> sint a" "0 < sint b"
  shows "sint (a + b) = (if sint a + sint b < 2 ^ 63 then sint a + sint b else sint a + sint b - 2 ^ 64)"
proof -
  have bounds: "sint a < 2 ^ 63" "sint b < 2 ^ 63" using sint_lt [of a] sint_lt [of b] by simp_all
  have "sint (a + b) = signed_take_bit 63 (sint a + sint b)" by (simp add: sint_word_ariths)
  also have "\<dots> = (sint a + sint b + 2 ^ 63) mod 2 ^ 64 - 2 ^ 63"
    by (simp add: signed_take_bit_eq_take_bit_shift take_bit_eq_mod)
  also have "\<dots> = (if sint a + sint b < 2 ^ 63 then sint a + sint b else sint a + sint b - 2 ^ 64)"
  proof (cases "sint a + sint b < 2 ^ 63")
    case True
    with assms show ?thesis by simp
  next
    case False
    then have "(sint a + sint b + 2 ^ 63) mod 2 ^ 64 = sint a + sint b + 2 ^ 63 - 2 ^ 64"
      using bounds by (subst mod_pos_geq) auto
    with False show ?thesis by simp
  qed
  finally show ?thesis .
qed

lemma go_slice_page:
  assumes "i \<le> length xs"
  shows "go_slice xs (int i) (if 0 < n \<and> i + n < length xs then int (i + n) else int (length xs)) = Inr (page n i xs)"
  using assms by (auto simp: go_slice_def page_def nat_diff_distrib nat_int_add)

lemma ApplyPagination_page:
  assumes "length logs < 2 ^ 63" "0 \<le> sint offset" "sint offset + max 0 (sint limit) < 2 ^ 63"
  shows "ApplyPagination logs limit offset = Inr
    \<lparr>qr_Logs = page (nat (sint limit)) (nat (sint offset)) logs,
     qr_HasMore = (0 < sint limit \<and> sint offset + sint limit < int (length logs)),
     qr_Total = length logs\<rparr>"
proof (cases "sint offset \<ge> int (length logs)")
  case True
  then show ?thesis by (auto simp: ApplyPagination_def page_def)
next
  case False
  let ?i = "nat (sint offset)" and ?n = "nat (sint limit)"
  have add: "0 < sint limit \<Longrightarrow> sint (offset + limit) = sint offset + sint limit"
    using sint_add [OF assms(2)] assms(3) by simp
  have "(if sint limit > 0 \<and> sint (offset + limit) < int (length logs) then sint (offset + limit) else int (length logs)) =
      (if 0 < ?n \<and> ?i + ?n < length logs then int (?i + ?n) else int (length logs))"
    using add assms(2) by auto
  moreover have "sint offset = int ?i" using assms(2) by simp
  ultimately show ?thesis
    using False go_slice_page [of ?i logs ?n] add assms(2) by (auto simp: ApplyPagination_def Let_def)
qed

lemma ApplyPagination_panic:
  assumes "length logs < 2 ^ 63"
  shows "ApplyPagination logs limit offset = Inl (Panic ''slice bounds out of range'') \<longleftrightarrow>
    sint offset < 0 \<or> sint offset < int (length logs) \<and> sint limit > 0 \<and> sint offset + sint limit \<ge> 2 ^ 63"
proof (cases "0 \<le> sint offset \<and> sint offset + max 0 (sint limit) < 2 ^ 63")
  case True
  with ApplyPagination_page [OF assms, of offset limit] show ?thesis by auto
next
  case False
  have lt: "sint offset < 2 ^ 63" using sint_lt [of offset] by simp
  show ?thesis
  proof (cases "sint offset < 0")
    case True
    then show ?thesis by (auto simp: ApplyPagination_def go_slice_def Let_def)
  next
    case nonneg: False
    with False lt have lim: "sint limit > 0" "sint offset + sint limit \<ge> 2 ^ 63" by (auto simp: max_def split: if_splits)
    with nonneg sint_add [of offset limit] sint_lt [of offset] sint_lt [of limit] have "sint (offset + limit) < 0" by simp
    with nonneg lim show ?thesis by (auto simp: ApplyPagination_def go_slice_def Let_def)
  qed
qed

section \<open>Properties\<close>

text \<open>
  A log passes its queries exactly when every query holds of its payload: the bytes at the
  query's offset are all present and, read as a big-endian number, are in the stated relation to
  the query's value. This needs known operators and offsets that do not overflow \<open>uint\<close>.
\<close>

theorem PassesAllQueries_numeric:
  assumes "length payload < 2 ^ 64"
    and "\<forall>q \<in> set queries. unat (q_Offset q) + length (q_Value q) < 2 ^ 64 \<and>
           q_Operator q \<in> {EQ, NEQ, GT, GTE, LT, LTE}"
  shows "PassesAllQueries payload queries logIndex = Inr (\<forall>q \<in> set queries. query_holds payload q)"
  unfolding PassesAllQueries_def using assms by (intro passes_from_spec) (simp_all add: supported_def)

text \<open>
  The length check of a query can be bypassed: if offset plus length wraps around below the
  payload's length, the slice expression that follows panics.
\<close>

theorem PassesAllQueries_wraps:
  assumes "length payload < 2 ^ 64" "length (q_Value q) < 2 ^ 64" "2 ^ 64 \<le> unat (q_Offset q) + length (q_Value q)"
    and "unat (q_Offset q) + length (q_Value q) - 2 ^ 64 \<le> length payload"
  shows "PassesAllQueries payload (q # queries) logIndex = Inl (Panic ''slice bounds out of range'')"
proof -
  let ?stop = "q_Offset q + of_nat (length (q_Value q)) :: u64"
  have bound: "unat (q_Offset q) < 2 ^ 64" using unsigned_less [of "q_Offset q", where ?'a = nat] by simp
  then have "(unat (q_Offset q) + length (q_Value q)) mod 2 ^ 64 = unat (q_Offset q) + length (q_Value q) - 2 ^ 64"
    using assms(2,3) by (subst mod_if) (simp add: mod_if)
  with assms(2) have end_nat: "unat ?stop = unat (q_Offset q) + length (q_Value q) - 2 ^ 64"
    by (simp add: unat_word_ariths unat_of_nat)
  have "unat (of_nat (length payload) :: u64) = length payload" using assms(1) by (simp add: unat_of_nat)
  with assms(4) end_nat have "\<not> (of_nat (length payload) :: u64) < ?stop" by (simp add: word_less_nat_alt)
  moreover have "unat ?stop < unat (q_Offset q)" using end_nat assms(2,3) by simp
  then have "uint ?stop < uint (q_Offset q)" by (simp add: word_less_nat_alt [symmetric] word_less_def)
  ultimately show ?thesis by (simp add: PassesAllQueries_def go_slice_def Let_def)
qed

text \<open>
  C26: What \<open>ApplyPagination\<close> does on every pair of 64-bit arguments. It panics exactly for a
  negative offset and for an in-range offset whose sum with the limit overflows; otherwise it
  returns the page at the offset (all the rest, if the limit is not positive), whether there is
  more, and the number of logs.
\<close>

theorem ApplyPagination_spec:
  assumes "length logs < 2 ^ 63"
  shows "ApplyPagination logs limit offset =
    (if sint offset < 0 \<or> sint offset < int (length logs) \<and> sint limit > 0 \<and> sint offset + sint limit \<ge> 2 ^ 63
     then Inl (Panic ''slice bounds out of range'')
     else Inr \<lparr>qr_Logs = page (nat (sint limit)) (nat (sint offset)) logs,
       qr_HasMore = (0 < sint limit \<and> sint offset + sint limit < int (length logs)), qr_Total = length logs\<rparr>)"
proof (cases "sint offset < 0 \<or> sint offset < int (length logs) \<and> sint limit > 0 \<and> sint offset + sint limit \<ge> 2 ^ 63")
  case True
  with ApplyPagination_panic [OF assms, of limit offset] show ?thesis by simp
next
  case False
  show ?thesis
  proof (cases "sint offset + max 0 (sint limit) < 2 ^ 63")
    case True
    with False ApplyPagination_page [OF assms, of offset limit] show ?thesis by simp
  next
    case over: False
    with False sint_lt [of offset] have "sint offset \<ge> int (length logs)" by (auto simp: max_def split: if_splits)
    with False show ?thesis by (auto simp: ApplyPagination_def page_def)
  qed
qed

text \<open>
  Reading page after page with a positive limit visits every log exactly once, in order: the
  first \<open>m\<close> pages are the first \<open>m * limit\<close> logs, and \<open>HasMore\<close> is false exactly on the pages
  that reach the end.
\<close>

theorem ApplyPagination_pages:
  assumes "0 < n" "length logs < 2 ^ 63" "m * n < 2 ^ 63"
  shows "\<exists>pages. mapE (\<lambda>k. ApplyPagination logs (of_nat n) (of_nat (k * n))) [0..<m] = Inr pages \<and>
    concat (map qr_Logs pages) = take (m * n) logs \<and>
    map qr_HasMore pages = map (\<lambda>k. Suc k * n < length logs) [0..<m]"
proof -
  have sint_nat: "sint (of_nat x :: 64 word) = int x" if "x < 2 ^ 63" for x
    using that by (simp add: signed_of_nat signed_take_bit_int_eq_self)
  let ?p = "\<lambda>k. \<lparr>qr_Logs = take n (drop (k * n) logs), qr_HasMore = (Suc k * n < length logs), qr_Total = length logs\<rparr>"
  have "ApplyPagination logs (of_nat n) (of_nat (k * n)) = Inr (?p k)" if "k \<in> set [0..<m]" for k
  proof -
    from that have "Suc k * n \<le> m * n" by (intro mult_right_mono) auto
    with assms(3) have "k * n + n < 2 ^ 63" by simp
    then have "sint (of_nat (k * n) :: 64 word) = int (k * n)" "sint (of_nat n :: 64 word) = int n"
      "int (k * n) + int n < 2 ^ 63"
      by (auto intro!: sint_nat simp del: of_nat_mult)
    with assms(1) ApplyPagination_page [OF assms(2), of "of_nat (k * n)" "of_nat n"] show ?thesis
      by (simp add: page_def max_def add.commute flip: of_nat_mult of_nat_add)
  qed
  then have "mapE (\<lambda>k. ApplyPagination logs (of_nat n) (of_nat (k * n))) [0..<m] = Inr (map ?p [0..<m])"
    by (rule mapE_all_Inr)
  moreover have "concat (map (\<lambda>k. take n (drop (k * n) logs)) [0..<m]) = take (m * n) logs"
  proof (induction m)
    case (Suc m)
    then show ?case using take_add [of "m * n" n logs] by (simp add: add.commute)
  qed simp
  ultimately show ?thesis by (simp add: comp_def)
qed

lemma matching_from_filter:
  assumes "\<forall>log \<in> set logs. log_Topic log = topic \<longrightarrow> String (log_Address log) = a \<longrightarrow>
      (\<exists>c. FromBOC (log_Data log) = Inr c \<and> RestBits c = Inr (payload log)) \<and> length (payload log) < 2 ^ 64"
    and "\<forall>q \<in> set queries. unat (q_Offset q) + length (q_Value q) < 2 ^ 64 \<and> supported (q_Operator q)"
  shows "matching_from String FromBOC RestBits a topic queries logs i = Inr (filter (\<lambda>log. log_Topic log = topic \<and>
      String (log_Address log) = a \<and> (\<forall>q \<in> set queries. query_holds (payload log) q)) logs)"
  using assms(1)
proof (induction logs arbitrary: i)
  case (Cons log logs)
  then have IH: "matching_from String FromBOC RestBits a topic queries logs j = Inr (filter (\<lambda>log. log_Topic log = topic \<and>
      String (log_Address log) = a \<and> (\<forall>q \<in> set queries. query_holds (payload log) q)) logs)" for j by simp
  show ?case
  proof (cases "log_Topic log = topic \<and> String (log_Address log) = a")
    case False
    then show ?thesis by (auto simp: IH)
  next
    case True
    with Cons.prems obtain c where "FromBOC (log_Data log) = Inr c" "RestBits c = Inr (payload log)"
      "length (payload log) < 2 ^ 64" by auto
    with True passes_from_spec [OF _ assms(2), of "payload log"] show ?thesis
      by (simp add: IH ExtractCellPayload_def PassesAllQueries_def)
  qed
qed simp

lemma FilteredLogs_page:
  assumes "go_sort sort_Slice" "length logs < 2 ^ 63"
    and "\<forall>log \<in> set logs. log_Topic log = topic \<longrightarrow> String (log_Address log) = a \<longrightarrow>
      (\<exists>c. FromBOC (log_Data log) = Inr c \<and> RestBits c = Inr (payload log)) \<and> length (payload log) < 2 ^ 64"
    and "\<forall>q \<in> set queries. unat (q_Offset q) + length (q_Value q) < 2 ^ 64 \<and>
           q_Operator q \<in> {EQ, NEQ, GT, GTE, LT, LTE}"
    and "0 \<le> sint (qo_Offset options)" "sint (qo_Offset options) + max 0 (sint (qo_Limit options)) < 2 ^ 63"
  shows "\<exists>found. mset found = mset (filter (\<lambda>log. log_Topic log = topic \<and> String (log_Address log) = a \<and>
        (\<forall>q \<in> set queries. query_holds (payload log) q)) logs) \<and>
    lt_sorted (qo_SortBy options) found \<and>
    FilteredLogs sort_Slice String FromBOC RestBits a topic queries options logs = Inr
      \<lparr>qr_Logs = page (nat (sint (qo_Limit options))) (nat (sint (qo_Offset options))) found,
       qr_HasMore = (0 < sint (qo_Limit options) \<and> sint (qo_Offset options) + sint (qo_Limit options) < int (length found)),
       qr_Total = length found\<rparr>"
proof -
  let ?found = "filter (\<lambda>log. log_Topic log = topic \<and> String (log_Address log) = a \<and>
        (\<forall>q \<in> set queries. query_holds (payload log) q)) logs"
  let ?sorted = "ApplySorting sort_Slice ?found (qo_SortBy options)"
  have mset: "mset ?sorted = mset ?found" by (rule ApplySorting_mset [OF assms(1)])
  then have "length ?sorted = length ?found" by (rule mset_eq_length)
  with assms(2) have len: "length ?sorted < 2 ^ 63" 
    using length_filter_le [of "\<lambda>log. log_Topic log = topic \<and> String (log_Address log) = a \<and>
        (\<forall>q \<in> set queries. query_holds (payload log) q)" logs] by linarith
  have found: "matching_from String FromBOC RestBits a topic queries logs 0 = Inr ?found"
    by (rule matching_from_filter [OF assms(3)]) (use assms(4) in \<open>unfold supported_def\<close>)
  have "FilteredLogs sort_Slice String FromBOC RestBits a topic queries options logs = Inr
      \<lparr>qr_Logs = page (nat (sint (qo_Limit options))) (nat (sint (qo_Offset options))) ?sorted,
       qr_HasMore = (0 < sint (qo_Limit options) \<and> sint (qo_Offset options) + sint (qo_Limit options) < int (length ?sorted)),
       qr_Total = length ?sorted\<rparr>"
    unfolding FilteredLogs_def found bindE_simps by (rule ApplyPagination_page [OF len assms(5,6)])
  with mset ApplySorting_sorted [OF assms(1)] show ?thesis by blast
qed

text \<open>
  C25: \<open>FilteredLogs\<close> answers its specification. When the candidate logs parse, the operators are
  known and nothing overflows, the result is a page of an arrangement of exactly the stored logs
  with the address and topic whose payload satisfies every query, sorted by transaction time as
  asked; \<open>Total\<close> counts them all.
\<close>

theorem FilteredLogs_spec:
  assumes "go_sort sort_Slice" "length logs < 2 ^ 63"
    and "\<forall>log \<in> set logs. log_Topic log = topic \<longrightarrow> String (log_Address log) = a \<longrightarrow>
      (\<exists>c. FromBOC (log_Data log) = Inr c \<and> RestBits c = Inr (payload log)) \<and> length (payload log) < 2 ^ 64"
    and "\<forall>q \<in> set queries. unat (q_Offset q) + length (q_Value q) < 2 ^ 64 \<and>
           q_Operator q \<in> {EQ, NEQ, GT, GTE, LT, LTE}"
    and "0 \<le> sint (qo_Offset options)" "sint (qo_Offset options) + max 0 (sint (qo_Limit options)) < 2 ^ 63"
  shows "\<exists>found. mset found = mset (filter (\<lambda>log. log_Topic log = topic \<and> String (log_Address log) = a \<and>
        (\<forall>q \<in> set queries. query_holds (payload log) q)) logs) \<and>
    lt_sorted (qo_SortBy options) found \<and>
    FilteredLogs sort_Slice String FromBOC RestBits a topic queries options logs = Inr
      \<lparr>qr_Logs = page (nat (sint (qo_Limit options))) (nat (sint (qo_Offset options))) found,
       qr_HasMore = (0 < sint (qo_Limit options) \<and> sint (qo_Offset options) + sint (qo_Limit options) < int (length found)),
       qr_Total = length found\<rparr>"
  by (rule FilteredLogs_page [OF assms])

text \<open>
  \<open>FilteredLogsWithParser\<close> never fails on bad data: as long as the decoder and the parser
  report errors instead of panicking, it returns the parsed events, in order of arrival, of the
  candidate logs that decode, parse and satisfy the filter, and skips the others.
\<close>

theorem FilteredLogsWithParser_skips:
  assumes "\<forall>log \<in> set logs. \<forall>e. FromBOC (log_Data log) = Inl e \<longrightarrow> \<not> is_panic e" "\<forall>c e. parser c = Inl e \<longrightarrow> \<not> is_panic e"
  shows "FilteredLogsWithParser String FromBOC a topic parser flt logs = Inr (concat (map (\<lambda>log.
     if log_Topic log = topic \<and> String (log_Address log) = a then
       (case bindE (FromBOC (log_Data log)) parser of
          Inl e \<Rightarrow> []
        | Inr event \<Rightarrow> if (case flt of None \<Rightarrow> True | Some p \<Rightarrow> p event) then [event] else [])
     else []) logs))"
  using assms(1)
proof (induction logs)
  case (Cons log logs)
  with assms(2) show ?case by (auto simp: Let_def split: sum.splits option.splits)
qed simp

section \<open>Concrete queries\<close>

definition sample_log :: "nat \<Rightarrow> u64 \<Rightarrow> u32 \<Rightarrow> bytes \<Rightarrow> nat Log" where
  "sample_log a lt topic payload = \<lparr>log_ID = 0, log_FilterID = 1, log_Address = a, log_TxHash = [], log_TxLT = lt, log_Topic = topic,
     log_Data = payload, log_CreatedAt = 0, log_ReceivedAt = 1, log_ExpiresAt = None, log_Error = None\<rparr>"

definition sample_logs :: "nat Log list" where
  "sample_logs = [sample_log 7 30 5 [0, 1, 44], sample_log 7 20 5 [0, 0, 9], sample_log 7 10 5 [0, 2, 0], sample_log 8 5 5 [0, 9, 9]]"

definition sample_query :: CellQuery where
  "sample_query = \<lparr>q_Offset = 1, q_Operator = GTE, q_Value = [1, 0]\<rparr>"

theorem PassesAllQueries_numeric_witness:
  "PassesAllQueries [0, 1, 44] [sample_query] 0 = Inr True \<and> PassesAllQueries [0, 0, 9] [sample_query] 1 = Inr False"
  using PassesAllQueries_numeric [of "[0, 1, 44]" "[sample_query]" 0] PassesAllQueries_numeric [of "[0, 0, 9]" "[sample_query]" 1]
  by (simp add: sample_query_def query_holds_def op_holds_def be_nat_def)

theorem PassesAllQueries_wraps_witness:
  "PassesAllQueries [1, 2, 3] [\<lparr>q_Offset = 18446744073709551615, q_Operator = EQ, q_Value = [1, 2]\<rparr>] 0 = Inl (Panic ''slice bounds out of range'')"
  using PassesAllQueries_wraps [of "[1, 2, 3]" "\<lparr>q_Offset = 18446744073709551615, q_Operator = EQ, q_Value = [1, 2]\<rparr>" "[]" 0]
  by simp

theorem ApplyPagination_spec_witness:
  "ApplyPagination sample_logs 3 1 = Inr \<lparr>qr_Logs = tl sample_logs, qr_HasMore = False, qr_Total = 4\<rparr> \<and>
   ApplyPagination sample_logs 3 (- 1) = Inl (Panic ''slice bounds out of range'') \<and>
   ApplyPagination sample_logs 9223372036854775807 1 = Inl (Panic ''slice bounds out of range'')"
  using ApplyPagination_spec [of sample_logs 3 1] ApplyPagination_spec [of sample_logs 3 "- 1"]
    ApplyPagination_spec [of sample_logs 9223372036854775807 1]
  by (simp add: sample_logs_def page_def)

theorem ApplyPagination_pages_witness:
  "\<exists>pages. mapE (\<lambda>k. ApplyPagination sample_logs (of_nat 3) (of_nat (k * 3))) [0..<2] = Inr pages \<and>
    concat (map qr_Logs pages) = sample_logs \<and> map qr_HasMore pages = [True, False]"
  using ApplyPagination_pages [of 3 sample_logs 2] by (simp add: sample_logs_def upt_rec)

theorem FilteredLogs_spec_witness:
  "\<exists>found. mset found = {#sample_log 7 30 5 [0, 1, 44], sample_log 7 10 5 [0, 2, 0]#} \<and>
     sorted (map log_TxLT found) \<and>
     FilteredLogs sort_by show_nat Inr Inr (show_nat 7) 5 [sample_query]
       \<lparr>qo_Limit = 1, qo_Offset = 0, qo_SortBy = [\<lparr>sb_Field = SortByTxLT, sb_Order = ASC\<rparr>]\<rparr> sample_logs =
     Inr \<lparr>qr_Logs = take 1 found, qr_HasMore = True, qr_Total = 2\<rparr>"
proof -
  let ?opts = "\<lparr>qo_Limit = 1, qo_Offset = 0, qo_SortBy = [\<lparr>sb_Field = SortByTxLT, sb_Order = ASC\<rparr>]\<rparr>"
  have found: "filter (\<lambda>log. log_Topic log = 5 \<and> show_nat (log_Address log) = show_nat 7 \<and>
      (\<forall>q \<in> set [sample_query]. query_holds (log_Data log) q)) sample_logs = [sample_log 7 30 5 [0, 1, 44], sample_log 7 10 5 [0, 2, 0]]"
    by (simp add: sample_logs_def sample_log_def sample_query_def query_holds_def op_holds_def be_nat_def show_nat.simps)
  have "\<forall>log \<in> set sample_logs. log_Topic log = 5 \<longrightarrow> show_nat (log_Address log) = show_nat 7 \<longrightarrow>
      (\<exists>c. Inr (log_Data log) = (Inr c :: bytes res) \<and> Inr c = (Inr (log_Data log) :: bytes res)) \<and> length (log_Data log) < 2 ^ 64"
    by (simp add: sample_logs_def sample_log_def)
  from FilteredLogs_spec [OF isort.go_sort_axioms _ this, of "[sample_query]" ?opts] obtain xs where
    xs: "mset xs = mset [sample_log 7 30 5 [0, 1, 44], sample_log 7 10 5 [0, 2, 0]]" "lt_sorted (qo_SortBy ?opts) xs"
      "FilteredLogs sort_by show_nat Inr Inr (show_nat 7) 5 [sample_query] ?opts sample_logs = Inr
        \<lparr>qr_Logs = page 1 0 xs, qr_HasMore = (1 < length xs), qr_Total = length xs\<rparr>"
    unfolding found by (auto simp: sample_query_def sample_logs_def)
  moreover from xs(1) have "length xs = 2" using mset_eq_length by fastforce
  ultimately show ?thesis by (intro exI [of _ xs]) (simp add: lt_sorted_def lt_order_def page_def)
qed

theorem FilteredLogsWithParser_skips_witness:
  "FilteredLogsWithParser show_nat (\<lambda>d. if d = [0, 0, 9] then Inl (Err ''bad'') else Inr d) (show_nat 7) 5
     (\<lambda>c. if length c = 3 then Inr (be_nat c) else Inl (Err ''short'')) (Some even) sample_logs = Inr [300, 512]"
  by (subst FilteredLogsWithParser_skips) (auto simp: sample_logs_def sample_log_def be_nat_def show_nat.simps split: if_splits)

end
