(* ===== verification/Exit_Codes.thy ===== *)
theory Exit_Codes
  imports Prelude
begin

text \<open>
  TVM exit codes (\<open>pkg/ton/tvm/exit_codes.go\<close>): the named codes, the deployment check and
  the human-readable description. An \<open>ExitCode\<close> is a Go \<open>int32\<close>.
\<close>

type_synonym ExitCode = i32

section \<open>Named exit codes\<close>

abbreviation ExitCodeSuccess :: ExitCode where "ExitCodeSuccess \<equiv> 0"
abbreviation ExitCodeSuccessVariant :: ExitCode where "ExitCodeSuccessVariant \<equiv> 1"
abbreviation ExitCodeStackUnderflow :: ExitCode where "ExitCodeStackUnderflow \<equiv> 2"
abbreviation ExitCodeStackOverflow :: ExitCode where "ExitCodeStackOverflow \<equiv> 3"
abbreviation ExitCodeIntegerOverflow :: ExitCode where "ExitCodeIntegerOverflow \<equiv> 4"
abbreviation ExitCodeIntegerOutOfExpectedRange :: ExitCode where "ExitCodeIntegerOutOfExpectedRange \<equiv> 5"
abbreviation ExitCodeInvalidOpcode :: ExitCode where "ExitCodeInvalidOpcode \<equiv> 6"
abbreviation ExitCodeTypeCheckError :: ExitCode where "ExitCodeTypeCheckError \<equiv> 7"
abbreviation ExitCodeCellOverflow :: ExitCode where "ExitCodeCellOverflow \<equiv> 8"
abbreviation ExitCodeCellUnderflow :: ExitCode where "ExitCodeCellUnderflow \<equiv> 9"
abbreviation ExitCodeDictionaryError :: ExitCode where "ExitCodeDictionaryError \<equiv> 10"
abbreviation ExitCodeUnknownError :: ExitCode where "ExitCodeUnknownError \<equiv> 11"
abbreviation ExitCodeFatalError :: ExitCode where "ExitCodeFatalError \<equiv> 12"
abbreviation ExitCodeOutOfGasError :: ExitCode where "ExitCodeOutOfGasError \<equiv> 13"
abbreviation ExitCodeOutOfGasErrorVariant :: ExitCode where "ExitCodeOutOfGasErrorVariant \<equiv> - 14"
abbreviation ExitCodeVirtualizationError :: ExitCode where "ExitCodeVirtualizationError \<equiv> 14"
abbreviation ExitCodeActionListIsInvalid :: ExitCode where "ExitCodeActionListIsInvalid \<equiv> 32"
abbreviation ExitCodeActionListIsTooLong :: ExitCode where "ExitCodeActionListIsTooLong \<equiv> 33"
abbreviation ExitCodeActionIsInvalidOrNotSupported :: ExitCode where "ExitCodeActionIsInvalidOrNotSupported \<equiv> 34"
abbreviation ExitCodeInvalidSourceAddressInOutboundMessage :: ExitCode where "ExitCodeInvalidSourceAddressInOutboundMessage \<equiv> 35"
abbreviation ExitCodeInvalidDestinationAddressInOutboundMessage :: ExitCode where "ExitCodeInvalidDestinationAddressInOutboundMessage \<equiv> 36"
abbreviation ExitCodeNotEnoughToncoin :: ExitCode where "ExitCodeNotEnoughToncoin \<equiv> 37"
abbreviation ExitCodeNotEnoughExtraCurrencies :: ExitCode where "ExitCodeNotEnoughExtraCurrencies \<equiv> 38"
abbreviation ExitCodeOutboundMessageDoesNotFitIntoACellAfterRewriting :: ExitCode where "ExitCodeOutboundMessageDoesNotFitIntoACellAfterRewriting \<equiv> 39"
abbreviation ExitCodeCannotProcessAMessage :: ExitCode where "ExitCodeCannotProcessAMessage \<equiv> 40"
abbreviation ExitCodeLibraryReferenceIsNull :: ExitCode where "ExitCodeLibraryReferenceIsNull \<equiv> 41"
abbreviation ExitCodeLibraryChangeActionError :: ExitCode where "ExitCodeLibraryChangeActionError \<equiv> 42"
abbreviation ExitCodeExceededMaximumNumberOfCellsInTheLibraryOrTheMaximumDepthOfTheMerkleTree :: ExitCode where "ExitCodeExceededMaximumNumberOfCellsInTheLibraryOrTheMaximumDepthOfTheMerkleTree \<equiv> 43"
abbreviation ExitCodeAccountStateSizeExceededLimits :: ExitCode where "ExitCodeAccountStateSizeExceededLimits \<equiv> 50"
abbreviation ExitCodeTolkUnmatchedOpcode :: ExitCode where "ExitCodeTolkUnmatchedOpcode \<equiv> 63"
abbreviation ExitCodeNullReferenceException :: ExitCode where "ExitCodeNullReferenceException \<equiv> 128"
abbreviation ExitCodeInvalidSerializationPrefix :: ExitCode where "ExitCodeInvalidSerializationPrefix \<equiv> 129"
abbreviation ExitCodeTactInvalidIncomingMessage :: ExitCode where "ExitCodeTactInvalidIncomingMessage \<equiv> 130"
abbreviation ExitCodeTactConstraintsError :: ExitCode where "ExitCodeTactConstraintsError \<equiv> 131"
abbreviation ExitCodeTactAccessDenied :: ExitCode where "ExitCodeTactAccessDenied \<equiv> 132"
abbreviation ExitCodeTactContractStopped :: ExitCode where "ExitCodeTactContractStopped \<equiv> 133"
abbreviation ExitCodeTactInvalidArgument :: ExitCode where "ExitCodeTactInvalidArgument \<equiv> 134"
abbreviation ExitCodeTactCodeOfAContractWasNotFound :: ExitCode where "ExitCodeTactCodeOfAContractWasNotFound \<equiv> 135"
abbreviation ExitCodeTactInvalidStandardAddress :: ExitCode where "ExitCodeTactInvalidStandardAddress \<equiv> 136"
abbreviation ExitCodeTactNotABasechainAddress :: ExitCode where "ExitCodeTactNotABasechainAddress \<equiv> 138"

section \<open>Operations\<close>

definition IsSuccessfulDeployment :: "ExitCode \<Rightarrow> bool" where
  "IsSuccessfulDeployment c =
     (c = ExitCodeSuccess \<or> c = ExitCodeTolkUnmatchedOpcode \<or> c = ExitCodeTactInvalidIncomingMessage)"

text \<open>The cases of the \<open>switch\<close> in \<open>Describe\<close>, in source order.\<close>

definition describe_cases :: "(ExitCode \<times> string) list" where
  "describe_cases =
    [(ExitCodeSuccess, ''Success''),
     (ExitCodeStackUnderflow, ''Stack underflow''),
     (ExitCodeStackOverflow, ''Stack overflow''),
     (ExitCodeIntegerOverflow, ''Integer overflow''),
     (ExitCodeIntegerOutOfExpectedRange, ''Integer out of expected range''),
     (ExitCodeInvalidOpcode, ''Invalid opcode''),
     (ExitCodeTypeCheckError, ''Type check error''),
     (ExitCodeCellOverflow, ''Cell overflow''),
     (ExitCodeCellUnderflow, ''Cell underflow''),
     (ExitCodeDictionaryError, ''Dictionary error''),
     (ExitCodeUnknownError, ([] @ [CHR 0x27] @ ''Unknown'' @ [CHR 0x27] @ '' error'')),
     (ExitCodeFatalError, ''Fatal error''),
     (ExitCodeOutOfGasError, ''Out of gas error''),
     (ExitCodeVirtualizationError, ''Virtualization error''),
     (ExitCodeActionListIsInvalid, ''Action list is invalid''),
     (ExitCodeActionListIsTooLong, ''Action list is too long''),
     (ExitCodeActionIsInvalidOrNotSupported, ''Action is invalid or not supported''),
     (ExitCodeInvalidSourceAddressInOutboundMessage, ''Invalid source address in outbound message''),
     (ExitCodeInvalidDestinationAddressInOutboundMessage, ''Invalid destination address in outbound message''),
     (ExitCodeNotEnoughToncoin, ''Not enough Toncoin''),
     (ExitCodeNotEnoughExtraCurrencies, ''Not enough extra currencies''),
     (ExitCodeOutboundMessageDoesNotFitIntoACellAfterRewriting, ''Outbound message does not fit into a cell after rewriting''),
     (ExitCodeCannotProcessAMessage, ''Cannot process a message''),
     (ExitCodeLibraryReferenceIsNull, ''Library reference is null''),
     (ExitCodeLibraryChangeActionError, ''Library change action error''),
     (ExitCodeExceededMaximumNumberOfCellsInTheLibraryOrTheMaximumDepthOfTheMerkleTree, ''Exceeded maximum number of cells in the library or the maximum depth of the Merkle tree''),
     (ExitCodeAccountStateSizeExceededLimits, ''Account state size exceeded limits''),
     (ExitCodeNullReferenceException, ''Null reference exception''),
     (ExitCodeInvalidSerializationPrefix, ''Invalid serialization prefix''),
     (ExitCodeTactInvalidIncomingMessage, ''Invalid incoming message''),
     (ExitCodeTactConstraintsError, ''Constraints error''),
     (ExitCodeTactAccessDenied, ''Access denied''),
     (ExitCodeTactContractStopped, ''Contract stopped''),
     (ExitCodeTactInvalidArgument, ''Invalid argument''),
     (ExitCodeTactCodeOfAContractWasNotFound, ''Code of a contract was not found''),
     (ExitCodeTactInvalidStandardAddress, ''Invalid standard address''),
     (ExitCodeTactNotABasechainAddress, ''Not a basechain address'')]"

definition Describe :: "ExitCode \<Rightarrow> string" where
  "Describe c = (case map_of describe_cases c of
       Some s \<Rightarrow> s
     | None \<Rightarrow> ''Non-standard exit code: '' @ show_int (sint c))"

section \<open>Properties\<close>

lemma distinct_describe_cases: "distinct (map snd describe_cases)"
  unfolding describe_cases_def by simp

lemma describe_cases_prefix:
  "\<forall>s \<in> set (map snd describe_cases). take 3 s \<noteq> ''Non''"
  unfolding describe_cases_def by simp

lemma describe_named_inj:
  assumes "map_of describe_cases c = Some s" "map_of describe_cases d = Some s"
  shows "c = d"
proof -
  from assms have "(c, s) \<in> set describe_cases" "(d, s) \<in> set describe_cases"
    by (auto dest: map_of_SomeD)
  with distinct_describe_cases show ?thesis
    by (metis distinct_map inj_onD prod.inject snd_conv)
qed

lemma describe_named_not_default:
  assumes "map_of describe_cases c = Some s"
  shows "s \<noteq> ''Non-standard exit code: '' @ r"
proof
  assume "s = ''Non-standard exit code: '' @ r"
  then have "take 3 s = ''Non''" by simp
  moreover from assms have "s \<in> set (map snd describe_cases)"
    by (force dest: map_of_SomeD)
  ultimately show False using describe_cases_prefix by blast
qed

lemma Describe_eqD:
  assumes "Describe c = Describe d"
  shows "c = d"
proof (cases "map_of describe_cases c")
  case None
  show ?thesis
  proof (cases "map_of describe_cases d")
    case None
    with \<open>map_of describe_cases c = None\<close> assms have "show_int (sint c) = show_int (sint d)"
      by (simp add: Describe_def)
    then have "sint c = sint d" by (rule show_int_inj)
    then show ?thesis by (rule signed_word_eqI)
  next
    case (Some s)
    then show ?thesis
      using assms None describe_named_not_default [OF Some, of "show_int (sint c)"] by (simp add: Describe_def)
  qed
next
  case (Some s)
  show ?thesis
  proof (cases "map_of describe_cases d")
    case None
    then show ?thesis
      using assms Some describe_named_not_default [OF Some, of "show_int (sint d)"] by (simp add: Describe_def)
  next
    case (Some s')
    with \<open>map_of describe_cases c = Some s\<close> assms show ?thesis
      by (simp add: Describe_def describe_named_inj)
  qed
qed

text \<open>
  Descriptions identify exit codes: two codes with the same description are equal, the
  numeric fallback included, so a log line that prints \<open>Describe()\<close> determines the code.
\<close>

theorem Describe_inj: "inj Describe"
  by (rule injI) (rule Describe_eqD)

end
