(* ===== verification/Trace.thy ===== *)
theory Trace
  imports Exit_Codes "HOL-Library.Sublist"
begin

text \<open>
  Message traces (\<open>pkg/ton/tracetracking/message.go\<close>). A transaction is mapped to a
  \<open>ReceivedMessage\<close>, its outgoing messages are followed until each has been received, and
  the resulting tree is summarised by its status, exit code and fees.

  The TON data types the code reads (\<open>tlb.Transaction\<close>, \<open>tlb.Message\<close> and its phases) come
  from the tonutils-go package: they are records of exactly the fields this code reads,
  over arbitrary types \<open>'a\<close> of addresses and \<open>'c\<close> of cells. Address equality
  (\<open>Address.Equals\<close>) and the transactions an account receives
  (\<open>SubscribeOnTransactions\<close>) are arguments of the definitions that use them.

  A received message owns its received children, so the pointer structure is a tree and
  the queue of \<open>WaitForTrace\<close> holds positions in it, as lists of child indices.
\<close>

section \<open>TON data read by the code\<close>

record ('a, 'c) InternalMessage =
  im_SrcAddr :: 'a
  im_DstAddr :: 'a
  im_Amount :: int
  im_FwdFee :: int
  im_CreatedLT :: u64
  im_Bounced :: bool
  im_Body :: "'c option"

record ('a, 'c) ExternalMessageIn =
  ei_SrcAddr :: 'a
  ei_DstAddr :: 'a
  ei_ImportFee :: int
  ei_Body :: "'c option"

record ('a, 'c) ExternalMessageOut =
  eo_SrcAddr :: 'a
  eo_DstAddr :: "'a option"
  eo_CreatedAt :: u32
  eo_CreatedLT :: u64
  eo_Body :: "'c option"

datatype ('a, 'c) Message =
    MsgInternal "('a, 'c) InternalMessage"
  | MsgExternalIn "('a, 'c) ExternalMessageIn"
  | MsgExternalOut "('a, 'c) ExternalMessageOut"

datatype BouncePhase = BouncePhaseOk | BouncePhaseOther

datatype ComputePhase =
    ComputePhaseVM (cp_Success: bool) (cp_ExitCode: ExitCode) (cp_GasFees: int)
  | ComputePhaseSkipped

record TxDescriptionOrdinary =
  d_BouncePhase :: "BouncePhase option"
  d_ComputePhase :: ComputePhase
  d_StoragePhase :: "int option" \<comment> \<open>StorageFeesCollected, if there was a storage phase\<close>
  d_ActionPhase :: "int option option" \<comment> \<open>TotalActionFees, if there was an action phase and it has them\<close>

datatype TxDescription = DescOrdinary TxDescriptionOrdinary | DescOther

record ('a, 'c) Transaction =
  tx_Hash :: bytes
  tx_LT :: u64
  tx_PrevTxLT :: u64
  tx_PrevTxHash :: bytes
  tx_In :: "('a, 'c) Message option"
  tx_Out :: "('a, 'c) Message list res option" \<comment> \<open>IO.Out, nil or with the result of ToSlice()\<close>
  tx_TotalFees :: int
  tx_Description :: TxDescription

section \<open>Messages\<close>

datatype MsgStatus = NotFound | Received | Cascading | Finalized

record ('a, 'c) SentMessage =
  sm_InternalMsg :: "('a, 'c) InternalMessage"
  sm_Amount :: int
  sm_LamportTime :: u64
  sm_FwdFee :: int

record 'c OutgoingExternalMessage =
  oe_CreatedAt :: u32
  oe_LT :: u64
  oe_Body :: "'c option"

record ('a, 'c) rm_info =
  rm_InternalMsg :: "('a, 'c) InternalMessage option"
  rm_Amount :: int
  rm_ExternalMsg :: "('a, 'c) ExternalMessageIn option"
  rm_LamportTime :: u64
  rm_ImportFee :: int
  rm_FwdFee :: int
  rm_StorageFeeCharged :: int
  rm_MsgFeesChargedToSender :: int
  rm_TotalActionFees :: int
  rm_GasFee :: int
  rm_MagicFee :: int
  rm_EmittedBouncedMessage :: bool
  rm_Success :: bool
  rm_ExitCode :: ExitCode
  rm_OutgoingExternalMessages :: "'c OutgoingExternalMessage list"

text \<open>
  The struct \<open>ReceivedMessage\<close>: its plain fields, \<open>OutgoingInternalSentMessages\<close> and
  \<open>OutgoingInternalReceivedMessages\<close> (pointers, which may be nil).
\<close>

datatype ('a, 'c) ReceivedMessage =
  RM (info: "('a, 'c) rm_info")
     (sents: "('a, 'c) SentMessage list")
     (recvs: "('a, 'c) ReceivedMessage option list")

definition NewSentMessage :: "('a, 'c) InternalMessage \<Rightarrow> ('a, 'c) SentMessage" where
  "NewSentMessage m =
     \<lparr>sm_InternalMsg = m, sm_Amount = im_Amount m, sm_LamportTime = im_CreatedLT m, sm_FwdFee = im_FwdFee m\<rparr>"

definition Status :: "('a, 'c) ReceivedMessage \<Rightarrow> MsgStatus" where
  "Status m = (if sents m = [] then Finalized else if recvs m \<noteq> [] then Cascading else Received)"

section \<open>Mapping a transaction to a received message\<close>

text \<open>\<open>LoadStringSnake\<close> is the cell library's reader of chained strings.\<close>

definition AsString :: "('c \<Rightarrow> string res) \<Rightarrow> 'c OutgoingExternalMessage \<Rightarrow> string res" where
  "AsString LoadStringSnake e = (case oe_Body e of
       None \<Rightarrow> Inl (Panic ''nil pointer dereference'')
     | Some body \<Rightarrow> wrapE ''failed to parse event body'' (LoadStringSnake body))"

definition AppendEvent :: "('a, 'c) rm_info \<Rightarrow> ('a, 'c) ExternalMessageOut \<Rightarrow> ('a, 'c) rm_info" where
  "AppendEvent i m = i\<lparr>rm_OutgoingExternalMessages := rm_OutgoingExternalMessages i @
     [\<lparr>oe_CreatedAt = eo_CreatedAt m, oe_LT = eo_CreatedLT m, oe_Body = eo_Body m\<rparr>]\<rparr>"

definition AppendSentMessage ::
  "('a, 'c) rm_info \<times> ('a, 'c) SentMessage list \<Rightarrow> ('a, 'c) InternalMessage \<Rightarrow>
   ('a, 'c) rm_info \<times> ('a, 'c) SentMessage list" where
  "AppendSentMessage st m = (case st of (i, ss) \<Rightarrow>
     (i\<lparr>rm_MsgFeesChargedToSender := rm_MsgFeesChargedToSender i + im_FwdFee m\<rparr>, ss @ [NewSentMessage m]))"

fun mapOutgoingMessages ::
  "('a, 'c) rm_info \<times> ('a, 'c) SentMessage list \<Rightarrow> ('a, 'c) Message list \<Rightarrow>
   (('a, 'c) rm_info \<times> ('a, 'c) SentMessage list) res" where
  "mapOutgoingMessages st [] = Inr st"
| "mapOutgoingMessages st (MsgInternal m # ms) = mapOutgoingMessages (AppendSentMessage st m) ms"
| "mapOutgoingMessages (i, ss) (MsgExternalOut m # ms) = mapOutgoingMessages (AppendEvent i m, ss) ms"
| "mapOutgoingMessages st (MsgExternalIn m # ms) =
     Inl (Panic ''ReceivedMessage should not contain external in messages, only external out messages'')"

text \<open>The receive-side fees, in the order in which the code subtracts them from \<open>MagicFee\<close>.\<close>

definition apply_description :: "TxDescription \<Rightarrow> ('a, 'c) rm_info \<Rightarrow> ('a, 'c) rm_info" where
  "apply_description d i = (case d of
       DescOther \<Rightarrow> i
     | DescOrdinary dsc \<Rightarrow>
        let i1 = (if d_BouncePhase dsc = Some BouncePhaseOk then i\<lparr>rm_EmittedBouncedMessage := True\<rparr> else i);
            i2 = (case d_ComputePhase dsc of
                    ComputePhaseVM ok code gas \<Rightarrow>
                      i1\<lparr>rm_Success := ok, rm_ExitCode := code, rm_GasFee := gas, rm_MagicFee := rm_MagicFee i1 - gas\<rparr>
                  | ComputePhaseSkipped \<Rightarrow> i1);
            i3 = (case d_StoragePhase dsc of
                    Some fee \<Rightarrow> i2\<lparr>rm_StorageFeeCharged := fee, rm_MagicFee := rm_MagicFee i2 - fee\<rparr>
                  | None \<Rightarrow> i2)
        in (case d_ActionPhase dsc of
              Some (Some fee) \<Rightarrow> i3\<lparr>rm_TotalActionFees := fee, rm_MagicFee := rm_MagicFee i3 - fee\<rparr>
            | _ \<Rightarrow> i3))"

definition initial_info :: "('a, 'c) Message \<Rightarrow> ('a, 'c) Transaction \<Rightarrow> ('a, 'c) rm_info" where
  "initial_info m tx =
     (let importFee = (case m of MsgExternalIn e \<Rightarrow> ei_ImportFee e | _ \<Rightarrow> 0)
      in \<lparr>rm_InternalMsg = (case m of MsgInternal im \<Rightarrow> Some im | _ \<Rightarrow> None),
          rm_Amount = (case m of MsgInternal im \<Rightarrow> im_Amount im | _ \<Rightarrow> 0),
          rm_ExternalMsg = (case m of MsgExternalIn e \<Rightarrow> Some e | _ \<Rightarrow> None),
          rm_LamportTime = tx_LT tx,
          rm_ImportFee = importFee,
          rm_FwdFee = (case m of MsgInternal im \<Rightarrow> im_FwdFee im | _ \<Rightarrow> 0),
          rm_StorageFeeCharged = 0, rm_MsgFeesChargedToSender = 0, rm_TotalActionFees = 0, rm_GasFee = 0,
          rm_MagicFee = tx_TotalFees tx - importFee,
          rm_EmittedBouncedMessage = False, rm_Success = False, rm_ExitCode = 0,
          rm_OutgoingExternalMessages = []\<rparr>)"

definition MapToReceivedMessage :: "('a, 'c) Transaction \<Rightarrow> ('a, 'c) ReceivedMessage res" where
  "MapToReceivedMessage tx = (case tx_In tx of
       None \<Rightarrow> Inl (Panic ''nil pointer dereference'')
     | Some m \<Rightarrow>
        let i = apply_description (tx_Description tx) (initial_info m tx)
        in (case tx_Out tx of
              None \<Rightarrow> Inr (RM i [] [])
            | Some outs \<Rightarrow>
                bindE (wrapE ''failed to get outgoing messages'' outs) (\<lambda>ms.
                bindE (mapOutgoingMessages (i, []) ms) (\<lambda>(i', ss). Inr (RM i' ss [])))))"

section \<open>Fees and amounts\<close>

text \<open>
  \<open>total := m.TotalActionFees\<close> copies a pointer, so the additions update the message:
  the operation returns the updated message beside the total.
\<close>

definition TotalActionPhaseFees :: "('a, 'c) ReceivedMessage \<Rightarrow> (('a, 'c) ReceivedMessage \<times> int) res" where
  "TotalActionPhaseFees m = (case m of RM i ss rs \<Rightarrow>
     if None \<in> set rs then Inl (Panic ''nil pointer dereference'')
     else let total = rm_TotalActionFees i + sum_list (map sm_FwdFee ss)
                      + sum_list (map (\<lambda>r. rm_FwdFee (info (the r))) rs)
          in Inr (RM (i\<lparr>rm_TotalActionFees := total\<rparr>) ss rs, total))"

definition Sum :: "int list \<Rightarrow> int" where
  "Sum values = foldl (\<lambda>total v. total + v) 0 values"

definition TotalTransactionExecutionFee :: "('a, 'c) ReceivedMessage \<Rightarrow> (('a, 'c) ReceivedMessage \<times> int) res" where
  "TotalTransactionExecutionFee m =
     bindE (TotalActionPhaseFees m) (\<lambda>(m', actionPhase).
     Inr (m', Sum [rm_ImportFee (info m), rm_GasFee (info m), actionPhase, rm_MagicFee (info m)]))"

definition OutgoingAmount :: "('a, 'c) ReceivedMessage \<Rightarrow> int res" where
  "OutgoingAmount m =
     (if None \<in> set (recvs m) then Inl (Panic ''nil pointer dereference'')
      else Inr (foldl (\<lambda>b r. b + rm_Amount (info (the r)))
                 (foldl (\<lambda>b s. b + sm_Amount s) 0 (sents m)) (recvs m)))"

definition NetCreditResult :: "('a, 'c) ReceivedMessage \<Rightarrow> int res" where
  "NetCreditResult m = bindE (OutgoingAmount m) (\<lambda>out. Inr (rm_Amount (info m) - out))"

section \<open>Following outgoing messages\<close>

definition MatchesReceived ::
  "('a \<Rightarrow> 'a \<Rightarrow> bool) \<Rightarrow> ('a, 'c) SentMessage \<Rightarrow> ('a, 'c) InternalMessage \<Rightarrow> bool" where
  "MatchesReceived Equals m inc =
     (Equals (im_SrcAddr inc) (im_SrcAddr (sm_InternalMsg m)) \<and>
      Equals (im_DstAddr inc) (im_DstAddr (sm_InternalMsg m)) \<and>
      im_CreatedLT inc = im_CreatedLT (sm_InternalMsg m))"

definition MapToReceivedMessageIfMatches ::
  "('a \<Rightarrow> 'a \<Rightarrow> bool) \<Rightarrow> ('a, 'c) SentMessage \<Rightarrow> ('a, 'c) Transaction \<Rightarrow>
   ('a, 'c) ReceivedMessage option res" where
  "MapToReceivedMessageIfMatches Equals m rTX = (case tx_In rTX of
       Some (MsgInternal inc) \<Rightarrow>
         if \<not> MatchesReceived Equals m inc then Inr None
         else bindE (wrapE ''failed to parse sent message'' (MapToReceivedMessage rTX)) (\<lambda>r. Inr (Some r))
     | _ \<Rightarrow> Inl (Err ''transaction is not internal''))"

text \<open>
  The loop over the subscription's channel. The subscription runs with \<open>context.Background()\<close> and is never
  closed, so the list of transactions is what it has delivered: a loop that comes to its end without a match
  waits for ever, which is the value \<open>None\<close>. (Only the transactions up to the first match matter, so a list
  stands for an endless subscription too.)
\<close>

fun find_received ::
  "('a \<Rightarrow> 'a \<Rightarrow> bool) \<Rightarrow> ('a, 'c) SentMessage \<Rightarrow> ('a, 'c) Transaction list \<Rightarrow>
   ('a, 'c) ReceivedMessage res option" where
  "find_received Equals m [] = None"
| "find_received Equals m (rTX # rTXs) = (case tx_In rTX of
       Some (MsgInternal _) \<Rightarrow>
         (case wrapE ''failed to process incoming message'' (MapToReceivedMessageIfMatches Equals m rTX) of
            Inl e \<Rightarrow> Some (Inl e)
          | Inr (Some r) \<Rightarrow> Some (Inr r)
          | Inr None \<Rightarrow> find_received Equals m rTXs)
     | _ \<Rightarrow> find_received Equals m rTXs)"

text \<open>
  The message is updated in place: each outgoing message is removed before it is waited for and its reception
  is appended, so a failed call leaves the message without the messages it had taken up. The operations return
  the message as they leave it, beside their error.
\<close>

fun receive_loop ::
  "('a \<Rightarrow> 'a \<Rightarrow> bool) \<Rightarrow> ('a \<Rightarrow> u64 \<Rightarrow> ('a, 'c) Transaction list) \<Rightarrow> ('a, 'c) rm_info \<Rightarrow>
   ('a, 'c) SentMessage list \<Rightarrow> ('a, 'c) ReceivedMessage option list \<Rightarrow>
   (('a, 'c) ReceivedMessage \<times> unit res) option" where
  "receive_loop Equals SubscribeToTransactions i [] rs = Some (RM i [] rs, Inr ())"
| "receive_loop Equals SubscribeToTransactions i (s # ss) rs =
     (case find_received Equals s (SubscribeToTransactions (im_DstAddr (sm_InternalMsg s)) (rm_LamportTime i)) of
        None \<Rightarrow> None
      | Some (Inl e) \<Rightarrow> Some (RM i ss rs, Inl e)
      | Some (Inr r) \<Rightarrow> receive_loop Equals SubscribeToTransactions i ss (rs @ [Some r]))"

definition WaitForOutgoingMessagesToBeReceived ::
  "('a \<Rightarrow> 'a \<Rightarrow> bool) \<Rightarrow> ('a \<Rightarrow> u64 \<Rightarrow> ('a, 'c) Transaction list) \<Rightarrow> ('a, 'c) ReceivedMessage \<Rightarrow>
   (('a, 'c) ReceivedMessage \<times> unit res) option" where
  "WaitForOutgoingMessagesToBeReceived Equals SubscribeToTransactions m =
     receive_loop Equals SubscribeToTransactions (info m) (sents m) (recvs m)"

text \<open>Positions in the tree of received messages: a pointer to a message is its path.\<close>

fun node_at :: "('a, 'c) ReceivedMessage \<Rightarrow> nat list \<Rightarrow> ('a, 'c) ReceivedMessage option" where
  "node_at m [] = Some m"
| "node_at m (i # p) =
     (if i < length (recvs m) then
        (case recvs m ! i of None \<Rightarrow> None | Some c \<Rightarrow> node_at c p)
      else None)"

fun put_at :: "('a, 'c) ReceivedMessage \<Rightarrow> nat list \<Rightarrow> ('a, 'c) ReceivedMessage \<Rightarrow> ('a, 'c) ReceivedMessage" where
  "put_at m [] n = n"
| "put_at m (i # p) n =
     (if i < length (recvs m) then
        (case recvs m ! i of
           None \<Rightarrow> m
         | Some c \<Rightarrow> RM (info m) (sents m) ((recvs m)[i := Some (put_at c p n)]))
      else m)"

partial_function (option) trace_loop ::
  "('a \<Rightarrow> 'a \<Rightarrow> bool) \<Rightarrow> ('a \<Rightarrow> u64 \<Rightarrow> ('a, 'c) Transaction list) \<Rightarrow>
   ('a, 'c) ReceivedMessage \<Rightarrow> nat list list \<Rightarrow> (('a, 'c) ReceivedMessage \<times> unit res) option" where
  "trace_loop Equals SubscribeToTransactions root queue = (case queue of
       [] \<Rightarrow> Some (root, Inr ())
     | p # q \<Rightarrow> (case node_at root p of
           None \<Rightarrow> Some (root, Inl (Panic ''nil pointer dereference''))
         | Some m \<Rightarrow>
            (case WaitForOutgoingMessagesToBeReceived Equals SubscribeToTransactions m of
               None \<Rightarrow> None
             | Some (m', Inl e) \<Rightarrow> Some (put_at root p m', wrapE ''failed to wait for outgoing messages'' (Inl e))
             | Some (m', Inr _) \<Rightarrow> trace_loop Equals SubscribeToTransactions (put_at root p m')
                           (q @ map (\<lambda>i. p @ [i]) [0..<length (recvs m')]))))"

definition WaitForTrace ::
  "('a \<Rightarrow> 'a \<Rightarrow> bool) \<Rightarrow> ('a \<Rightarrow> u64 \<Rightarrow> ('a, 'c) Transaction list) \<Rightarrow> ('a, 'c) ReceivedMessage \<Rightarrow>
   (('a, 'c) ReceivedMessage \<times> unit res) option" where
  "WaitForTrace Equals SubscribeToTransactions m =
     (if Status m = Finalized then Some (m, Inr ()) else trace_loop Equals SubscribeToTransactions m [[]])"

section \<open>Summaries of a trace\<close>

text \<open>
  The explicit stack of \<open>OutcomeExitCode\<close>, top first: children are pushed last to first, so
  they are popped in order.
\<close>

function outcome_loop :: "('a, 'c) ReceivedMessage option list \<Rightarrow> ExitCode res" where
  "outcome_loop [] = Inr ExitCodeSuccess"
| "outcome_loop (None # st) = Inl (Panic ''nil pointer dereference'')"
| "outcome_loop (Some m # st) =
     (if \<not> rm_Success (info m) then Inr (rm_ExitCode (info m)) else outcome_loop (recvs m @ st))"
  by pat_completeness auto
termination
proof (relation "measure (size_list (size_option size))")
  fix m :: "('a, 'c) ReceivedMessage" and st
  assume "\<not> \<not> rm_Success (info m)"
  show "(recvs m @ st, Some m # st) \<in> measure (size_list (size_option size))"
    by (cases m) (simp add: size_list_append)
qed simp

definition OutcomeExitCode :: "('a, 'c) ReceivedMessage option \<Rightarrow> ExitCode res" where
  "OutcomeExitCode m = (case m of None \<Rightarrow> Inr ExitCodeSuccess | Some m' \<Rightarrow> outcome_loop [Some m'])"

fun TraceSucceeded :: "('a, 'c) ReceivedMessage \<Rightarrow> bool res"
  and traces_succeeded :: "('a, 'c) ReceivedMessage option list \<Rightarrow> bool res" where
  "TraceSucceeded (RM i ss rs) = (if \<not> rm_Success i then Inr False else traces_succeeded rs)"
| "traces_succeeded [] = Inr True"
| "traces_succeeded (None # rs) = Inl (Panic ''nil pointer dereference'')"
| "traces_succeeded (Some m # rs) =
     bindE (TraceSucceeded m) (\<lambda>ok. if \<not> ok then Inr False else traces_succeeded rs)"

text \<open>Every message of a trace, the root first, children in order; a nil child is dropped.\<close>

fun messages :: "('a, 'c) ReceivedMessage \<Rightarrow> ('a, 'c) ReceivedMessage list"
  and messages_list :: "('a, 'c) ReceivedMessage option list \<Rightarrow> ('a, 'c) ReceivedMessage list" where
  "messages (RM i ss rs) = RM i ss rs # messages_list rs"
| "messages_list [] = []"
| "messages_list (None # rs) = messages_list rs"
| "messages_list (Some m # rs) = messages m @ messages_list rs"

text \<open>No child pointer of the trace is nil.\<close>

definition no_nil :: "('a, 'c) ReceivedMessage \<Rightarrow> bool" where
  "no_nil m = (\<forall>n \<in> set (messages m). None \<notin> set (recvs n))"

text \<open>The internal and the external messages among a transaction's outgoing messages.\<close>

fun internal_outs :: "('a, 'c) Message list \<Rightarrow> ('a, 'c) InternalMessage list" where
  "internal_outs [] = []"
| "internal_outs (MsgInternal m # ms) = m # internal_outs ms"
| "internal_outs (_ # ms) = internal_outs ms"

fun external_outs :: "('a, 'c) Message list \<Rightarrow> ('a, 'c) ExternalMessageOut list" where
  "external_outs [] = []"
| "external_outs (MsgExternalOut m # ms) = m # external_outs ms"
| "external_outs (_ # ms) = external_outs ms"

definition has_external_in :: "('a, 'c) Message list \<Rightarrow> bool" where
  "has_external_in ms = (\<exists>m \<in> set ms. case m of MsgExternalIn _ \<Rightarrow> True | _ \<Rightarrow> False)"

section \<open>Mapping a transaction: lemmas\<close>

lemma mapOutgoingMessages_spec:
  "mapOutgoingMessages (i, ss) ms =
     (if has_external_in ms
      then Inl (Panic ''ReceivedMessage should not contain external in messages, only external out messages'')
      else Inr (i\<lparr>rm_MsgFeesChargedToSender := rm_MsgFeesChargedToSender i + sum_list (map im_FwdFee (internal_outs ms)),
                  rm_OutgoingExternalMessages := rm_OutgoingExternalMessages i @
                    map (\<lambda>m. \<lparr>oe_CreatedAt = eo_CreatedAt m, oe_LT = eo_CreatedLT m, oe_Body = eo_Body m\<rparr>) (external_outs ms)\<rparr>,
                ss @ map NewSentMessage (internal_outs ms)))"
proof (induction "(i, ss)" ms arbitrary: i ss rule: mapOutgoingMessages.induct)
  case 1
  then show ?case by (simp add: has_external_in_def)
qed (auto simp: has_external_in_def AppendSentMessage_def AppendEvent_def algebra_simps)

lemma MapToReceivedMessage_eq:
  assumes "tx_In tx = Some msg"
  shows "MapToReceivedMessage tx =
    (let i = apply_description (tx_Description tx) (initial_info msg tx) in
     case tx_Out tx of
       None \<Rightarrow> Inr (RM i [] [])
     | Some (Inl e) \<Rightarrow> Inl (if is_panic e then e else Wrap ''failed to get outgoing messages'' e)
     | Some (Inr ms) \<Rightarrow>
         if has_external_in ms
         then Inl (Panic ''ReceivedMessage should not contain external in messages, only external out messages'')
         else Inr (RM (i\<lparr>rm_MsgFeesChargedToSender := rm_MsgFeesChargedToSender i + sum_list (map im_FwdFee (internal_outs ms)),
                    rm_OutgoingExternalMessages := rm_OutgoingExternalMessages i @
                      map (\<lambda>m. \<lparr>oe_CreatedAt = eo_CreatedAt m, oe_LT = eo_CreatedLT m, oe_Body = eo_Body m\<rparr>) (external_outs ms)\<rparr>)
                  (map NewSentMessage (internal_outs ms)) []))"
  using assms
  by (simp add: MapToReceivedMessage_def mapOutgoingMessages_spec Let_def split: option.split sum.split)

lemma MapToReceivedMessage_In: "MapToReceivedMessage tx = Inr m \<Longrightarrow> \<exists>msg. tx_In tx = Some msg"
  by (auto simp: MapToReceivedMessage_def split: option.splits)

lemma MapToReceivedMessage_recvs: "MapToReceivedMessage tx = Inr m \<Longrightarrow> recvs m = []"
  using MapToReceivedMessage_In [of tx m]
  by (auto simp: MapToReceivedMessage_eq Let_def split: option.splits sum.splits if_splits)

lemma apply_description_fees:
  "rm_ImportFee (apply_description d i) + rm_GasFee (apply_description d i)
     + rm_StorageFeeCharged (apply_description d i) + rm_TotalActionFees (apply_description d i)
     + rm_MagicFee (apply_description d i)
   = rm_ImportFee i + rm_MagicFee i"
  if "rm_GasFee i = 0" "rm_StorageFeeCharged i = 0" "rm_TotalActionFees i = 0"
  using that
  by (auto simp: apply_description_def Let_def split: TxDescription.splits ComputePhase.splits option.splits)

section \<open>Paths: lemmas\<close>

definition same_node :: "('a, 'c) ReceivedMessage \<Rightarrow> ('a, 'c) ReceivedMessage \<Rightarrow> bool" where
  "same_node a b = (info a = info b \<and> sents a = sents b \<and>
     map (\<lambda>x. x = None) (recvs a) = map (\<lambda>x. x = None) (recvs b))"

lemma same_node_refl [simp]: "same_node a a"
  by (simp add: same_node_def)

lemma same_node_length: "same_node a b \<Longrightarrow> length (recvs a) = length (recvs b)"
  by (auto simp: same_node_def dest: map_eq_imp_length_eq)

lemma same_node_None:
  assumes "same_node a b" "i < length (recvs a)"
  shows "recvs a ! i = None \<longleftrightarrow> recvs b ! i = None"
proof -
  have "map (\<lambda>x. x = None) (recvs a) ! i = map (\<lambda>x. x = None) (recvs b) ! i"
    using assms(1) by (simp add: same_node_def)
  with assms(2) same_node_length [OF assms(1)] show ?thesis by simp
qed

lemma node_at_append:
  "node_at m (p @ q) = (case node_at m p of None \<Rightarrow> None | Some n \<Rightarrow> node_at n q)"
  by (induction m p rule: node_at.induct) (auto split: option.splits)

lemma node_at_put_at:
  "node_at m p = Some k \<Longrightarrow> node_at (put_at m p n) (p @ q) = node_at n q"
  by (induction m p arbitrary: k rule: node_at.induct) (auto split: option.splits if_splits)

lemma node_at_put_other:
  assumes "node_at m p = Some k" "\<not> prefix p r"
  shows "rel_option same_node (node_at (put_at m p n) r) (node_at m r)"
  using assms
proof (induction m p arbitrary: r rule: node_at.induct)
  case (1 m)
  then show ?case by simp
next
  case (2 m i p)
  from 2(2) obtain c where c: "i < length (recvs m)" "recvs m ! i = Some c" "node_at c p = Some k"
    by (auto split: if_splits option.splits)
  let ?m' = "RM (info m) (sents m) ((recvs m)[i := Some (put_at c p n)])"
  from c have put: "put_at m (i # p) n = ?m'" by simp
  show ?case
  proof (cases r)
    case Nil
    from c have "map (\<lambda>x. x = None) (recvs ?m') = map (\<lambda>x. x = None) (recvs m)"
      by (auto intro!: nth_equalityI simp: nth_list_update split: if_splits)
    then have "same_node ?m' m" by (simp add: same_node_def)
    with put Nil show ?thesis by simp
  next
    case (Cons j r')
    show ?thesis
    proof (cases "j = i")
      case True
      with 2(3) Cons have "\<not> prefix p r'" by simp
      with 2(1) c have "rel_option same_node (node_at (put_at c p n) r') (node_at c r')" by blast
      with True Cons c put show ?thesis by simp
    next
      case False
      have "rel_option same_node x x" for x :: "('a, 'b) ReceivedMessage option"
        by (cases x) auto
      with False Cons put show ?thesis by simp
    qed
  qed
qed

lemma messages_node_at: "n \<in> set (messages m) \<Longrightarrow> \<exists>p. node_at m p = Some n"
  and messages_list_node_at:
    "n \<in> set (messages_list rs) \<Longrightarrow> \<exists>i c p. i < length rs \<and> rs ! i = Some c \<and> node_at c p = Some n"
proof (induction m and rs rule: messages_messages_list.induct)
  case (1 i ss rs)
  show ?case
  proof (cases "n = RM i ss rs")
    case True
    then show ?thesis by (intro exI [of _ "[]"]) simp
  next
    case False
    with 1 obtain j c p where "j < length rs" "rs ! j = Some c" "node_at c p = Some n" by auto
    then have "node_at (RM i ss rs) (j # p) = Some n" by simp
    then show ?thesis by blast
  qed
next
  case 2
  then show ?case by simp
next
  case (3 rs)
  then obtain i c p where "i < length rs" "rs ! i = Some c" "node_at c p = Some n" by auto
  then show ?case by (intro exI [of _ "Suc i"]) auto
next
  case (4 m rs)
  show ?case
  proof (cases "n \<in> set (messages m)")
    case True
    with 4(1) show ?thesis by (intro exI [of _ 0]) auto
  next
    case False
    with 4(2,3) obtain i c p where "i < length rs" "rs ! i = Some c" "node_at c p = Some n" by auto
    then show ?thesis by (intro exI [of _ "Suc i"]) auto
  qed
qed

section \<open>Waiting for a trace: lemmas\<close>

text \<open>
  Invariant of the breadth-first loop: a message below no queued position has nothing left to
  wait for, and a nil child of such a message is queued (so the loop will trip over it).
\<close>

definition trace_inv :: "('a, 'c) ReceivedMessage \<Rightarrow> nat list list \<Rightarrow> bool" where
  "trace_inv root queue = (\<forall>p m. node_at root p = Some m \<longrightarrow> (\<exists>q\<in>set queue. prefix q p) \<or>
     (sents m = [] \<and> (\<forall>i<length (recvs m). recvs m ! i = None \<longrightarrow> p @ [i] \<in> set queue)))"

definition settled :: "('a, 'c) ReceivedMessage \<Rightarrow> bool" where
  "settled m = (\<forall>n \<in> set (messages m). sents n = [] \<and> None \<notin> set (recvs n))"

lemma trace_inv_start: "trace_inv root [[]]"
  by (simp add: trace_inv_def)

lemma trace_inv_end: "trace_inv root [] \<Longrightarrow> settled root"
  unfolding settled_def trace_inv_def
  by (metis empty_iff empty_set in_set_conv_nth messages_node_at)

text \<open>What waiting for one message's outgoing messages leaves, by the loop over them.\<close>

lemma receive_loop_Inr:
  "receive_loop E S i ss rs = Some (m', Inr u) \<longleftrightarrow>
   (\<exists>cs. list_all2 (\<lambda>s c. find_received E s (S (im_DstAddr (sm_InternalMsg s)) (rm_LamportTime i)) = Some (Inr c)) ss cs \<and>
         m' = RM i [] (rs @ map Some cs))"
proof (induction ss arbitrary: rs)
  case (Cons s ss)
  consider "find_received E s (S (im_DstAddr (sm_InternalMsg s)) (rm_LamportTime i)) = None"
    | e where "find_received E s (S (im_DstAddr (sm_InternalMsg s)) (rm_LamportTime i)) = Some (Inl e)"
    | c where "find_received E s (S (im_DstAddr (sm_InternalMsg s)) (rm_LamportTime i)) = Some (Inr c)"
    by (metis option.exhaust sum.exhaust)
  then show ?case
  proof cases
    case 3
    with Cons [of "rs @ [Some c]"] show ?thesis by (force simp: list_all2_Cons1)
  qed (auto simp: list_all2_Cons1)
qed auto

lemma wait_Inr:
  "WaitForOutgoingMessagesToBeReceived E S m = Some (m', Inr u) \<longleftrightarrow>
   (\<exists>cs. list_all2 (\<lambda>s c. find_received E s (S (im_DstAddr (sm_InternalMsg s)) (rm_LamportTime (info m))) = Some (Inr c)) (sents m) cs \<and>
         m' = RM (info m) [] (recvs m @ map Some cs))"
  by (simp add: WaitForOutgoingMessagesToBeReceived_def receive_loop_Inr)

lemma wait_sents: "WaitForOutgoingMessagesToBeReceived E S m = Some (m', Inr u) \<Longrightarrow> sents m' = []"
  by (auto simp: wait_Inr)

lemma trace_inv_step:
  assumes inv: "trace_inv root (p # q)" and at: "node_at root p = Some m" and m': "sents m' = []"
  shows "trace_inv (put_at root p m') (q @ map (\<lambda>i. p @ [i]) [0..<length (recvs m')])"
  unfolding trace_inv_def
proof (intro allI impI)
  fix r n
  let ?queue = "q @ map (\<lambda>i. p @ [i]) [0..<length (recvs m')]"
  assume n: "node_at (put_at root p m') r = Some n"
  show "(\<exists>q'\<in>set ?queue. prefix q' r) \<or>
    (sents n = [] \<and> (\<forall>i<length (recvs n). recvs n ! i = None \<longrightarrow> r @ [i] \<in> set ?queue))"
  proof (cases "prefix p r")
    case True
    then obtain u where u: "r = p @ u" by (auto elim: prefixE)
    with n at have nu: "node_at m' u = Some n" by (simp add: node_at_put_at)
    show ?thesis
    proof (cases u)
      case Nil
      with nu u m' show ?thesis by auto
    next
      case (Cons i u')
      with nu have "i < length (recvs m')" by (auto split: if_splits)
      moreover have "prefix (p @ [i]) r" using u Cons by simp
      ultimately show ?thesis by (intro disjI1 bexI [of _ "p @ [i]"]) auto
    qed
  next
    case False
    with node_at_put_other [OF at False, of m'] n obtain k where k: "node_at root r = Some k" "same_node n k"
      by (auto simp: option_rel_Some1)
    from inv k(1) consider (queued) q' where "q' \<in> set (p # q)" "prefix q' r"
      | (calm) "sents k = []" "\<forall>i<length (recvs k). recvs k ! i = None \<longrightarrow> r @ [i] \<in> set (p # q)"
      unfolding trace_inv_def by blast
    then show ?thesis
    proof cases
      case queued
      with False show ?thesis by (intro disjI1 bexI [of _ q']) auto
    next
      case calm
      have "r @ [i] \<in> set q" if i: "i < length (recvs n)" "recvs n ! i = None" for i
      proof -
        from i same_node_length [OF k(2)] same_node_None [OF k(2)]
        have ki: "i < length (recvs k)" "recvs k ! i = None" by auto
        then have "node_at root (r @ [i]) = None" using k(1) by (simp add: node_at_append)
        with at have "r @ [i] \<noteq> p" by auto
        with calm(2) ki show ?thesis by auto
      qed
      moreover from calm(1) k(2) have "sents n = []" by (simp add: same_node_def)
      ultimately show ?thesis by auto
    qed
  qed
qed

lemma trace_loop_settles:
  assumes ret: "trace_loop E S root queue = Some r" and inv: "trace_inv root queue" and ok: "r = (m', Inr ())"
  shows "settled m'"
proof -
  let ?P = "\<lambda>root queue r. trace_inv root queue \<longrightarrow> (\<forall>m'. r = (m', Inr ()) \<longrightarrow> settled m')"
  have "?P root queue r"
  proof (rule trace_loop.raw_induct [where P = "\<lambda>E S. ?P", OF _ ret])
    fix f E S root queue r
    assume IH: "\<And>E S root queue r. f E S root queue = Some r \<Longrightarrow> ?P root queue r"
      and eq: "(case queue of
       [] \<Rightarrow> Some (root, Inr ())
     | p # q \<Rightarrow> (case node_at root p of
           None \<Rightarrow> Some (root, Inl (Panic ''nil pointer dereference''))
         | Some m \<Rightarrow>
            (case WaitForOutgoingMessagesToBeReceived E S m of
               None \<Rightarrow> None
             | Some (m', Inl e) \<Rightarrow> Some (put_at root p m', wrapE ''failed to wait for outgoing messages'' (Inl e))
             | Some (m', Inr _) \<Rightarrow> f E S (put_at root p m') (q @ map (\<lambda>i. p @ [i]) [0..<length (recvs m')])))) = Some r"
    show "?P root queue r"
      using eq by (auto split: list.splits option.splits sum.splits
          dest!: IH dest: trace_inv_end trace_inv_step [OF _ _ wait_sents])
  qed
  with inv ok show ?thesis by blast
qed

text \<open>
  What a trace needs of the network. A transaction answers a message when the message is its inbound one, by
  source, destination and creation time. A message cascades when the subscription to its destination, from the
  sender's Lamport time on, delivers an answer, and every message such an answer sends cascades in turn; the
  definition is inductive, so a chain of messages is finite. (Every hop of a TON trace pays forward fees out of
  what it carries.)
\<close>

definition answers :: "('a \<Rightarrow> 'a \<Rightarrow> bool) \<Rightarrow> ('a, 'c) InternalMessage \<Rightarrow> ('a, 'c) Transaction \<Rightarrow> bool" where
  "answers E im tx = (case tx_In tx of
       Some (MsgInternal inc) \<Rightarrow> E (im_SrcAddr inc) (im_SrcAddr im) \<and> E (im_DstAddr inc) (im_DstAddr im) \<and>
         im_CreatedLT inc = im_CreatedLT im
     | _ \<Rightarrow> False)"

definition tx_internals :: "('a, 'c) Transaction \<Rightarrow> ('a, 'c) InternalMessage list" where
  "tx_internals tx = (case tx_Out tx of Some (Inr ms) \<Rightarrow> internal_outs ms | _ \<Rightarrow> [])"

definition readable :: "('a, 'c) Transaction \<Rightarrow> bool" where
  "readable tx = (case tx_Out tx of None \<Rightarrow> True | Some (Inl _) \<Rightarrow> False | Some (Inr ms) \<Rightarrow> \<not> has_external_in ms)"

inductive cascades ::
  "('a \<Rightarrow> 'a \<Rightarrow> bool) \<Rightarrow> ('a \<Rightarrow> u64 \<Rightarrow> ('a, 'c) Transaction list) \<Rightarrow> ('a, 'c) InternalMessage \<Rightarrow> u64 \<Rightarrow> bool"
  for E S where
  cascade: "\<exists>tx \<in> set (S (im_DstAddr im) lt). answers E im tx \<Longrightarrow>
    \<forall>tx \<in> set (S (im_DstAddr im) lt). answers E im tx \<longrightarrow> (\<forall>im' \<in> set (tx_internals tx). cascades E S im' (tx_LT tx)) \<Longrightarrow>
    cascades E S im lt"

lemma MapToReceivedMessage_shape:
  assumes "MapToReceivedMessage tx = Inr m"
  shows "rm_LamportTime (info m) = tx_LT tx \<and> sents m = map NewSentMessage (tx_internals tx) \<and> recvs m = []"
proof -
  obtain msg where msg: "tx_In tx = Some msg" using MapToReceivedMessage_In assms by blast
  have "rm_LamportTime (apply_description d (initial_info msg tx)) = tx_LT tx" for d
    by (simp add: apply_description_def initial_info_def Let_def split: TxDescription.split ComputePhase.split option.split)
  with assms show ?thesis
    by (auto simp: MapToReceivedMessage_eq [OF msg] Let_def tx_internals_def split: option.splits sum.splits if_splits)
qed

lemma readable_iff:
  "tx_In tx = Some msg \<Longrightarrow> (\<exists>m. MapToReceivedMessage tx = Inr m) \<longleftrightarrow> readable tx"
  by (auto simp: MapToReceivedMessage_eq Let_def readable_def split: option.splits sum.splits)

lemma IfMatches_answers:
  assumes "tx_In tx = Some (MsgInternal inc)"
  shows "MapToReceivedMessageIfMatches E s tx =
    (if answers E (sm_InternalMsg s) tx
     then bindE (wrapE ''failed to parse sent message'' (MapToReceivedMessage tx)) (\<lambda>r. Inr (Some r)) else Inr None)"
  using assms by (simp add: MapToReceivedMessageIfMatches_def MatchesReceived_def answers_def)

lemma answers_In: "answers E im tx \<Longrightarrow> \<exists>inc. tx_In tx = Some (MsgInternal inc)"
  by (auto simp: answers_def split: option.splits Message.splits)

lemma find_received_find:
  "find_received E s txs = (case find (answers E (sm_InternalMsg s)) txs of
     None \<Rightarrow> None
   | Some tx \<Rightarrow> Some (wrapE ''failed to process incoming message''
                       (wrapE ''failed to parse sent message'' (MapToReceivedMessage tx))))"
proof (induction txs)
  case (Cons tx txs)
  show ?case
  proof (cases "\<exists>inc. tx_In tx = Some (MsgInternal inc)")
    case True
    with Cons show ?thesis
      by (auto simp: IfMatches_answers split: sum.split) (cases "MapToReceivedMessage tx"; auto)+
  next
    case False
    then have "find_received E s (tx # txs) = find_received E s txs"
      by (auto split: option.split Message.split)
    with Cons False answers_In [of E "sm_InternalMsg s" tx] show ?thesis by auto
  qed
qed simp

lemma find_received_Inr:
  "find_received E s txs = Some (Inr c) \<longleftrightarrow>
   (\<exists>tx. find (answers E (sm_InternalMsg s)) txs = Some tx \<and> MapToReceivedMessage tx = Inr c)"
  by (auto simp: find_received_find split: option.split)

lemma find_received_recvs: "find_received E s txs = Some (Inr r) \<Longrightarrow> recvs r = []"
  by (auto simp: find_received_Inr dest: MapToReceivedMessage_recvs)

text \<open>
  Termination. \<open>within h m\<close>: following the message ends after at most \<open>h\<close> hops, the messages received already
  counted in.
\<close>

primrec within ::
  "('a \<Rightarrow> 'a \<Rightarrow> bool) \<Rightarrow> ('a \<Rightarrow> u64 \<Rightarrow> ('a, 'c) Transaction list) \<Rightarrow> nat \<Rightarrow> ('a, 'c) ReceivedMessage \<Rightarrow> bool" where
  "within E S 0 m = (sents m = [] \<and> recvs m = [])"
| "within E S (Suc h) m =
     ((\<forall>s \<in> set (sents m). \<exists>r. find_received E s (S (im_DstAddr (sm_InternalMsg s)) (rm_LamportTime (info m))) = Some r \<and>
         (\<forall>c. r = Inr c \<longrightarrow> within E S h c)) \<and>
      (\<forall>c. Some c \<in> set (recvs m) \<longrightarrow> within E S h c))"

lemma within_Suc: "within E S h m \<Longrightarrow> within E S (Suc h) m"
proof (induction h arbitrary: m)
  case (Suc h)
  from Suc.prems have "\<exists>r. find_received E s (S (im_DstAddr (sm_InternalMsg s)) (rm_LamportTime (info m))) = Some r \<and>
      (\<forall>c. r = Inr c \<longrightarrow> within E S h c)" if "s \<in> set (sents m)" for s
    using that by simp
  moreover from Suc.prems have "within E S h c" if "Some c \<in> set (recvs m)" for c
    using that by simp
  ultimately show ?case
    unfolding within.simps(2) [of E S "Suc h" m] using Suc.IH by blast
qed simp

lemma within_mono: "h \<le> k \<Longrightarrow> within E S h m \<Longrightarrow> within E S k m"
  by (induction k rule: nat_induct_at_least) (auto intro: within_Suc simp del: within.simps)

lemma bound_exists:
  fixes P :: "'b \<Rightarrow> nat \<Rightarrow> bool"
  assumes "\<And>x. x \<in> set xs \<Longrightarrow> \<exists>h. P x h" "\<And>x h k. h \<le> k \<Longrightarrow> P x h \<Longrightarrow> P x k"
  shows "\<exists>h. \<forall>x \<in> set xs. P x h"
  using assms(1)
proof (induction xs)
  case (Cons x xs)
  then obtain h1 h2 where "P x h1" "\<forall>x \<in> set xs. P x h2" by fastforce
  with assms(2) have "\<forall>y \<in> set (x # xs). P y (max h1 h2)"
    by (metis max.cobounded1 max.cobounded2 set_ConsD)
  then show ?case ..
qed simp

definition sent_within ::
  "('a \<Rightarrow> 'a \<Rightarrow> bool) \<Rightarrow> ('a \<Rightarrow> u64 \<Rightarrow> ('a, 'c) Transaction list) \<Rightarrow> ('a, 'c) InternalMessage \<Rightarrow> u64 \<Rightarrow> nat \<Rightarrow> bool" where
  "sent_within E S im lt h = (\<forall>s. sm_InternalMsg s = im \<longrightarrow>
     (\<exists>r. find_received E s (S (im_DstAddr im) lt) = Some r \<and> (\<forall>c. r = Inr c \<longrightarrow> within E S h c)))"

lemma sent_within_mono: "h \<le> k \<Longrightarrow> sent_within E S im lt h \<Longrightarrow> sent_within E S im lt k"
  unfolding sent_within_def using within_mono by blast

lemma cascades_within: "cascades E S im lt \<Longrightarrow> \<exists>h. sent_within E S im lt h"
proof (induction rule: cascades.induct)
  case (cascade im lt)
  then obtain tx where tx: "find (answers E im) (S (im_DstAddr im) lt) = Some tx"
    by (metis find_None_iff option.exhaust)
  then have "tx \<in> set (S (im_DstAddr im) lt)" "answers E im tx"
    by (auto simp: find_Some_iff)
  with cascade(2) have each: "\<exists>h. sent_within E S im' (tx_LT tx) h" if "im' \<in> set (tx_internals tx)" for im'
    using that by blast
  have "\<exists>h. \<forall>im' \<in> set (tx_internals tx). sent_within E S im' (tx_LT tx) h"
    by (rule bound_exists) (erule each, erule (1) sent_within_mono)
  then obtain h where h: "\<forall>im' \<in> set (tx_internals tx). sent_within E S im' (tx_LT tx) h" ..
  have "within E S (Suc h) c" if "MapToReceivedMessage tx = Inr c" for c
    using h MapToReceivedMessage_shape [OF that] by (auto simp: sent_within_def NewSentMessage_def)
  then have "sent_within E S im lt (Suc h)"
    using tx by (auto simp: sent_within_def find_received_find)
  then show ?case ..
qed

lemma messages_within:
  "(\<forall>n \<in> set (messages m). \<forall>s \<in> set (sents n). cascades E S (sm_InternalMsg s) (rm_LamportTime (info n))) \<Longrightarrow>
     \<exists>h. within E S h m"
  "(\<forall>n \<in> set (messages_list rs). \<forall>s \<in> set (sents n). cascades E S (sm_InternalMsg s) (rm_LamportTime (info n))) \<Longrightarrow>
     \<exists>h. \<forall>c. Some c \<in> set rs \<longrightarrow> within E S h c"
proof (induction m and rs rule: messages_messages_list.induct)
  case (1 i ss rs)
  then obtain h1 where h1: "\<forall>c. Some c \<in> set rs \<longrightarrow> within E S h1 c" by auto
  have each: "\<exists>h. sent_within E S (sm_InternalMsg s) (rm_LamportTime i) h" if "s \<in> set ss" for s
    using 1(2) that by (intro cascades_within) simp
  have "\<exists>h. \<forall>s \<in> set ss. sent_within E S (sm_InternalMsg s) (rm_LamportTime i) h"
    by (rule bound_exists) (erule each, erule (1) sent_within_mono)
  then obtain h2 where h2: "\<forall>s \<in> set ss. sent_within E S (sm_InternalMsg s) (rm_LamportTime i) h2" ..
  have "within E S (max h1 h2) c" if "Some c \<in> set rs" for c
    using h1 that within_mono [of h1 "max h1 h2"] by auto
  moreover have "sent_within E S (sm_InternalMsg s) (rm_LamportTime i) (max h1 h2)" if "s \<in> set ss" for s
    using h2 that sent_within_mono [of h2 "max h1 h2" E S] by simp
  ultimately have "within E S (Suc (max h1 h2)) (RM i ss rs)"
    by (auto simp: sent_within_def)
  then show ?case ..
next
  case (4 m rs)
  then obtain h1 h2 where h: "within E S h1 m" "\<forall>c. Some c \<in> set rs \<longrightarrow> within E S h2 c" by fastforce
  then have "\<forall>c. Some c \<in> set (Some m # rs) \<longrightarrow> within E S (max h1 h2) c"
    using within_mono [of h1 "max h1 h2" E S] within_mono [of h2 "max h1 h2" E S] by auto
  then show ?case ..
qed auto

lemma receive_loop_ends:
  "\<forall>s \<in> set ss. \<exists>r. find_received E s (S (im_DstAddr (sm_InternalMsg s)) (rm_LamportTime i)) = Some r \<Longrightarrow>
   \<exists>m' e. receive_loop E S i ss rs = Some (m', e)"
proof (induction ss arbitrary: rs)
  case (Cons s ss)
  then obtain r where "find_received E s (S (im_DstAddr (sm_InternalMsg s)) (rm_LamportTime i)) = Some r" by auto
  with Cons show ?case by (cases r) auto
qed simp

lemma wait_ends:
  assumes "within E S h m"
  shows "\<exists>m' e. WaitForOutgoingMessagesToBeReceived E S m = Some (m', e)"
proof -
  have "\<forall>s \<in> set (sents m). \<exists>r. find_received E s (S (im_DstAddr (sm_InternalMsg s)) (rm_LamportTime (info m))) = Some r"
    using assms by (cases h) auto
  then show ?thesis
    unfolding WaitForOutgoingMessagesToBeReceived_def by (rule receive_loop_ends)
qed

lemma wait_children:
  assumes "WaitForOutgoingMessagesToBeReceived E S m = Some (m', Inr u)" "Some c \<in> set (recvs m')" "within E S (Suc h) m"
  shows "within E S h c"
proof -
  from assms(1) obtain cs where cs: "list_all2 (\<lambda>s c. find_received E s (S (im_DstAddr (sm_InternalMsg s)) (rm_LamportTime (info m))) = Some (Inr c)) (sents m) cs"
    and m': "recvs m' = recvs m @ map Some cs"
    by (auto simp: wait_Inr)
  from assms(2) m' consider "Some c \<in> set (recvs m)" | "c \<in> set cs" by auto
  then show ?thesis
  proof cases
    case 2
    with cs obtain s where "s \<in> set (sents m)"
      "find_received E s (S (im_DstAddr (sm_InternalMsg s)) (rm_LamportTime (info m))) = Some (Inr c)"
      by (auto dest: list_all2_rightD)
    with assms(3) show ?thesis by auto
  qed (use assms(3) in simp)
qed

lemma wait_children_none:
  "WaitForOutgoingMessagesToBeReceived E S m = Some (m', Inr u) \<Longrightarrow> within E S 0 m \<Longrightarrow> recvs m' = []"
  by (auto simp: wait_Inr)

lemma node_at_put_incomparable:
  "\<not> prefix p r \<Longrightarrow> \<not> prefix r p \<Longrightarrow> node_at (put_at m p n) r = node_at m r"
proof (induction m p n arbitrary: r rule: put_at.induct)
  case (1 m n)
  then show ?case by simp
next
  case (2 m i p n)
  then show ?case by (cases r) (auto simp: nth_list_update split: option.splits if_splits)
qed

definition incomparable :: "nat list list \<Rightarrow> bool" where
  "incomparable = sorted_wrt (\<lambda>a b. \<not> prefix a b \<and> \<not> prefix b a)"

definition queue_bound ::
  "('a \<Rightarrow> 'a \<Rightarrow> bool) \<Rightarrow> ('a \<Rightarrow> u64 \<Rightarrow> ('a, 'c) Transaction list) \<Rightarrow> nat \<Rightarrow> ('a, 'c) ReceivedMessage \<Rightarrow> nat list list \<Rightarrow> bool" where
  "queue_bound E S h root queue =
     (\<forall>p\<in>set queue. \<forall>m. node_at root p = Some m \<longrightarrow> length p \<le> h \<and> within E S (h - length p) m)"

lemma incomparable_step:
  assumes "incomparable (p # q)"
  shows "incomparable (q @ map (\<lambda>i. p @ [i]) [0..<k])"
proof -
  from assms have q: "incomparable q" and p: "\<forall>r\<in>set q. \<not> prefix p r \<and> \<not> prefix r p"
    by (auto simp: incomparable_def)
  have "\<not> prefix r (p @ [i]) \<and> \<not> prefix (p @ [i]) r" if "r \<in> set q" for r i
    using p that by (auto simp: prefix_snoc dest: append_prefixD)
  moreover have "sorted_wrt (\<lambda>a b. \<not> prefix a b \<and> \<not> prefix b a) (map (\<lambda>i. p @ [i]) [0..<k])"
    by (simp add: sorted_wrt_map sorted_wrt_iff_nth_less)
  ultimately show ?thesis
    using q by (auto simp: incomparable_def sorted_wrt_append)
qed

lemma queue_bound_step:
  assumes inc: "incomparable (p # q)" and bound: "queue_bound E S h root (p # q)"
    and at: "node_at root p = Some m" and w: "WaitForOutgoingMessagesToBeReceived E S m = Some (m', Inr u)"
  shows "(recvs m' = [] \<or> length p < h) \<and>
    queue_bound E S h (put_at root p m') (q @ map (\<lambda>i. p @ [i]) [0..<length (recvs m')])"
proof
  from bound at have m: "length p \<le> h" "within E S (h - length p) m" by (simp_all add: queue_bound_def)
  show deeper: "recvs m' = [] \<or> length p < h"
    using m wait_children_none [OF w] by (cases "length p < h") auto
  show "queue_bound E S h (put_at root p m') (q @ map (\<lambda>i. p @ [i]) [0..<length (recvs m')])"
    unfolding queue_bound_def
  proof (intro ballI allI impI)
    fix r n
    assume r: "r \<in> set (q @ map (\<lambda>i. p @ [i]) [0..<length (recvs m')])"
      and n: "node_at (put_at root p m') r = Some n"
    from r consider "r \<in> set q" | i where "i < length (recvs m')" "r = p @ [i]" by auto
    then show "length r \<le> h \<and> within E S (h - length r) n"
    proof cases
      case 1
      with inc have "node_at (put_at root p m') r = node_at root r"
        by (intro node_at_put_incomparable) (auto simp: incomparable_def)
      with 1 n bound show ?thesis by (simp add: queue_bound_def)
    next
      case 2
      with n at have "Some n \<in> set (recvs m')"
        by (auto simp: node_at_put_at in_set_conv_nth split: option.splits)
      moreover have "h - length p = Suc (h - length r)" using deeper 2 by auto
      ultimately show ?thesis using 2 deeper wait_children [OF w, of n "h - length r"] m(2) by auto
    qed
  qed
qed

lemma queue_measure_step:
  assumes "k = 0 \<or> length p < h"
  shows "(mset (map (\<lambda>p. h - length p) (q @ map (\<lambda>i. p @ [i]) [0..<k])),
          mset (map (\<lambda>p. h - length p) (p # q))) \<in> mult less_than"
proof -
  let ?new = "mset (map (\<lambda>i. h - Suc (length p)) [0..<k])" and ?q = "mset (map (\<lambda>p. h - length p) q)"
  have "(?q + ?new, ?q + {#h - length p#}) \<in> mult less_than"
    using assms by (intro one_step_implies_mult) auto
  then show ?thesis by (simp add: comp_def)
qed

lemma trace_loop_returns:
  assumes "incomparable queue" "queue_bound E S h root queue"
  shows "\<exists>r. trace_loop E S root queue = Some r"
  using assms
proof (induction "mset (map (\<lambda>p. h - length p) queue)" arbitrary: queue root rule: wf_induct_rule [OF wf_mult [OF wf_less_than]])
  case 1
  show ?case
  proof (cases queue)
    case Nil
    then show ?thesis by (simp add: trace_loop.simps)
  next
    case (Cons p q)
    show ?thesis
    proof (cases "node_at root p")
      case None
      with Cons show ?thesis by (simp add: trace_loop.simps)
    next
      case (Some m)
      with 1(3) Cons have "within E S (h - length p) m" by (simp add: queue_bound_def)
      then obtain m' e where w: "WaitForOutgoingMessagesToBeReceived E S m = Some (m', e)" using wait_ends by blast
      show ?thesis
      proof (cases e)
        case (Inl x)
        with Cons Some w show ?thesis by (simp add: trace_loop.simps)
      next
        case (Inr u)
        let ?root = "put_at root p m'" and ?queue = "q @ map (\<lambda>i. p @ [i]) [0..<length (recvs m')]"
        from queue_bound_step [of p q E S h root m m' u] 1(2,3) Cons Some w Inr
        have less: "length (recvs m') = 0 \<or> length p < h" and bnd: "queue_bound E S h ?root ?queue" by auto
        then have dec: "(mset (map (\<lambda>p. h - length p) ?queue), mset (map (\<lambda>p. h - length p) queue)) \<in> mult less_than"
          using queue_measure_step [of "length (recvs m')" p h q] Cons by simp
        have inc: "incomparable ?queue" using 1(2) Cons incomparable_step by blast
        from 1(1) [OF dec inc bnd] obtain r where "trace_loop E S ?root ?queue = Some r" by blast
        with Cons Some w Inr show ?thesis by (simp add: trace_loop.simps [of E S root "p # q"])
      qed
    qed
  qed
qed

text \<open>What \<open>WaitForTrace\<close> returns, and that it returns.\<close>

lemma WaitForTrace_followed:
  assumes "sents m \<noteq> []" "WaitForTrace E S m = Some (m', Inr ())"
  shows "settled m'"
proof -
  from assms have "trace_loop E S m [[]] = Some (m', Inr ())" by (simp add: WaitForTrace_def Status_def split: if_splits)
  from trace_loop_settles [OF this trace_inv_start refl] show ?thesis .
qed

lemma WaitForTrace_settled:
  assumes "recvs m = []" "WaitForTrace E S m = Some (m', Inr ())"
  shows "settled m'"
proof (cases "sents m = []")
  case True
  with assms show ?thesis
    by (cases m) (auto simp: WaitForTrace_def settled_def Status_def)
qed (rule WaitForTrace_followed [OF _ assms(2)])

lemma WaitForTrace_ends:
  assumes "\<forall>n \<in> set (messages m). \<forall>s \<in> set (sents n). cascades E S (sm_InternalMsg s) (rm_LamportTime (info n))"
  shows "\<exists>r. WaitForTrace E S m = Some r"
proof -
  obtain h where "within E S h m" using messages_within(1) [OF assms] ..
  then have "\<exists>r. trace_loop E S m [[]] = Some r"
    by (intro trace_loop_returns [where h = h]) (auto simp: incomparable_def queue_bound_def)
  then show ?thesis by (simp add: WaitForTrace_def)
qed

lemma WaitForTrace_fresh_ends:
  assumes "recvs m = []" "\<forall>s \<in> set (sents m). cascades E S (sm_InternalMsg s) (rm_LamportTime (info m))"
  shows "\<exists>r. WaitForTrace E S m = Some r"
proof (rule WaitForTrace_ends)
  from assms(1) have "messages m = [m]" by (cases m) simp
  with assms(2) show "\<forall>n \<in> set (messages m). \<forall>s \<in> set (sents n). cascades E S (sm_InternalMsg s) (rm_LamportTime (info n))"
    by simp
qed

text \<open>The only errors are those of a received transaction that cannot be read, and a nil child of the root.\<close>

lemma find_received_readable:
  "\<forall>tx \<in> set txs. readable tx \<Longrightarrow> find_received E s txs \<noteq> Some (Inl e)"
proof
  assume *: "\<forall>tx \<in> set txs. readable tx" "find_received E s txs = Some (Inl e)"
  then obtain tx where tx: "find (answers E (sm_InternalMsg s)) txs = Some tx"
    and err: "wrapE ''failed to process incoming message'' (wrapE ''failed to parse sent message'' (MapToReceivedMessage tx)) = Inl e"
    by (auto simp: find_received_find split: option.splits)
  from err have "\<nexists>m. MapToReceivedMessage tx = Inr m" by auto
  note tx = tx this
  then have "tx \<in> set txs" "answers E (sm_InternalMsg s) tx" by (auto simp: find_Some_iff)
  with * tx(2) show False using readable_iff answers_In by metis
qed

lemma wait_readable:
  assumes "\<forall>a lt. \<forall>tx \<in> set (S a lt). readable tx" "WaitForOutgoingMessagesToBeReceived E S m = Some (m', e)"
  shows "e = Inr ()"
proof -
  have "find_received E s (S a lt) \<noteq> Some (Inl x)" for s a lt x
    using assms(1) by (intro find_received_readable) simp
  then have "receive_loop E S i ss rs = Some (m', e) \<Longrightarrow> e = Inr ()" for i ss rs
    by (induction ss arbitrary: rs) (auto split: option.splits sum.splits)
  with assms(2) show ?thesis by (simp add: WaitForOutgoingMessagesToBeReceived_def)
qed

definition queue_alive :: "('a, 'c) ReceivedMessage \<Rightarrow> nat list list \<Rightarrow> bool" where
  "queue_alive root queue = (\<forall>p \<in> set queue. \<exists>m. node_at root p = Some m \<and> no_nil m)"

lemma no_nil_RM: "no_nil (RM i ss rs) \<longleftrightarrow> None \<notin> set rs \<and> (\<forall>c. Some c \<in> set rs \<longrightarrow> no_nil c)"
proof -
  have "(\<forall>n \<in> set (messages_list rs). None \<notin> set (recvs n)) \<longleftrightarrow> (\<forall>c. Some c \<in> set rs \<longrightarrow> no_nil c)"
    unfolding no_nil_def
  proof (induction rs)
    case (Cons r rs)
    then show ?case by (cases r) (auto simp: ball_Un)
  qed simp
  then show ?thesis by (simp add: no_nil_def)
qed

lemma wait_no_nil:
  assumes "WaitForOutgoingMessagesToBeReceived E S m = Some (m', Inr u)" "no_nil m"
  shows "no_nil m'"
proof -
  from assms(1) obtain cs where "list_all2 (\<lambda>s c. find_received E s (S (im_DstAddr (sm_InternalMsg s)) (rm_LamportTime (info m))) = Some (Inr c)) (sents m) cs"
    and m': "m' = RM (info m) [] (recvs m @ map Some cs)"
    by (auto simp: wait_Inr)
  then have "\<forall>c \<in> set cs. recvs c = []" by (auto dest: list_all2_rightD find_received_recvs)
  note m' this
  moreover have "no_nil c" if "recvs c = []" for c :: "('a, 'b) ReceivedMessage"
    using that by (cases c) (simp add: no_nil_def)
  ultimately show ?thesis using assms(2) by (cases m) (auto simp: no_nil_RM)
qed

lemma queue_alive_step:
  assumes "incomparable (p # q)" "queue_alive root (p # q)" "node_at root p = Some m" "no_nil m'"
  shows "queue_alive (put_at root p m') (q @ map (\<lambda>i. p @ [i]) [0..<length (recvs m')])"
  unfolding queue_alive_def
proof
  fix r
  assume "r \<in> set (q @ map (\<lambda>i. p @ [i]) [0..<length (recvs m')])"
  then consider "r \<in> set q" | i where "i < length (recvs m')" "r = p @ [i]" by auto
  then show "\<exists>n. node_at (put_at root p m') r = Some n \<and> no_nil n"
  proof cases
    case 1
    with assms(1) have "node_at (put_at root p m') r = node_at root r"
      by (intro node_at_put_incomparable) (auto simp: incomparable_def)
    with 1 assms(2) show ?thesis by (simp add: queue_alive_def)
  next
    case 2
    then have "recvs m' ! i \<in> set (recvs m')" by simp
    moreover have "None \<notin> set (recvs m')" "\<forall>c. Some c \<in> set (recvs m') \<longrightarrow> no_nil c"
      using assms(4) by (cases m'; simp add: no_nil_RM)+
    ultimately obtain c where "recvs m' ! i = Some c" "no_nil c" by (metis option.exhaust)
    with 2 assms(3) show ?thesis by (simp add: node_at_put_at)
  qed
qed

lemma trace_loop_readable:
  assumes ret: "trace_loop E S root queue = Some r" and ok: "\<forall>a lt. \<forall>tx \<in> set (S a lt). readable tx"
    and q: "incomparable queue" "queue_alive root queue"
  shows "snd r = Inr ()"
proof -
  let ?P = "\<lambda>(E :: 'a \<Rightarrow> 'a \<Rightarrow> bool) (S :: 'a \<Rightarrow> u64 \<Rightarrow> ('a, 'b) Transaction list) root queue r.
    (\<forall>a lt. \<forall>tx \<in> set (S a lt). readable tx) \<longrightarrow> incomparable queue \<longrightarrow> queue_alive root queue \<longrightarrow> snd r = Inr ()"
  have "?P E S root queue r"
  proof (rule trace_loop.raw_induct [where P = ?P, OF _ ret], intro impI)
    fix f E S root queue r
    assume IH: "\<And>E S root queue r. f E S root queue = Some r \<Longrightarrow> ?P E S root queue r"
      and eq: "(case queue of
       [] \<Rightarrow> Some (root, Inr ())
     | p # q \<Rightarrow> (case node_at root p of
           None \<Rightarrow> Some (root, Inl (Panic ''nil pointer dereference''))
         | Some m \<Rightarrow>
            (case WaitForOutgoingMessagesToBeReceived E S m of
               None \<Rightarrow> None
             | Some (m', Inl e) \<Rightarrow> Some (put_at root p m', wrapE ''failed to wait for outgoing messages'' (Inl e))
             | Some (m', Inr _) \<Rightarrow> f E S (put_at root p m') (q @ map (\<lambda>i. p @ [i]) [0..<length (recvs m')])))) = Some r"
      and h: "\<forall>a lt. \<forall>tx \<in> set (S a lt). readable tx" "incomparable queue" "queue_alive root queue"
    show "snd r = Inr ()"
    proof (cases queue)
      case Nil
      with eq show ?thesis by auto
    next
      case (Cons p q)
      with h(3) obtain m where m: "node_at root p = Some m" "no_nil m" by (auto simp: queue_alive_def)
      with eq Cons obtain m' e where w: "WaitForOutgoingMessagesToBeReceived E S m = Some (m', e)"
        by (auto split: option.splits)
      have e: "e = Inr ()" using wait_readable [OF h(1) w] .
      with eq Cons m w have "f E S (put_at root p m') (q @ map (\<lambda>i. p @ [i]) [0..<length (recvs m')]) = Some r"
        by simp
      moreover have "no_nil m'" using wait_no_nil w e m(2) by blast
      ultimately show ?thesis
        using IH h Cons incomparable_step queue_alive_step [OF _ _ m(1)] by blast
    qed
  qed
  with ok q show ?thesis by blast
qed

lemma WaitForTrace_readable:
  assumes "WaitForTrace E S m = Some (m', e)" "\<forall>a lt. \<forall>tx \<in> set (S a lt). readable tx" "no_nil m"
  shows "e = Inr ()"
  using assms trace_loop_readable [of E S m "[[]]" "(m', e)"]
  by (auto simp: WaitForTrace_def incomparable_def queue_alive_def split: if_splits)

lemma settled_Status: "settled m \<Longrightarrow> (\<forall>n \<in> set (messages m). Status n = Finalized) \<and> no_nil m"
  by (simp add: settled_def no_nil_def Status_def)

text \<open>A message that is never received blocks the wait.\<close>

lemma WaitForTrace_stuck:
  assumes "sents m = s # ss"
    and "\<forall>tx \<in> set (S (im_DstAddr (sm_InternalMsg s)) (rm_LamportTime (info m))). \<not> answers E (sm_InternalMsg s) tx"
  shows "WaitForTrace E S m = None"
proof -
  from assms(2) have "find (answers E (sm_InternalMsg s)) (S (im_DstAddr (sm_InternalMsg s)) (rm_LamportTime (info m))) = None"
    by (simp add: find_None_iff)
  with assms(1) have "WaitForOutgoingMessagesToBeReceived E S m = None"
    by (simp add: WaitForOutgoingMessagesToBeReceived_def find_received_find)
  with assms(1) show ?thesis by (simp add: WaitForTrace_def Status_def trace_loop.simps [of E S m "[[]]"])
qed

text \<open>Following a trace changes nothing of its root but the messages it has received.\<close>

lemma put_at_root:
  "p \<noteq> [] \<Longrightarrow> info (put_at m p n) = info m \<and> length (recvs (put_at m p n)) = length (recvs m)"
  by (cases p) (auto split: option.splits)

lemma trace_loop_root:
  assumes ret: "trace_loop E S root queue = Some r" and below: "[] \<notin> set queue" and ok: "r = (m', e)"
  shows "info m' = info root \<and> length (recvs m') = length (recvs root)"
proof -
  let ?P = "\<lambda>root queue r. [] \<notin> set queue \<longrightarrow>
    (\<forall>m' e. r = (m', e) \<longrightarrow> info m' = info root \<and> length (recvs m') = length (recvs root))"
  have "?P root queue r"
  proof (rule trace_loop.raw_induct [where P = "\<lambda>E S. ?P", OF _ ret])
    fix f E S root queue r
    assume IH: "\<And>E S root queue r. f E S root queue = Some r \<Longrightarrow> ?P root queue r"
      and eq: "(case queue of
       [] \<Rightarrow> Some (root, Inr ())
     | p # q \<Rightarrow> (case node_at root p of
           None \<Rightarrow> Some (root, Inl (Panic ''nil pointer dereference''))
         | Some m \<Rightarrow>
            (case WaitForOutgoingMessagesToBeReceived E S m of
               None \<Rightarrow> None
             | Some (m', Inl e) \<Rightarrow> Some (put_at root p m', wrapE ''failed to wait for outgoing messages'' (Inl e))
             | Some (m', Inr _) \<Rightarrow> f E S (put_at root p m') (q @ map (\<lambda>i. p @ [i]) [0..<length (recvs m')])))) = Some r"
    show "?P root queue r"
      using eq by (auto split: list.splits option.splits sum.splits dest!: IH simp: put_at_root)
  qed
  with below ok show ?thesis by blast
qed

lemma wait_root:
  assumes "WaitForOutgoingMessagesToBeReceived E S m = Some (m', Inr u)"
  shows "info m' = info m \<and> length (recvs m') = length (sents m) + length (recvs m)"
  using assms by (auto simp: wait_Inr dest: list_all2_lengthD)

lemma WaitForTrace_root:
  assumes "WaitForTrace E S m = Some (m', Inr ())"
  shows "info m' = info m \<and> length (recvs m') = length (sents m) + length (recvs m)"
proof (cases "Status m = Finalized")
  case True
  with assms show ?thesis by (auto simp: WaitForTrace_def Status_def split: if_splits)
next
  case False
  with assms have "trace_loop E S m [[]] = Some (m', Inr ())" by (simp add: WaitForTrace_def)
  then obtain m1 u where m1: "WaitForOutgoingMessagesToBeReceived E S m = Some (m1, Inr u)"
    and l: "trace_loop E S m1 (map (\<lambda>i. [i]) [0..<length (recvs m1)]) = Some (m', Inr ())"
    by (subst (asm) trace_loop.simps) (auto split: option.splits sum.splits)
  note wait_root [OF m1]
  moreover have "[] \<notin> set (map (\<lambda>i. [i]) [0..<length (recvs m1)])" by auto
  ultimately show ?thesis using trace_loop_root [OF l _ refl] by simp
qed

section \<open>Summaries: lemmas\<close>

lemma outcome_loop_messages:
  assumes "\<forall>n \<in> set (messages_list st). None \<notin> set (recvs n)" "None \<notin> set st"
  shows "outcome_loop st = Inr (case find (\<lambda>n. \<not> rm_Success (info n)) (messages_list st) of
           None \<Rightarrow> ExitCodeSuccess | Some n \<Rightarrow> rm_ExitCode (info n))"
  using assms
proof (induction st rule: outcome_loop.induct)
  case (3 m st)
  obtain i ss rs where m: "m = RM i ss rs" by (cases m)
  have app: "messages_list (xs @ ys) = messages_list xs @ messages_list ys" for xs ys :: "('a, 'b) ReceivedMessage option list"
  proof (induction xs)
    case (Cons x xs)
    then show ?case by (cases x) auto
  qed simp
  show ?case
  proof (cases "rm_Success i")
    case True
    with 3 m app have "outcome_loop (rs @ st) = Inr (case find (\<lambda>n. \<not> rm_Success (info n)) (messages_list (rs @ st)) of
           None \<Rightarrow> ExitCodeSuccess | Some n \<Rightarrow> rm_ExitCode (info n))" by auto
    with True m app show ?thesis by simp
  next
    case False
    with m show ?thesis by simp
  qed
qed auto

lemma TraceSucceeded_messages:
  fixes m :: "('a, 'c) ReceivedMessage" and rs :: "('a, 'c) ReceivedMessage option list"
  shows "(\<forall>n \<in> set (messages m). None \<notin> set (recvs n)) \<Longrightarrow>
     TraceSucceeded m = Inr (\<forall>n \<in> set (messages m). rm_Success (info n))"
  "(\<forall>n \<in> set (messages_list rs). None \<notin> set (recvs n)) \<Longrightarrow> None \<notin> set rs \<Longrightarrow>
     traces_succeeded rs = Inr (\<forall>n \<in> set (messages_list rs). rm_Success (info n))"
  by (induction m and rs rule: TraceSucceeded_traces_succeeded.induct) auto

section \<open>Properties\<close>

text \<open>
  The fees of a mapped transaction add up: import, gas, storage and action fees together with
  the unexplained \<open>MagicFee\<close> are exactly the total fees the transaction reports, whatever
  phases it went through.
\<close>

theorem MapToReceivedMessage_fees:
  assumes "MapToReceivedMessage tx = Inr m"
  shows "rm_ImportFee (info m) + rm_GasFee (info m) + rm_StorageFeeCharged (info m)
           + rm_TotalActionFees (info m) + rm_MagicFee (info m) = tx_TotalFees tx"
proof -
  obtain msg where msg: "tx_In tx = Some msg" using MapToReceivedMessage_In assms by blast
  let ?i = "apply_description (tx_Description tx) (initial_info msg tx)"
  have "rm_ImportFee ?i + rm_GasFee ?i + rm_StorageFeeCharged ?i + rm_TotalActionFees ?i + rm_MagicFee ?i = tx_TotalFees tx"
    by (subst apply_description_fees) (simp_all add: initial_info_def Let_def)
  then show ?thesis
    using assms by (auto simp: MapToReceivedMessage_eq [OF msg] Let_def split: option.splits sum.splits if_splits)
qed

definition sample_internal :: "nat \<Rightarrow> nat \<Rightarrow> u64 \<Rightarrow> (nat, nat) InternalMessage" where
  "sample_internal src dst lt =
     \<lparr>im_SrcAddr = src, im_DstAddr = dst, im_Amount = 100, im_FwdFee = 7, im_CreatedLT = lt, im_Bounced = False, im_Body = None\<rparr>"

definition sample_tx :: "nat \<Rightarrow> nat \<Rightarrow> u64 \<Rightarrow> (nat, nat) Message list \<Rightarrow> (nat, nat) Transaction" where
  "sample_tx src dst lt outs =
     \<lparr>tx_Hash = [], tx_LT = lt + 1, tx_PrevTxLT = 0, tx_PrevTxHash = [],
      tx_In = Some (MsgInternal (sample_internal src dst lt)), tx_Out = Some (Inr outs), tx_TotalFees = 60,
      tx_Description = DescOrdinary \<lparr>d_BouncePhase = None, d_ComputePhase = ComputePhaseVM True 0 30,
        d_StoragePhase = Some 5, d_ActionPhase = Some (Some 11)\<rparr>\<rparr>"

lemmas sample_simps = sample_internal_def sample_tx_def MapToReceivedMessage_def initial_info_def
  apply_description_def NewSentMessage_def AppendSentMessage_def Let_def

theorem MapToReceivedMessage_fees_witness:
  "\<exists>m. MapToReceivedMessage (sample_tx 1 2 10 [MsgInternal (sample_internal 2 3 11)]) = Inr m \<and>
     rm_ImportFee (info m) + rm_GasFee (info m) + rm_StorageFeeCharged (info m)
       + rm_TotalActionFees (info m) + rm_MagicFee (info m) = 60 \<and> rm_MagicFee (info m) = 14"
proof -
  let ?tx = "sample_tx 1 2 10 [MsgInternal (sample_internal 2 3 11)]"
  obtain m where m: "MapToReceivedMessage ?tx = Inr m" "rm_MagicFee (info m) = 14" by (simp add: sample_simps)
  from MapToReceivedMessage_fees [OF m(1)] m show ?thesis by (auto simp: sample_tx_def)
qed

text \<open>
  Every outgoing internal message of a transaction becomes exactly one sent message, in
  order, and every outgoing external message one event; the forward fees charged to the sender
  are their sum; the new message is \<open>Finalized\<close> precisely when there is nothing to follow.
  A transaction whose outputs contain an inbound external message panics.
\<close>

theorem MapToReceivedMessage_outgoing:
  assumes "tx_In tx = Some msg" "tx_Out tx = Some (Inr outs)"
  shows "if has_external_in outs
    then MapToReceivedMessage tx =
      Inl (Panic ''ReceivedMessage should not contain external in messages, only external out messages'')
    else \<exists>m. MapToReceivedMessage tx = Inr m \<and> recvs m = [] \<and>
      sents m = map NewSentMessage (internal_outs outs) \<and>
      rm_MsgFeesChargedToSender (info m) = sum_list (map im_FwdFee (internal_outs outs)) \<and>
      rm_OutgoingExternalMessages (info m) =
        map (\<lambda>e. \<lparr>oe_CreatedAt = eo_CreatedAt e, oe_LT = eo_CreatedLT e, oe_Body = eo_Body e\<rparr>) (external_outs outs) \<and>
      Status m = (if internal_outs outs = [] then Finalized else Received)"
proof -
  have "rm_MsgFeesChargedToSender (apply_description d (initial_info msg tx)) = 0"
    "rm_OutgoingExternalMessages (apply_description d (initial_info msg tx)) = []" for d
    by (simp_all add: apply_description_def initial_info_def Let_def
        split: TxDescription.split ComputePhase.split option.split)
  then show ?thesis
    by (simp add: MapToReceivedMessage_eq [OF assms(1)] assms(2) Let_def Status_def)
qed

theorem MapToReceivedMessage_outgoing_witness:
  "\<exists>m. MapToReceivedMessage (sample_tx 1 2 10 [MsgInternal (sample_internal 2 3 11)]) = Inr m \<and>
     sents m = [NewSentMessage (sample_internal 2 3 11)] \<and> rm_MsgFeesChargedToSender (info m) = 7 \<and> Status m = Received"
  using MapToReceivedMessage_outgoing
    [of "sample_tx 1 2 10 [MsgInternal (sample_internal 2 3 11)]" "MsgInternal (sample_internal 1 2 10)"
        "[MsgInternal (sample_internal 2 3 11)]"]
  by (auto simp: sample_tx_def has_external_in_def) (auto simp: sample_internal_def)

text \<open>
  \<open>TotalActionPhaseFees\<close> is not a pure query: it adds the forward fees of the outgoing
  messages into the message's own \<open>TotalActionFees\<close>, so a second call reports them twice.
\<close>

theorem TotalActionPhaseFees_accumulates:
  assumes "None \<notin> set (recvs m)"
    and "fwd = sum_list (map sm_FwdFee (sents m)) + sum_list (map (\<lambda>r. rm_FwdFee (info (the r))) (recvs m))"
  shows "\<exists>m1 m2. TotalActionPhaseFees m = Inr (m1, rm_TotalActionFees (info m) + fwd) \<and>
    TotalActionPhaseFees m1 = Inr (m2, rm_TotalActionFees (info m) + 2 * fwd)"
  using assms
  by (cases m) (auto simp: TotalActionPhaseFees_def Let_def algebra_simps)

definition sample_trace :: "bool \<Rightarrow> bool \<Rightarrow> (nat, nat) ReceivedMessage" where
  "sample_trace a b =
     (let i = info (projr (MapToReceivedMessage (sample_tx 1 2 10 [])));
          leaf = RM (i\<lparr>rm_Success := b, rm_ExitCode := 9\<rparr>) [] []
      in RM (i\<lparr>rm_Success := a, rm_ExitCode := 37\<rparr>) [] [Some leaf])"

theorem TotalActionPhaseFees_accumulates_witness:
  "\<exists>m1 m2. TotalActionPhaseFees (sample_trace True True) = Inr (m1, 18) \<and> TotalActionPhaseFees m1 = Inr (m2, 25)"
proof -
  have "None \<notin> set (recvs (sample_trace True True))" by (simp add: sample_trace_def Let_def)
  from TotalActionPhaseFees_accumulates [OF this refl] show ?thesis
    by (simp add: sample_trace_def sample_simps)
qed

text \<open>
  The two summaries of a trace agree on which message decides. Without nil children, the
  trace succeeded iff every message in it did, and the outcome exit code is that of the first
  unsuccessful message in depth-first order (the success code if there is none).
\<close>

theorem trace_summaries:
  assumes "no_nil m"
  shows "TraceSucceeded m = Inr (\<forall>n \<in> set (messages m). rm_Success (info n)) \<and>
    OutcomeExitCode (Some m) = Inr (case find (\<lambda>n. \<not> rm_Success (info n)) (messages m) of
      None \<Rightarrow> ExitCodeSuccess | Some n \<Rightarrow> rm_ExitCode (info n))"
  using assms TraceSucceeded_messages(1) [of m] outcome_loop_messages [of "[Some m]"]
  by (simp add: no_nil_def OutcomeExitCode_def)

theorem trace_summaries_witness:
  "TraceSucceeded (sample_trace True False) = Inr False \<and> OutcomeExitCode (Some (sample_trace True False)) = Inr 9"
proof -
  have "no_nil (sample_trace True False)" by (simp add: no_nil_def sample_trace_def Let_def)
  from trace_summaries [OF this] show ?thesis by (simp add: sample_trace_def Let_def)
qed

text \<open>
  C8: When \<open>WaitForTrace\<close> returns without an error, the whole cascade has been followed: no
  message of the trace has an outgoing message left to wait for, and no child is missing. This holds for every
  message that still has outgoing messages to wait for, and for a message fresh from \<open>MapToReceivedMessage\<close> (which
  has received nothing yet). A message without outgoing messages of its own is returned as it is: whatever its
  children still wait for, \<open>WaitForTrace\<close> does not look at them.
\<close>

theorem WaitForTrace_settles:
  assumes "WaitForTrace Equals SubscribeToTransactions m = Some (m', Inr ())"
  shows "(sents m \<noteq> [] \<or> recvs m = [] \<longrightarrow> (\<forall>n \<in> set (messages m'). Status n = Finalized) \<and> no_nil m') \<and>
    (sents m = [] \<longrightarrow> m' = m)"
proof (intro conjI impI)
  assume "sents m \<noteq> [] \<or> recvs m = []"
  then have "settled m'" using WaitForTrace_followed WaitForTrace_settled assms by blast
  then show "(\<forall>n \<in> set (messages m'). Status n = Finalized)" "no_nil m'" using settled_Status by blast+
next
  assume "sents m = []"
  with assms show "m' = m" by (simp add: WaitForTrace_def Status_def)
qed

text \<open>
  C19: \<open>WaitForTrace\<close> returns whenever the network delivers the trace: for every outgoing message of the trace so
  far the subscription to its destination delivers an answering transaction, and so on for the messages those
  send, through finite chains (\<open>cascades\<close>). If all delivered transactions can be read and no child of the message is nil, it
  returns without an error. Conversely, if the message's first outgoing message is never received, it waits for ever.
\<close>

theorem WaitForTrace_returns:
  "((\<forall>n \<in> set (messages m). \<forall>s \<in> set (sents n).
       cascades Equals SubscribeToTransactions (sm_InternalMsg s) (rm_LamportTime (info n))) \<longrightarrow>
     (\<exists>m' e. WaitForTrace Equals SubscribeToTransactions m = Some (m', e) \<and>
       ((\<forall>a lt. \<forall>tx \<in> set (SubscribeToTransactions a lt). readable tx) \<longrightarrow> no_nil m \<longrightarrow> e = Inr ()))) \<and>
   (\<forall>s ss. sents m = s # ss \<longrightarrow>
     (\<forall>tx \<in> set (SubscribeToTransactions (im_DstAddr (sm_InternalMsg s)) (rm_LamportTime (info m))).
        \<not> answers Equals (sm_InternalMsg s) tx) \<longrightarrow>
     WaitForTrace Equals SubscribeToTransactions m = None)"
proof (intro conjI allI impI)
  assume "\<forall>n \<in> set (messages m). \<forall>s \<in> set (sents n).
    cascades Equals SubscribeToTransactions (sm_InternalMsg s) (rm_LamportTime (info n))"
  then obtain m' e where "WaitForTrace Equals SubscribeToTransactions m = Some (m', e)"
    using WaitForTrace_ends by fastforce
  then show "\<exists>m' e. WaitForTrace Equals SubscribeToTransactions m = Some (m', e) \<and>
      ((\<forall>a lt. \<forall>tx \<in> set (SubscribeToTransactions a lt). readable tx) \<longrightarrow> no_nil m \<longrightarrow> e = Inr ())"
    using WaitForTrace_readable by blast
qed (rule WaitForTrace_stuck)

text \<open>
  A call that fails is not repeated by calling again: if it failed below the message itself (whose own
  outgoing messages had all been received), a second call on the same message reports success at once, whatever
  the network then delivers, and leaves the trace as incomplete as it is.
\<close>

theorem WaitForTrace_second_call:
  assumes "WaitForTrace Equals SubscribeToTransactions m = Some (m', Inl e)" "sents m' = []"
  shows "WaitForTrace Equals' SubscribeToTransactions' m' = Some (m', Inr ())"
  using assms by (simp add: WaitForTrace_def Status_def)

text \<open>A concrete chain: account 2 answers a message to account 3, which sends nothing more.\<close>

definition sample_chain :: "nat \<Rightarrow> u64 \<Rightarrow> (nat, nat) Transaction list" where
  "sample_chain a lt = (if a = 3 then [sample_tx 9 3 5 [], sample_tx 2 3 11 []] else [])"

lemmas sample_wait_simps = sample_simps WaitForTrace_def Status_def trace_loop.simps sample_chain_def
  WaitForOutgoingMessagesToBeReceived_def MapToReceivedMessageIfMatches_def MatchesReceived_def

theorem WaitForTrace_settles_witness:
  "\<exists>m m'. MapToReceivedMessage (sample_tx 1 2 10 [MsgInternal (sample_internal 2 3 11)]) = Inr m \<and>
     WaitForTrace (=) sample_chain m = Some (m', Inr ()) \<and> length (messages m') = 2 \<and>
     (\<forall>n \<in> set (messages m'). Status n = Finalized) \<and> no_nil m'"
proof -
  obtain m where m: "MapToReceivedMessage (sample_tx 1 2 10 [MsgInternal (sample_internal 2 3 11)]) = Inr m" "recvs m = []"
    by (simp add: sample_simps)
  obtain m' where m': "WaitForTrace (=) sample_chain m = Some (m', Inr ())" "length (messages m') = 2"
    using m by (auto simp: sample_wait_simps)
  from WaitForTrace_settles [OF m'(1)] m m' show ?thesis by blast
qed

lemma sample_cascades: "cascades (=) sample_chain (sample_internal 2 3 11) lt"
  by (rule cascade) (auto simp: sample_chain_def answers_def sample_tx_def sample_internal_def tx_internals_def)

theorem WaitForTrace_returns_witness:
  "\<exists>m m'. MapToReceivedMessage (sample_tx 1 2 10 [MsgInternal (sample_internal 2 3 11)]) = Inr m \<and>
     WaitForTrace (=) sample_chain m = Some (m', Inr ()) \<and> WaitForTrace (=) (\<lambda>a lt. []) m = None"
proof -
  obtain m where m: "MapToReceivedMessage (sample_tx 1 2 10 [MsgInternal (sample_internal 2 3 11)]) = Inr m"
    "recvs m = []" "sents m = [NewSentMessage (sample_internal 2 3 11)]"
    by (simp add: sample_simps)
  have "\<forall>n \<in> set (messages m). \<forall>s \<in> set (sents n). cascades (=) sample_chain (sm_InternalMsg s) (rm_LamportTime (info n))"
    using m(2,3) by (cases m) (simp add: NewSentMessage_def sample_cascades)
  with WaitForTrace_returns [of m "(=)" sample_chain]
  have returns: "\<exists>m' e. WaitForTrace (=) sample_chain m = Some (m', e) \<and>
    ((\<forall>a lt. \<forall>tx \<in> set (sample_chain a lt). readable tx) \<longrightarrow> no_nil m \<longrightarrow> e = Inr ())" by blast
  have "\<forall>a lt. \<forall>tx \<in> set (sample_chain a lt). readable tx"
    by (simp add: sample_chain_def sample_tx_def readable_def has_external_in_def)
  moreover have "no_nil m" using m(2) by (cases m) (simp add: no_nil_def)
  ultimately obtain m' where "WaitForTrace (=) sample_chain m = Some (m', Inr ())" using returns by blast
  moreover have "WaitForTrace (=) (\<lambda>a lt. []) m = None"
    using conjunct2 [OF WaitForTrace_returns [of m "(=)" "\<lambda>a lt. []"]] m(3) by simp
  ultimately show ?thesis using m(1) by blast
qed

end
