(* ===== verification/Log_Collector.thy ===== *)
theory Log_Collector
  imports Trace
begin

text \<open>
  The collector of external messages (\<open>pkg/logpoller/loader.go\<close>). For an account it determines
  the range of logical times between two blocks and pages backwards through the account's
  transactions; accounts are scanned concurrently.

  The liteclient is an argument, as the record of the calls the collector makes. The paging loop
  is a partial function: \<open>None\<close> is a scan that never ends. The order in which the goroutines of
  \<open>BackfillForAddresses\<close> append their messages is an oracle, with the contract \<open>go_range\<close>.
\<close>

section \<open>Data\<close>

record BlockIDExt =
  b_Workchain :: i32
  b_Shard :: "64 word"
  b_SeqNo :: u32

record Account =
  acc_LastTxLT :: u64
  acc_LastTxHash :: bytes

datatype list_err = ErrNoTransactionsWereFound | ListErr gerr

record ('a, 'c) CollectorClient =
  cl_GetAccount :: "BlockIDExt \<Rightarrow> 'a \<Rightarrow> Account res"
  cl_WaitGetAccount :: "u32 \<Rightarrow> BlockIDExt \<Rightarrow> 'a \<Rightarrow> Account res" \<comment> \<open>WaitForBlock(seqno).GetAccount\<close>
  cl_ListTransactions :: "'a \<Rightarrow> u32 \<Rightarrow> u64 \<Rightarrow> bytes \<Rightarrow> ('a, 'c) Transaction list \<times> list_err option"

record ('a, 'c) MsgWithCtx =
  mc_TxHash :: bytes
  mc_LT :: u64
  mc_Msg :: "('a, 'c) ExternalMessageOut"

section \<open>Operations\<close>

text \<open>Start and end of the range and the hash of its last transaction.\<close>

definition getTransactionBounds ::
  "('a, 'c) CollectorClient \<Rightarrow> ('a \<Rightarrow> string) \<Rightarrow> 'a \<Rightarrow> BlockIDExt option \<Rightarrow> BlockIDExt \<Rightarrow> (u64 \<times> u64 \<times> bytes) res" where
  "getTransactionBounds client String addr prevBlock toBlock =
     bindE (case prevBlock of
              None \<Rightarrow> Inr 0
            | Some b \<Rightarrow> if b_SeqNo b > 0 then
                           (case cl_GetAccount client b addr of
                              Inl accErr \<Rightarrow> if is_panic accErr then Inl accErr else Inr 0
                            | Inr accPrev \<Rightarrow> Inr (acc_LastTxLT accPrev))
                         else Inr 0) (\<lambda>startLT.
     bindE (wrapE (''failed to get account state for '' @ String addr @ '' in block '' @ show_nat (unat (b_SeqNo toBlock)))
              (cl_WaitGetAccount client (b_SeqNo toBlock) toBlock addr)) (\<lambda>acc.
     Inr (startLT, acc_LastTxLT acc, acc_LastTxHash acc)))"

text \<open>The external messages of a transaction that have a body; an error of \<open>ToSlice\<close> is ignored.\<close>

definition tx_events :: "('a, 'c) Transaction \<Rightarrow> ('a, 'c) MsgWithCtx list" where
  "tx_events tx = (case tx_Out tx of
       Some (Inr msgs) \<Rightarrow> concat (map (\<lambda>msg. case msg of
            MsgExternalOut ext \<Rightarrow>
              if eo_Body ext \<noteq> None then [\<lparr>mc_TxHash = tx_Hash tx, mc_LT = tx_LT tx, mc_Msg = ext\<rparr>] else []
          | _ \<Rightarrow> []) msgs)
     | _ \<Rightarrow> [])"

text \<open>The body of the loop over a batch.\<close>

definition batch_events :: "u64 \<Rightarrow> ('a, 'c) Transaction list \<Rightarrow> ('a, 'c) MsgWithCtx list" where
  "batch_events startLT batch = concat (map (\<lambda>tx. if tx_LT tx \<le> startLT \<or> tx_Out tx = None then [] else tx_events tx) batch)"

partial_function (option) fetch_loop ::
  "('a, 'c) CollectorClient \<Rightarrow> u32 \<Rightarrow> 'a \<Rightarrow> u64 \<Rightarrow> u64 \<Rightarrow> bytes \<Rightarrow> ('a, 'c) MsgWithCtx list \<Rightarrow>
   ('a, 'c) MsgWithCtx list res option" where
  "fetch_loop client pageSize addr startLT curLT curHash msgsWithCtx =
     (let (batch, err) = cl_ListTransactions client addr pageSize curLT curHash
      in if err = Some ErrNoTransactionsWereFound \<or> batch = [] then Some (Inr msgsWithCtx)
         else (case err of
                 Some (ListErr e) \<Rightarrow> Some (wrapE ''ListTransactions'' (Inl e))
               | _ \<Rightarrow>
                  let msgsWithCtx' = msgsWithCtx @ batch_events startLT batch
                  in if tx_LT (hd batch) \<le> startLT then Some (Inr msgsWithCtx')
                     else fetch_loop client pageSize addr startLT (tx_PrevTxLT (hd batch)) (tx_PrevTxHash (hd batch)) msgsWithCtx'))"

definition fetchMessagesForAddress ::
  "('a, 'c) CollectorClient \<Rightarrow> ('a \<Rightarrow> string) \<Rightarrow> u32 \<Rightarrow> BlockIDExt option \<Rightarrow> BlockIDExt \<Rightarrow> 'a \<Rightarrow>
   ('a, 'c) MsgWithCtx list res option" where
  "fetchMessagesForAddress client String pageSize prevBlock toBlock addr =
     (if (case prevBlock of None \<Rightarrow> False | Some b \<Rightarrow> b_SeqNo b \<ge> b_SeqNo toBlock)
      then Some (Inl (Err (''prevBlock '' @ show_nat (unat (b_SeqNo (the prevBlock))) @ '' is not before toBlock ''
                           @ show_nat (unat (b_SeqNo toBlock)))))
      else (case getTransactionBounds client String addr prevBlock toBlock of
              Inl e \<Rightarrow> Some (Inl e)
            | Inr (startLT, endLT, endHash) \<Rightarrow>
                if startLT \<ge> endLT then Some (Inr [])
                else fetch_loop client pageSize addr startLT endLT endHash []))"

text \<open>
  The goroutines: a scan that never ends blocks \<open>wg.Wait\<close>, a panic in one ends the program, an
  error is logged and dropped.
\<close>

definition BackfillForAddresses ::
  "(('a \<times> ('a, 'c) MsgWithCtx list) list \<Rightarrow> ('a \<times> ('a, 'c) MsgWithCtx list) list) \<Rightarrow>
   ('a, 'c) CollectorClient \<Rightarrow> ('a \<Rightarrow> string) \<Rightarrow> u32 \<Rightarrow> 'a list \<Rightarrow> BlockIDExt option \<Rightarrow> BlockIDExt \<Rightarrow>
   ('a, 'c) MsgWithCtx list res option" where
  "BackfillForAddresses order client String pageSize addresses prevBlock toBlock =
     (let fetched = map (\<lambda>addr. (addr, fetchMessagesForAddress client String pageSize prevBlock toBlock addr)) addresses
      in if \<exists>(addr, r) \<in> set fetched. r = None then None
         else (case find (\<lambda>(addr, r). case r of Some (Inl e) \<Rightarrow> is_panic e | _ \<Rightarrow> False) fetched of
                 Some (addr, Some (Inl e)) \<Rightarrow> Some (Inl e)
               | _ \<Rightarrow> Some (Inr (concat (map snd (order
                   (concat (map (\<lambda>(addr, r). case r of Some (Inr msgs) \<Rightarrow> [(addr, msgs)] | _ \<Rightarrow> []) fetched))))))))"

section \<open>A node that serves an account's history\<close>

text \<open>
  The history of an account, oldest transaction first: logical times ascend from above 0 and each
  transaction points to the one before it.
\<close>

definition history_ok :: "('a, 'c) Transaction list \<Rightarrow> bool" where
  "history_ok chain = (sorted_wrt (<) (map tx_LT chain) \<and> (\<forall>t \<in> set chain. tx_LT t > 0) \<and>
     (\<forall>i. Suc i < length chain \<longrightarrow> tx_PrevTxLT (chain ! Suc i) = tx_LT (chain ! i) \<and> tx_PrevTxHash (chain ! Suc i) = tx_Hash (chain ! i)) \<and>
     (chain \<noteq> [] \<longrightarrow> tx_PrevTxLT (hd chain) = 0))"

text \<open>
  The documented behaviour of \<open>ListTransactions\<close>: up to \<open>limit\<close> transactions ending at the one
  with the given time and hash, oldest first, and no transactions before the first one.
\<close>

definition serves :: "('a, 'c) CollectorClient \<Rightarrow> 'a \<Rightarrow> ('a, 'c) Transaction list \<Rightarrow> bool" where
  "serves client addr chain = ((\<forall>limit i. i < length chain \<longrightarrow>
       cl_ListTransactions client addr limit (tx_LT (chain ! i)) (tx_Hash (chain ! i)) =
         (drop (Suc i - unat limit) (take (Suc i) chain), None)) \<and>
     (\<forall>limit h. cl_ListTransactions client addr limit 0 h = ([], Some ErrNoTransactionsWereFound)))"

lemma history_LT_mono:
  "history_ok chain \<Longrightarrow> i < j \<Longrightarrow> j < length chain \<Longrightarrow> tx_LT (chain ! i) < tx_LT (chain ! j)"
  by (simp add: history_ok_def sorted_wrt_iff_nth_less)

lemma batch_events_append [simp]: "batch_events s (xs @ ys) = batch_events s xs @ batch_events s ys"
  by (simp add: batch_events_def)

lemma batch_events_old: "(\<And>t. t \<in> set ts \<Longrightarrow> tx_LT t \<le> s) \<Longrightarrow> batch_events s ts = []"
  by (auto simp: batch_events_def)

lemma batch_events_new: "(\<And>t. t \<in> set ts \<Longrightarrow> s < tx_LT t) \<Longrightarrow> batch_events s ts = concat (map tx_events ts)"
  unfolding batch_events_def by (intro arg_cong [where f = concat] map_cong) (auto simp: tx_events_def dest: leD)

lemma hd_batch: "0 < n \<Longrightarrow> i < length chain \<Longrightarrow> hd (drop (Suc i - n) (take (Suc i) chain)) = chain ! (Suc i - n)"
  by (simp add: hd_drop_conv_nth)

lemma fetch_loop_complete:
  assumes "history_ok chain" "serves client addr chain" "pageSize > 0" "i < length chain"
  shows "\<exists>ms. fetch_loop client pageSize addr s (tx_LT (chain ! i)) (tx_Hash (chain ! i)) acc = Some (Inr (acc @ ms)) \<and>
    mset ms = mset (batch_events s (take (Suc i) chain))"
  using assms(4)
proof (induction i arbitrary: acc rule: less_induct)
  case (less i)
  let ?n = "unat pageSize" and ?k = "Suc i - unat pageSize"
  let ?batch = "drop ?k (take (Suc i) chain)"
  have n: "0 < ?n" using assms(3) by (simp add: word_less_nat_alt)
  have list: "cl_ListTransactions client addr pageSize (tx_LT (chain ! i)) (tx_Hash (chain ! i)) = (?batch, None)"
    using assms(2) less.prems by (simp add: serves_def)
  have ne: "?batch \<noteq> []" using n less.prems by simp
  have hd: "hd ?batch = chain ! ?k" by (rule hd_batch [OF n less.prems])
  have split: "take (Suc i) chain = take ?k chain @ ?batch"
    using append_take_drop_id [of ?k "take (Suc i) chain"] by (simp add: min_def)
  show ?case
  proof (cases "tx_LT (chain ! ?k) \<le> s")
    case True
    have "tx_LT t \<le> s" if "t \<in> set (take ?k chain)" for t
    proof -
      from that obtain j where "j < ?k" "j < length chain" "t = chain ! j" by (auto simp: in_set_conv_nth)
      then show ?thesis using history_LT_mono [OF assms(1), of j ?k] True n less.prems by fastforce
    qed
    then have "batch_events s (take (Suc i) chain) = batch_events s ?batch" by (subst split) (simp add: batch_events_old)
    then show ?thesis using True list ne hd by (simp add: fetch_loop.simps)
  next
    case False
    have step: "fetch_loop client pageSize addr s (tx_LT (chain ! i)) (tx_Hash (chain ! i)) acc =
        fetch_loop client pageSize addr s (tx_PrevTxLT (chain ! ?k)) (tx_PrevTxHash (chain ! ?k)) (acc @ batch_events s ?batch)"
      using False list ne hd by (subst fetch_loop.simps) simp
    show ?thesis
    proof (cases "?k = 0")
      case True
      then have "tx_PrevTxLT (chain ! ?k) = 0" using assms(1) less.prems by (auto simp: history_ok_def hd_conv_nth)
      then have "fetch_loop client pageSize addr s (tx_PrevTxLT (chain ! ?k)) (tx_PrevTxHash (chain ! ?k)) (acc @ batch_events s ?batch)
          = Some (Inr (acc @ batch_events s ?batch))"
        using assms(2) by (subst fetch_loop.simps) (simp add: serves_def)
      with step True show ?thesis by simp
    next
      case False
      then obtain k where k: "?k = Suc k" by (cases ?k) auto
      then have "k < i" using n by simp
      moreover have "tx_PrevTxLT (chain ! ?k) = tx_LT (chain ! k)" "tx_PrevTxHash (chain ! ?k) = tx_Hash (chain ! k)"
        using assms(1) k n less.prems by (simp_all add: history_ok_def)
      ultimately obtain ms where "fetch_loop client pageSize addr s (tx_PrevTxLT (chain ! ?k)) (tx_PrevTxHash (chain ! ?k)) (acc @ batch_events s ?batch)
          = Some (Inr ((acc @ batch_events s ?batch) @ ms))" "mset ms = mset (batch_events s (take (Suc k) chain))"
        using less.IH [of k "acc @ batch_events s ?batch"] less.prems by auto
      moreover have "mset (batch_events s (take (Suc i) chain)) = mset (batch_events s (take (Suc k) chain)) + mset (batch_events s ?batch)"
        by (subst split) (simp add: k)
      ultimately show ?thesis using step by (intro exI [of _ "batch_events s ?batch @ ms"]) simp
    qed
  qed
qed

lemma batch_events_filter: "batch_events s ts = concat (map tx_events (filter (\<lambda>t. s < tx_LT t) ts))"
proof (induction ts)
  case (Cons t ts)
  then show ?case by (cases "tx_Out t") (auto simp: batch_events_def tx_events_def not_less)
qed (simp add: batch_events_def)

text \<open>What the transactions of a range emitted.\<close>

definition range_events :: "('a, 'c) Transaction list \<Rightarrow> u64 \<Rightarrow> u64 \<Rightarrow> ('a, 'c) MsgWithCtx list" where
  "range_events chain startLT endLT = concat (map tx_events (filter (\<lambda>t. startLT < tx_LT t \<and> tx_LT t \<le> endLT) chain))"

lemma filter_upto:
  assumes "history_ok chain" "i < length chain"
  shows "filter (\<lambda>t. s < tx_LT t \<and> tx_LT t \<le> tx_LT (chain ! i)) chain = filter (\<lambda>t. s < tx_LT t) (take (Suc i) chain)"
proof -
  have "tx_LT (chain ! i) < tx_LT t" if "t \<in> set (drop (Suc i) chain)" for t
    using that history_LT_mono [OF assms(1), of i] by (auto simp: in_set_conv_nth)
  then have "filter (\<lambda>t. s < tx_LT t \<and> tx_LT t \<le> tx_LT (chain ! i)) (drop (Suc i) chain) = []"
    by (auto simp: filter_empty_conv dest: leD)
  moreover have "tx_LT t \<le> tx_LT (chain ! i)" if t: "t \<in> set (take (Suc i) chain)" for t
  proof -
    from t obtain j where "j < Suc i" "t = chain ! j" by (auto simp: in_set_conv_nth)
    then show ?thesis using history_LT_mono [OF assms(1), of j i] assms(2) by (cases "j = i") auto
  qed
  then have "filter (\<lambda>t. s < tx_LT t \<and> tx_LT t \<le> tx_LT (chain ! i)) (take (Suc i) chain) =
      filter (\<lambda>t. s < tx_LT t) (take (Suc i) chain)" by (auto intro: filter_cong)
  ultimately show ?thesis
    using filter_append [of "\<lambda>t. s < tx_LT t \<and> tx_LT t \<le> tx_LT (chain ! i)" "take (Suc i) chain" "drop (Suc i) chain"] by simp
qed

lemma range_events_empty: "endLT \<le> startLT \<Longrightarrow> range_events chain startLT endLT = []"
  by (auto simp: range_events_def filter_empty_conv)

text \<open>
  The state of an account at a block: \<open>incl a seqno\<close> of its transactions are in the blocks up to
  \<open>seqno\<close>, and the account shows the last of them.
\<close>

definition account_at :: "('k \<Rightarrow> ('a, 'c) Transaction list) \<Rightarrow> ('k \<Rightarrow> u32 \<Rightarrow> nat) \<Rightarrow> u32 \<Rightarrow> 'k \<Rightarrow> Account" where
  "account_at chain incl seqno a = (if incl a seqno = 0 then \<lparr>acc_LastTxLT = 0, acc_LastTxHash = []\<rparr>
     else let t = chain a ! (incl a seqno - 1) in \<lparr>acc_LastTxLT = tx_LT t, acc_LastTxHash = tx_Hash t\<rparr>)"

lemma account_at_known:
  assumes "incl a n \<le> length (chain a)"
  shows "acc_LastTxLT (account_at chain incl n a) = 0 \<or> (\<exists>t \<in> set (chain a).
    acc_LastTxLT (account_at chain incl n a) = tx_LT t \<and> acc_LastTxHash (account_at chain incl n a) = tx_Hash t)"
proof (cases "incl a n")
  case (Suc k)
  with assms have "chain a ! k \<in> set (chain a)" by simp
  with Suc show ?thesis by (auto simp: account_at_def Let_def)
qed (simp add: account_at_def)

lemma range_events_blocks:
  assumes "history_ok (chain a)" "incl a m \<le> incl a n" "incl a n \<le> length (chain a)"
  shows "range_events (chain a) (acc_LastTxLT (account_at chain incl m a)) (acc_LastTxLT (account_at chain incl n a)) =
    concat (map tx_events (drop (incl a m) (take (incl a n) (chain a))))"
proof (cases "incl a n")
  case 0
  with assms show ?thesis by (simp add: range_events_empty account_at_def)
next
  case (Suc i)
  let ?s = "acc_LastTxLT (account_at chain incl m a)"
  from Suc assms(3) have i: "i < length (chain a)" by simp
  have "?s < tx_LT t \<longleftrightarrow> False" if "t \<in> set (take (incl a m) (chain a))" for t
  proof -
    from that obtain j where j: "j < incl a m" "j < length (chain a)" "t = chain a ! j" by (auto simp: in_set_conv_nth)
    then obtain k where k: "incl a m = Suc k" "j \<le> k" by (cases "incl a m") auto
    then show ?thesis
      using history_LT_mono [OF assms(1), of j k] assms(2,3) j by (cases "j = k") (auto simp: account_at_def Let_def)
  qed
  then have old: "filter (\<lambda>t. ?s < tx_LT t) (take (incl a m) (chain a)) = []" by (auto simp: filter_empty_conv)
  have "?s < tx_LT t" if "t \<in> set (drop (incl a m) (take (Suc i) (chain a)))" for t
  proof -
    from that obtain x where x: "x < length (drop (incl a m) (take (Suc i) (chain a)))" "t = drop (incl a m) (take (Suc i) (chain a)) ! x"
      by (metis in_set_conv_nth)
    define j where "j = incl a m + x"
    with x have j: "incl a m \<le> j" "j < length (chain a)" "t = chain a ! j"
      using assms(2) Suc i by (auto simp: min_def split: if_splits)
    with assms(1) nth_mem [OF j(2)] have pos: "0 < tx_LT t" by (simp add: history_ok_def)
    show ?thesis
    proof (cases "incl a m")
      case (Suc k)
      with j history_LT_mono [OF assms(1), of k j] show ?thesis by (simp add: account_at_def Let_def)
    qed (use pos in \<open>simp add: account_at_def\<close>)
  qed
  then have new: "filter (\<lambda>t. ?s < tx_LT t) (drop (incl a m) (take (Suc i) (chain a))) = drop (incl a m) (take (Suc i) (chain a))"
    by (auto intro: filter_True)
  have "take (Suc i) (chain a) = take (incl a m) (chain a) @ drop (incl a m) (take (Suc i) (chain a))"
    using append_take_drop_id [of "incl a m" "take (Suc i) (chain a)"] assms(2) Suc by (simp add: min_def)
  then have "filter (\<lambda>t. ?s < tx_LT t) (take (Suc i) (chain a)) = drop (incl a m) (take (Suc i) (chain a))"
    using old new by (metis append_Nil filter_append)
  then show ?thesis
    using filter_upto [OF assms(1) i, of ?s] Suc by (simp add: range_events_def account_at_def Let_def)
qed

lemma fetchMessages_range:
  assumes "history_ok chain" "serves client addr chain" "pageSize > 0"
    and "case prevBlock of None \<Rightarrow> True | Some b \<Rightarrow> b_SeqNo b < b_SeqNo toBlock"
    and "getTransactionBounds client String addr prevBlock toBlock = Inr (startLT, endLT, endHash)"
    and "endLT = 0 \<or> (\<exists>t \<in> set chain. endLT = tx_LT t \<and> endHash = tx_Hash t)"
  shows "\<exists>msgs. fetchMessagesForAddress client String pageSize prevBlock toBlock addr = Some (Inr msgs) \<and>
    mset msgs = mset (range_events chain startLT endLT)"
proof -
  have ordered: "\<not> (case prevBlock of None \<Rightarrow> False | Some b \<Rightarrow> b_SeqNo b \<ge> b_SeqNo toBlock)"
    using assms(4) by (auto split: option.splits)
  show ?thesis
  proof (cases "startLT \<ge> endLT")
    case True
    with assms(5) ordered show ?thesis by (simp add: fetchMessagesForAddress_def range_events_empty)
  next
    case False
    then obtain i where i: "i < length chain" "endLT = tx_LT (chain ! i)" "endHash = tx_Hash (chain ! i)"
      using assms(6) by (auto simp: in_set_conv_nth)
    then have "range_events chain startLT endLT = batch_events startLT (take (Suc i) chain)"
      using filter_upto [OF assms(1) i(1)] by (simp add: range_events_def batch_events_filter)
    with fetch_loop_complete [OF assms(1-3) i(1), of startLT "[]"] i False assms(5) ordered show ?thesis
      by (simp add: fetchMessagesForAddress_def)
  qed
qed

text \<open>The goroutines together: all messages of all addresses, in some order.\<close>

lemma BackfillForAddresses_all:
  assumes "go_range order"
    and "\<forall>addr \<in> set addresses. \<exists>msgs. fetchMessagesForAddress client String pageSize prevBlock toBlock addr = Some (Inr msgs) \<and>
      mset msgs = mset (g addr)"
  shows "\<exists>all. BackfillForAddresses order client String pageSize addresses prevBlock toBlock = Some (Inr all) \<and>
    mset all = mset (concat (map g addresses))"
proof -
  let ?fetch = "fetchMessagesForAddress client String pageSize prevBlock toBlock"
  from assms(2) obtain h where h: "\<And>addr. addr \<in> set addresses \<Longrightarrow> ?fetch addr = Some (Inr (h addr)) \<and> mset (h addr) = mset (g addr)"
    by metis
  let ?fetched = "map (\<lambda>addr. (addr, ?fetch addr)) addresses"
  have fetched: "?fetched = map (\<lambda>addr. (addr, Some (Inr (h addr)))) addresses" using h by auto
  have "find (\<lambda>(addr, r). case r of Some (Inl e) \<Rightarrow> is_panic e | _ \<Rightarrow> False) ?fetched = None"
    unfolding fetched by (auto simp: find_None_iff)
  moreover have "\<not> (\<exists>(addr, r) \<in> set ?fetched. r = None)" unfolding fetched by auto
  moreover have "concat (map (\<lambda>(addr, r). case r of Some (Inr msgs) \<Rightarrow> [(addr, msgs)] | _ \<Rightarrow> []) ?fetched) = map (\<lambda>addr. (addr, h addr)) addresses"
    unfolding fetched by (induction addresses) auto
  ultimately have "BackfillForAddresses order client String pageSize addresses prevBlock toBlock =
      Some (Inr (concat (map snd (order (map (\<lambda>addr. (addr, h addr)) addresses)))))"
    by (simp add: BackfillForAddresses_def Let_def del: map_map set_map)
  moreover have "mset (concat (map snd (order (map (\<lambda>addr. (addr, h addr)) addresses)))) = mset (concat (map g addresses))"
  proof -
    have "mset (concat (map snd (order (map (\<lambda>addr. (addr, h addr)) addresses)))) =
        sum_mset (image_mset (\<lambda>addr. mset (h addr)) (mset addresses))"
      by (simp add: mset_concat_map go_range.mset_rng [OF assms(1)] image_mset.compositionality comp_def)
    also have "\<dots> = mset (concat (map g addresses))"
      using h by (auto simp: mset_concat_map intro!: arg_cong [where f = sum_mset] image_mset_cong)
    finally show ?thesis .
  qed
  ultimately show ?thesis by blast
qed

section \<open>Properties\<close>

text \<open>
  C9: The scan of an account is complete and returns. Against a node that serves the account's
  history, for any page size above zero, \<open>fetchMessagesForAddress\<close> terminates and returns every
  external message with a body of the transactions in the range, and no other, each exactly once.
\<close>

theorem fetchMessagesForAddress_complete:
  assumes "history_ok chain" "serves client addr chain" "pageSize > 0"
    and "case prevBlock of None \<Rightarrow> True | Some b \<Rightarrow> b_SeqNo b < b_SeqNo toBlock"
    and "getTransactionBounds client String addr prevBlock toBlock = Inr (startLT, endLT, endHash)"
    and "endLT = 0 \<or> (\<exists>t \<in> set chain. endLT = tx_LT t \<and> endHash = tx_Hash t)"
  shows "\<exists>msgs. fetchMessagesForAddress client String pageSize prevBlock toBlock addr = Some (Inr msgs) \<and>
    mset msgs = mset (range_events chain startLT endLT)"
  using assms by (rule fetchMessages_range)

text \<open>
  A failing \<open>ListTransactions\<close> is not reported. The client returns no transactions with its
  error, and an empty batch ends the loop before the error is looked at: the scan succeeds with no
  messages, whatever the account emitted in the range.
\<close>

theorem fetchMessagesForAddress_hides_error:
  assumes "case prevBlock of None \<Rightarrow> True | Some b \<Rightarrow> b_SeqNo b < b_SeqNo toBlock"
    and "getTransactionBounds client String addr prevBlock toBlock = Inr (startLT, endLT, endHash)"
    and "cl_ListTransactions client addr pageSize endLT endHash = ([], Some (ListErr e))"
  shows "fetchMessagesForAddress client String pageSize prevBlock toBlock addr = Some (Inr [])"
proof -
  have "\<not> (case prevBlock of None \<Rightarrow> False | Some b \<Rightarrow> b_SeqNo b \<ge> b_SeqNo toBlock)"
    using assms(1) by (auto split: option.splits)
  with assms(2,3) show ?thesis by (simp add: fetchMessagesForAddress_def fetch_loop.simps)
qed

section \<open>A simulated node\<close>

text \<open>A node over given account histories.\<close>

definition sim_client :: "('a \<Rightarrow> ('a, 'c) Transaction list) \<Rightarrow> ('a \<Rightarrow> u32 \<Rightarrow> nat) \<Rightarrow> ('a, 'c) CollectorClient" where
  "sim_client chain incl = \<lparr>
     cl_GetAccount = (\<lambda>b a. Inr (account_at chain incl (b_SeqNo b) a)),
     cl_WaitGetAccount = (\<lambda>seqno b a. Inr (account_at chain incl (b_SeqNo b) a)),
     cl_ListTransactions = (\<lambda>a limit lt h.
       if lt = 0 then ([], Some ErrNoTransactionsWereFound)
       else let xs = takeWhile (\<lambda>t. tx_LT t \<le> lt) (chain a) in (drop (length xs - unat limit) xs, None))\<rparr>"

lemma takeWhile_upto:
  assumes "history_ok chain" "i < length chain"
  shows "takeWhile (\<lambda>t. tx_LT t \<le> tx_LT (chain ! i)) chain = take (Suc i) chain"
proof (rule takeWhile_eq_take_P_nth)
  fix j assume "j < Suc i" "j < length chain"
  then show "tx_LT (chain ! j) \<le> tx_LT (chain ! i)"
    using history_LT_mono [OF assms(1), of j i] assms(2) by (cases "j = i") auto
next
  assume "Suc i < length chain"
  then show "\<not> tx_LT (chain ! Suc i) \<le> tx_LT (chain ! i)"
    using history_LT_mono [OF assms(1), of i "Suc i"] by simp
qed

lemma sim_serves:
  assumes "history_ok (chain a)"
  shows "serves (sim_client chain incl) a (chain a)"
proof -
  have "tx_LT (chain a ! i) \<noteq> 0" if "i < length (chain a)" for i
    using assms nth_mem [OF that] unfolding history_ok_def by (metis less_irrefl)
  then show ?thesis
    using takeWhile_upto [OF assms] by (auto simp: serves_def sim_client_def)
qed

definition sample_event :: "'a \<Rightarrow> 'a \<Rightarrow> nat \<Rightarrow> ('a, nat) Message" where
  "sample_event src dst body = MsgExternalOut \<lparr>eo_SrcAddr = src, eo_DstAddr = Some dst, eo_CreatedAt = 0, eo_CreatedLT = 0, eo_Body = Some body\<rparr>"

definition sample_history :: "'a \<Rightarrow> 'a \<Rightarrow> ('a, nat) Transaction list" where
  "sample_history src dst = map (\<lambda>(lt, prev, outs). \<lparr>tx_Hash = [of_nat lt], tx_LT = of_nat lt, tx_PrevTxLT = of_nat prev,
      tx_PrevTxHash = [of_nat prev], tx_In = None, tx_Out = Some (Inr outs), tx_TotalFees = 0, tx_Description = DescOther\<rparr>)
    [(10, 0, [sample_event src dst 1]), (20, 10, [sample_event src dst 2]), (30, 20, [sample_event src dst 3, sample_event src dst 4])]"

definition sample_node :: "(nat, nat) CollectorClient" where
  "sample_node = sim_client (\<lambda>a. (sample_history 7 5)) (\<lambda>a seqno. min 3 (unat seqno))"

definition sample_block :: "u32 \<Rightarrow> BlockIDExt" where
  "sample_block n = \<lparr>b_Workchain = - 1, b_Shard = 0, b_SeqNo = n\<rparr>"

lemma sample_history_ok: "history_ok (sample_history src dst)"
proof -
  have "tx_PrevTxLT ((sample_history src dst) ! Suc i) = tx_LT ((sample_history src dst) ! i) \<and> tx_PrevTxHash ((sample_history src dst) ! Suc i) = tx_Hash ((sample_history src dst) ! i)"
    if "Suc i < length (sample_history src dst)" for i
    using that by (cases i) (auto simp: sample_history_def less_Suc_eq)
  moreover have "sorted_wrt (<) (map tx_LT (sample_history src dst))" "\<forall>t \<in> set (sample_history src dst). tx_LT t > 0" "tx_PrevTxLT (hd (sample_history src dst)) = 0"
    by (simp_all add: sample_history_def)
  ultimately show ?thesis by (simp add: history_ok_def)
qed

theorem fetchMessagesForAddress_complete_witness:
  "\<exists>msgs. fetchMessagesForAddress sample_node show_nat 1 (Some (sample_block 1)) (sample_block 3) 7 = Some (Inr msgs) \<and>
     image_mset (\<lambda>m. eo_Body (mc_Msg m)) (mset msgs) = {#Some 2, Some 3, Some 4#}"
proof -
  have bounds: "getTransactionBounds sample_node show_nat 7 (Some (sample_block 1)) (sample_block 3) = Inr (10, 30, [30])"
    by (simp add: getTransactionBounds_def sample_node_def sim_client_def account_at_def sample_block_def sample_history_def)
  have "serves sample_node 7 (sample_history 7 5)"
    unfolding sample_node_def by (rule sim_serves [where chain = "\<lambda>a. (sample_history 7 5)", OF sample_history_ok])
  from fetchMessagesForAddress_complete [OF sample_history_ok this _ _ bounds, of 1] obtain msgs where
    "fetchMessagesForAddress sample_node show_nat 1 (Some (sample_block 1)) (sample_block 3) 7 = Some (Inr msgs)"
    "mset msgs = mset (range_events (sample_history 7 5) 10 30)"
    by (auto simp: sample_block_def sample_history_def)
  then show ?thesis
    by (intro exI [of _ msgs]) (simp add: range_events_def sample_history_def tx_events_def sample_event_def)
qed

theorem fetchMessagesForAddress_hides_error_witness:
  "let node = sample_node\<lparr>cl_ListTransactions := \<lambda>a limit lt h. ([], Some (ListErr (Err ''timeout'')))\<rparr>
   in fetchMessagesForAddress node show_nat 1 (Some (sample_block 1)) (sample_block 3) 7 = Some (Inr []) \<and>
      range_events (sample_history 7 5) 10 30 \<noteq> []"
proof -
  let ?node = "sample_node\<lparr>cl_ListTransactions := \<lambda>a limit lt h. ([], Some (ListErr (Err ''timeout'')))\<rparr>"
  have "getTransactionBounds ?node show_nat 7 (Some (sample_block 1)) (sample_block 3) = Inr (10, 30, [30])"
    by (simp add: getTransactionBounds_def sample_node_def sim_client_def account_at_def sample_block_def sample_history_def)
  from fetchMessagesForAddress_hides_error [OF _ this, of 1 "Err ''timeout''"] show ?thesis
    by (simp add: sample_block_def range_events_def sample_history_def tx_events_def sample_event_def)
qed

end
