(* ===== verification/Event_Topics.thy ===== *)
theory Event_Topics
  imports Prelude
begin

text \<open>
  Event topics: the checksum that names an event (\<open>pkg/ton/hash/hash.go\<close>) and its position in
  the destination address of an external message (\<open>pkg/ton/event/event.go\<close>).

  \<open>CRC32\<close> is the table-driven checksum of Go's \<open>hash/crc32\<close>, which \<open>hash.go\<close> calls; the
  reference is the bitwise division by the polynomial. \<open>Address.Data\<close> of tonutils-go is an
  argument.
\<close>

section \<open>Checksums\<close>

abbreviation IEEE :: u32 where "IEEE \<equiv> 0xedb88320"

definition crc_bit :: "u32 \<Rightarrow> u32" where
  "crc_bit crc = (if bit crc 0 then drop_bit 1 crc XOR IEEE else drop_bit 1 crc)"

definition crc_entry :: "u32 \<Rightarrow> u32" where
  "crc_entry i = crc_bit (crc_bit (crc_bit (crc_bit (crc_bit (crc_bit (crc_bit (crc_bit i)))))))"

text \<open>\<open>crc32.MakeTable(crc32.IEEE)\<close>\<close>

definition ieeeTable :: "u32 list" where
  "ieeeTable = map (\<lambda>i. crc_entry (of_nat i)) [0..<256]"

definition crc_update :: "u32 list \<Rightarrow> u32 \<Rightarrow> u8 \<Rightarrow> u32" where
  "crc_update tab crc v = tab ! unat ((ucast crc :: u8) XOR v) XOR drop_bit 8 crc"

text \<open>\<open>crc32.Checksum\<close>\<close>

definition Checksum :: "bytes \<Rightarrow> u32 list \<Rightarrow> u32" where
  "Checksum data tab = NOT (foldl (crc_update tab) (NOT 0) data)"

text \<open>\<open>strings.ReplaceAll(s, c, "")\<close> for a one-character string.\<close>

definition remove_char :: "char \<Rightarrow> string \<Rightarrow> string" where
  "remove_char c s = filter (\<lambda>x. x \<noteq> c) s"

definition CRC32 :: "string \<Rightarrow> u32" where
  "CRC32 schema =
     (let cleanedSchema = remove_char (CHR '')'') (remove_char (CHR ''('') schema)
      in Checksum (string_bytes cleanedSchema) ieeeTable)"

section \<open>Topics in addresses\<close>

abbreviation EventTopicLength :: nat where "EventTopicLength \<equiv> 4"

text \<open>\<open>binary.BigEndian.Uint32\<close>\<close>

definition BigEndian_Uint32 :: "bytes \<Rightarrow> u32" where
  "BigEndian_Uint32 b = of_nat (be_nat (take 4 b))"

definition DecodeEventTopic :: "('a \<Rightarrow> bytes) \<Rightarrow> 'a option \<Rightarrow> u32 res" where
  "DecodeEventTopic Data addr = (case addr of
       None \<Rightarrow> Inl (Err ''cannot decode from a nil address'')
     | Some a \<Rightarrow>
        let data = Data a
        in if length data < EventTopicLength then Inl (Err ''address data is too short to contain an event topic'')
           else Inr (BigEndian_Uint32 (drop (length data - EventTopicLength) data)))"

section \<open>The table computes the bitwise checksum\<close>

text \<open>The reference: shift the byte in bit by bit.\<close>

definition crc_byte :: "u32 \<Rightarrow> u8 \<Rightarrow> u32" where
  "crc_byte crc v = (crc_bit ^^ 8) (crc XOR ucast v)"

definition crc_reference :: "bytes \<Rightarrow> u32" where
  "crc_reference data = NOT (foldl crc_byte (NOT 0) data)"

lemma crc_bit_xor: "crc_bit (x XOR y) = crc_bit x XOR crc_bit y"
  by (cases "bit x 0"; cases "bit y 0")
    (simp_all add: crc_bit_def bit_simps drop_bit_xor xor.assoc xor.left_commute xor.commute)

lemma crc_bits_xor: "(crc_bit ^^ n) (x XOR y) = (crc_bit ^^ n) x XOR (crc_bit ^^ n) y"
  by (induction n) (simp_all add: crc_bit_xor)

lemma crc_bits_shift: "take_bit n x = 0 \<Longrightarrow> (crc_bit ^^ n) x = drop_bit n x"
proof (induction n)
  case (Suc n)
  have "take_bit n x = take_bit n (take_bit (Suc n) x)" by simp
  also have "\<dots> = 0" using Suc.prems by simp
  finally have "(crc_bit ^^ n) x = drop_bit n x" by (rule Suc.IH)
  moreover have "\<not> bit (drop_bit n x) 0"
  proof
    assume "bit (drop_bit n x) 0"
    then have "bit (take_bit (Suc n) x) n" by (simp add: bit_simps)
    with Suc.prems show False by simp
  qed
  ultimately show ?case by (simp add: crc_bit_def [of "drop_bit n x"])
qed simp

lemma crc_entry_bits: "crc_entry x = (crc_bit ^^ 8) x"
  by (simp add: crc_entry_def numeral_eq_Suc)

lemma split_low_byte: "x = take_bit 8 x XOR (x AND NOT (mask 8))" for x :: u32
  by (rule bit_eqI) (auto simp: bit_simps)

lemma ieeeTable_nth: "i < 256 \<Longrightarrow> ieeeTable ! i = crc_entry (of_nat i)"
  by (simp add: ieeeTable_def)

lemma crc_update_byte: "crc_update ieeeTable crc v = crc_byte crc v"
proof -
  let ?x = "crc XOR ucast v"
  have low: "of_nat (unat ((ucast crc :: u8) XOR v)) = take_bit 8 ?x"
    by (rule bit_eqI) (auto simp: bit_simps dest: bit_imp_le_length)
  have "unat ((ucast crc :: u8) XOR v) < 256"
    using unsigned_less [of "(ucast crc :: u8) XOR v", where ?'a = nat] by simp
  then have tab: "ieeeTable ! unat ((ucast crc :: u8) XOR v) = (crc_bit ^^ 8) (take_bit 8 ?x)"
    using ieeeTable_nth [of "unat ((ucast crc :: u8) XOR v)"] by (simp only: low crc_entry_bits)
  have "(crc_bit ^^ 8) ?x = (crc_bit ^^ 8) (take_bit 8 ?x) XOR (crc_bit ^^ 8) (?x AND NOT (mask 8))"
    by (subst split_low_byte [of ?x]) (rule crc_bits_xor)
  also have "(crc_bit ^^ 8) (?x AND NOT (mask 8)) = drop_bit 8 (?x AND NOT (mask 8))"
    by (rule crc_bits_shift) (rule bit_eqI, auto simp: bit_simps)
  also have "drop_bit 8 (?x AND NOT (mask 8)) = drop_bit 8 crc"
    by (rule bit_eqI) (auto simp: bit_simps dest: bit_imp_le_length)
  finally show ?thesis by (simp add: crc_update_def crc_byte_def tab)
qed

section \<open>Properties\<close>

text \<open>
  C27: The topic of an event is the bitwise CRC-32 of its schema without parentheses: the
  table-driven checksum agrees with division by the polynomial, bit by bit.
\<close>

theorem CRC32_reference:
  "CRC32 schema = crc_reference (string_bytes (filter (\<lambda>c. c \<noteq> CHR ''('' \<and> c \<noteq> CHR '')'') schema))"
proof -
  have "crc_update ieeeTable = crc_byte" by (intro ext crc_update_byte)
  moreover have "remove_char (CHR '')'') (remove_char (CHR ''('') schema) = filter (\<lambda>c. c \<noteq> CHR ''('' \<and> c \<noteq> CHR '')'') schema"
    by (simp add: remove_char_def conj_commute)
  ultimately show ?thesis by (simp add: CRC32_def Checksum_def crc_reference_def)
qed

text \<open>The last four bytes of the data are the data as a number, modulo \<open>2 ^ 32\<close>.\<close>

lemma DecodeEventTopic_low:
  "DecodeEventTopic Data (Some a) =
     (if length (Data a) < 4 then Inl (Err ''address data is too short to contain an event topic'')
      else Inr (of_nat (be_nat (Data a))))"
proof -
  have app: "be_nat (xs @ ys) = be_nat xs * 256 ^ length ys + be_nat ys" for xs ys
  proof (induction ys rule: rev_induct)
    case (snoc y ys)
    then show ?case using be_nat_snoc [of "xs @ ys" y] by simp
  qed simp
  have low: "(of_nat (be_nat (drop (length d - 4) d)) :: u32) = of_nat (be_nat d)" if "\<not> length d < 4" for d
  proof -
    from that have "be_nat d = be_nat (take (length d - 4) d) * 256 ^ 4 + be_nat (drop (length d - 4) d)"
      using app [of "take (length d - 4) d" "drop (length d - 4) d"] by simp
    then have "(of_nat (be_nat d) :: u32) = of_nat (be_nat (take (length d - 4) d)) * 4294967296 + of_nat (be_nat (drop (length d - 4) d))"
      by simp
    moreover have "(4294967296 :: u32) = 0" by simp
    ultimately show ?thesis by simp
  qed
  then show ?thesis by (auto simp: DecodeEventTopic_def BigEndian_Uint32_def Let_def)
qed

text \<open>
  A topic stored in the last four bytes of an address, most significant byte first and behind
  any prefix, is the topic decoded from it; a nil address and one of less than four bytes are
  reported as errors, and nothing panics.
\<close>

theorem DecodeEventTopic_roundtrip:
  "DecodeEventTopic Data None = Inl (Err ''cannot decode from a nil address'') \<and>
   DecodeEventTopic Data (Some a) =
     (if length (Data a) < 4 then Inl (Err ''address data is too short to contain an event topic'')
      else Inr (of_nat (be_nat (Data a)))) \<and>
   DecodeEventTopic (\<lambda>p. p @ be_bytes 4 (unat topic)) (Some prefix) = Inr topic"
proof -
  have "unat topic < 256 ^ 4" using unsigned_less [of topic, where ?'a = nat] by simp
  then have "be_nat (be_bytes 4 (unat topic)) = unat topic" by (simp add: be_nat_bytes)
  then have "DecodeEventTopic (\<lambda>p. p @ be_bytes 4 (unat topic)) (Some prefix) = Inr topic"
    by (auto simp: DecodeEventTopic_def BigEndian_Uint32_def Let_def)
  then show ?thesis by (simp only: DecodeEventTopic_low) (simp add: DecodeEventTopic_def)
qed

end
