(* ===== verification/Log_Poller.thy ===== *)
theory Log_Poller
  imports Log_Filters Log_Query Log_Collector Event_Topics
begin

text \<open>
  The log poller (\<open>pkg/logpoller/log_poller.go\<close>): at every tick it reads the masterchain head,
  collects the external messages of the watched addresses since the last processed block and
  saves a log for every matching filter.

  The liteclient and the address functions are the fields of \<open>PollerEnv\<close>, together with the
  orders Go leaves open. A panic in the poller's own goroutine is recovered by \<open>run\<close> and
  becomes an error; a panic in a collector goroutine is not, and stays a panic. \<open>run\<close> returns the
  service beside its error, since an iteration that fails half way keeps what it saved.
\<close>

section \<open>Data\<close>

record ('a, 'c) PollerEnv =
  e_String :: "'a \<Rightarrow> string"
  e_Equals :: "'a \<Rightarrow> 'a \<Rightarrow> bool"
  e_MustParseAddr :: "string \<Rightarrow> 'a res"
  e_Data :: "'a \<Rightarrow> bytes"
  e_ToBOC :: "'c \<Rightarrow> bytes"
  e_CurrentMasterchainInfo :: "BlockIDExt res"
  e_LookupBlock :: "i32 \<Rightarrow> 64 word \<Rightarrow> u32 \<Rightarrow> BlockIDExt res"
  e_client :: "('a, 'c) CollectorClient"
  e_now :: "nat \<Rightarrow> int" \<comment> \<open>the clock when a log becomes the n-th of the store\<close>
  e_range_names :: "(string \<times> 'a Filter) list \<Rightarrow> (string \<times> 'a Filter) list"
  e_range_addresses :: "(string \<times> (u32, unit) gomap) list \<Rightarrow> (string \<times> (u32, unit) gomap) list"
  e_order :: "('a \<times> ('a, 'c) MsgWithCtx list) list \<Rightarrow> ('a \<times> ('a, 'c) MsgWithCtx list) list"

record 'a Service =
  lp_filters :: "'a Filters"
  lp_store :: "'a Log list"
  lp_pageSize :: u32
  lp_lastProcessedSeqNo :: u32
  lp_blockConfirmations :: u32

record PollerConfig =
  pc_PollPeriod :: int
  pc_PageSize :: u32

definition DefaultPollerConfig :: PollerConfig where
  "DefaultPollerConfig = \<lparr>pc_PollPeriod = 3 * 10 ^ 9, pc_PageSize = 100\<rparr>"

definition NewLogPoller :: "PollerConfig \<Rightarrow> 'a Service" where
  "NewLogPoller cfg = \<lparr>lp_filters = newFilters, lp_store = [], lp_pageSize = pc_PageSize cfg,
     lp_lastProcessedSeqNo = 0, lp_blockConfirmations = 0\<rparr>"

section \<open>Operations\<close>

text \<open>The log that \<open>Process\<close> hands to \<open>SaveLog\<close> for one matching filter.\<close>

definition new_log :: "('a, 'c) MsgWithCtx \<Rightarrow> u32 \<Rightarrow> bytes \<Rightarrow> 64 word \<Rightarrow> 'a Log" where
  "new_log msg topic data fid = \<lparr>log_ID = 0, log_FilterID = fid, log_Address = eo_SrcAddr (mc_Msg msg),
     log_TxHash = mc_TxHash msg, log_TxLT = mc_LT msg, log_Topic = topic, log_Data = data,
     log_CreatedAt = 0, log_ReceivedAt = 0, log_ExpiresAt = None, log_Error = None\<rparr>"

definition save_all :: "('a, 'c) PollerEnv \<Rightarrow> 'a Log list \<Rightarrow> 'a Log list \<Rightarrow> 'a Log list" where
  "save_all env new store = foldl (\<lambda>s l. SaveLog (e_now env (length s)) l s) store new"

definition Process :: "('a, 'c) PollerEnv \<Rightarrow> ('a, 'c) MsgWithCtx \<Rightarrow> 'a Service \<Rightarrow> 'a Service res" where
  "Process env msg lp =
     bindE (wrapE ''failed to decode event topic'' (DecodeEventTopic (e_Data env) (eo_DstAddr (mc_Msg msg)))) (\<lambda>topic.
     let fIDs = MatchingFilters (e_range_names env) (e_String env) (e_Equals env) (eo_SrcAddr (mc_Msg msg)) topic (lp_filters lp)
     in if fIDs = [] then Inr lp
        else (case eo_Body (mc_Msg msg) of
                None \<Rightarrow> Inl (Panic ''nil pointer dereference'')
              | Some body \<Rightarrow> Inr (lp\<lparr>lp_store :=
                  save_all env (map (new_log msg topic (e_ToBOC env body)) fIDs) (lp_store lp)\<rparr>)))"

fun processMessages :: "('a, 'c) PollerEnv \<Rightarrow> ('a, 'c) MsgWithCtx list \<Rightarrow> 'a Service \<Rightarrow> 'a Service \<times> gerr option" where
  "processMessages env [] lp = (lp, None)"
| "processMessages env (msg # msgs) lp = (case Process env msg lp of
       Inl e \<Rightarrow> (lp, Some e)
     | Inr lp' \<Rightarrow> processMessages env msgs lp')"

text \<open>What becomes of an error that is wrapped on the way up, or of a panic that unwinds.\<close>

definition wrap_err :: "string \<Rightarrow> gerr \<Rightarrow> gerr" where
  "wrap_err s e = (if is_panic e then e else Wrap s e)"

fun recovered :: "gerr \<Rightarrow> gerr" where
  "recovered (Panic s) = Err (''panic recovered: '' @ s)"
| "recovered (Err s) = Err s"
| "recovered (Wrap s e) = Wrap s e"

text \<open>
  How a call ends: with a nil error, with an error (or a panic unwinding through it), or with the
  whole program, when a goroutine it started panics.
\<close>

datatype outcome = Finished | Failed gerr | Crashed string

definition processBlocksRange ::
  "('a, 'c) PollerEnv \<Rightarrow> 'a list \<Rightarrow> BlockIDExt option \<Rightarrow> BlockIDExt \<Rightarrow> 'a Service \<Rightarrow> ('a Service \<times> outcome) option" where
  "processBlocksRange env addresses prevBlock toBlock lp =
     (case BackfillForAddresses (e_order env) (e_client env) (e_String env) (lp_pageSize lp) addresses prevBlock toBlock of
        None \<Rightarrow> None
      | Some (Inl (Panic s)) \<Rightarrow> Some (lp, Crashed s)
      | Some (Inl e) \<Rightarrow> Some (lp, Failed (Wrap ''BackfillForAddresses'' e))
      | Some (Inr msgs) \<Rightarrow>
         (case processMessages env msgs lp of
            (lp', None) \<Rightarrow> Some (lp', Finished)
          | (lp', Some e) \<Rightarrow> Some (lp', Failed (wrap_err ''processMessages'' e))))"

text \<open>One iteration, from the lookup of the addresses on; \<open>None\<close> is an iteration that never ends.\<close>

definition scan_to :: "('a, 'c) PollerEnv \<Rightarrow> BlockIDExt \<Rightarrow> 'a Service \<Rightarrow> ('a Service \<times> outcome) option" where
  "scan_to env toBlock lp =
     (case GetDistinctAddresses (e_range_addresses env) (e_MustParseAddr env) (lp_filters lp) of
        Inl e \<Rightarrow> Some (lp, Failed (recovered e))
      | Inr addresses \<Rightarrow>
         if addresses = [] then Some (lp, Finished)
         else (case (if lp_lastProcessedSeqNo lp = 0 then Inr None
                     else map_sum id Some (e_LookupBlock env (b_Workchain toBlock) (b_Shard toBlock) (lp_lastProcessedSeqNo lp))) of
            Inl e \<Rightarrow> Some (lp, Failed (recovered (wrap_err ''LookupBlock'' e)))
          | Inr prevBlock \<Rightarrow>
             (case processBlocksRange env addresses prevBlock toBlock lp of
                None \<Rightarrow> None
              | Some (lp', Crashed s) \<Rightarrow> Some (lp', Crashed s)
              | Some (lp', Failed e) \<Rightarrow> Some (lp', Failed (recovered (wrap_err ''processBlocksRange'' e)))
              | Some (lp', Finished) \<Rightarrow> Some (lp'\<lparr>lp_lastProcessedSeqNo := b_SeqNo toBlock\<rparr>, Finished))))"

definition getLastProcessedSeqNo :: "'a Service \<Rightarrow> u32 res" where
  "getLastProcessedSeqNo lp = (let lastProcessed = lp_lastProcessedSeqNo lp
     in if lastProcessed > 0 then Inr lastProcessed else Inr lastProcessed)"

lemma getLastProcessedSeqNo_Inr [simp]: "getLastProcessedSeqNo lp = Inr (lp_lastProcessedSeqNo lp)"
  by (simp add: getLastProcessedSeqNo_def)

definition run :: "('a, 'c) PollerEnv \<Rightarrow> 'a Service \<Rightarrow> ('a Service \<times> outcome) option" where
  "run env lp = (case getLastProcessedSeqNo lp of
       Inl e \<Rightarrow> Some (lp, Failed (recovered (wrap_err ''LoadLastSeq'' e)))
     | Inr lastProcessedSeq \<Rightarrow> (case e_CurrentMasterchainInfo env of
          Inl e \<Rightarrow> Some (lp, Failed (recovered e))
        | Inr currentMaster \<Rightarrow>
           let safeToProcessSeq = b_SeqNo currentMaster - lp_blockConfirmations lp
           in if safeToProcessSeq < lastProcessedSeq then Some (lp, Finished)
              else if safeToProcessSeq = lastProcessedSeq then Some (lp, Finished)
              else (case e_LookupBlock env (b_Workchain currentMaster) (b_Shard currentMaster) safeToProcessSeq of
                 Inl e \<Rightarrow> Some (lp, Failed (recovered (wrap_err (''LookupBlock for safe seq '' @ show_nat (unat safeToProcessSeq)) e)))
               | Inr toBlock \<Rightarrow> scan_to env toBlock lp)))"

text \<open>
  The loop that \<open>start\<close> hands to the service engine: one iteration for every tick, each against its own view of
  the network. An error is logged and the next tick goes on from the state the failed iteration left.
  \<open>None\<close> is a loop that an iteration blocks forever or takes down.
\<close>

fun polls :: "('a, 'c) PollerEnv list \<Rightarrow> 'a Service \<Rightarrow> 'a Service option" where
  "polls [] lp = Some lp"
| "polls (env # envs) lp = (case run env lp of
      Some (lp', Finished) \<Rightarrow> polls envs lp' | Some (lp', Failed err) \<Rightarrow> polls envs lp' | Some (lp', Crashed s) \<Rightarrow> None | None \<Rightarrow> None)"

definition lp_RegisterFilter :: "('a, 'c) PollerEnv \<Rightarrow> 'a Filter \<Rightarrow> 'a Service \<Rightarrow> 'a Service" where
  "lp_RegisterFilter env flt lp = lp\<lparr>lp_filters := RegisterFilter (e_String env) flt (lp_filters lp)\<rparr>"

definition lp_UnregisterFilter :: "('a, 'c) PollerEnv \<Rightarrow> string \<Rightarrow> 'a Service \<Rightarrow> 'a Service" where
  "lp_UnregisterFilter env name lp = lp\<lparr>lp_filters := UnregisterFilter (e_String env) name (lp_filters lp)\<rparr>"

definition lp_GetLogs :: "('a, 'c) PollerEnv \<Rightarrow> 'a \<Rightarrow> 'a Service \<Rightarrow> 'a Log list" where
  "lp_GetLogs env evtSrcAddress lp = GetLogs (e_String env) (e_String env evtSrcAddress) (lp_store lp)"

definition lp_FilteredLogs ::
  "('a, 'c) PollerEnv \<Rightarrow> (('a Log \<Rightarrow> 'a Log \<Rightarrow> bool) \<Rightarrow> 'a Log list \<Rightarrow> 'a Log list) \<Rightarrow> (bytes \<Rightarrow> 'c res) \<Rightarrow> ('c \<Rightarrow> bytes res) \<Rightarrow>
   'a \<Rightarrow> u32 \<Rightarrow> CellQuery list \<Rightarrow> QueryOptions \<Rightarrow> 'a Service \<Rightarrow> 'a QueryResult res" where
  "lp_FilteredLogs env sort_Slice FromBOC RestBits evtSrcAddress topic queries options lp =
     FilteredLogs sort_Slice (e_String env) FromBOC RestBits (e_String env evtSrcAddress) topic queries options (lp_store lp)"

definition lp_FilteredLogsWithParser ::
  "('a, 'c) PollerEnv \<Rightarrow> (bytes \<Rightarrow> 'c res) \<Rightarrow> 'a \<Rightarrow> u32 \<Rightarrow> ('c \<Rightarrow> 'e res) \<Rightarrow> ('e \<Rightarrow> bool) option \<Rightarrow> 'a Service \<Rightarrow> 'e list res" where
  "lp_FilteredLogsWithParser env FromBOC evtSrcAddress topic parser flt lp =
     FilteredLogsWithParser (e_String env) FromBOC (e_String env evtSrcAddress) topic parser flt (lp_store lp)"

section \<open>Saving\<close>

text \<open>A log without the times the store stamps on it.\<close>

definition unstamped :: "'a Log \<Rightarrow> 'a Log" where
  "unstamped log = log\<lparr>log_ReceivedAt := 0, log_ExpiresAt := None\<rparr>"

lemma SaveLog_appends: "\<exists>l'. SaveLog now l s = s @ [l'] \<and> unstamped l' = unstamped l \<and> log_ReceivedAt l' = now"
  by (simp add: SaveLog_def unstamped_def Let_def)

lemma save_all_appends: "\<exists>new'. save_all env new s = s @ new' \<and> map unstamped new' = map unstamped new"
proof (induction new arbitrary: s)
  case Nil
  then show ?case by (simp add: save_all_def)
next
  case (Cons l new)
  obtain l' where l': "SaveLog (e_now env (length s)) l s = s @ [l']" "unstamped l' = unstamped l"
    using SaveLog_appends by blast
  from Cons.IH [of "s @ [l']"] obtain new' where "save_all env new (s @ [l']) = (s @ [l']) @ new'"
    "map unstamped new' = map unstamped new" by blast
  with l' show ?case by (intro exI [of _ "l' # new'"]) (simp add: save_all_def)
qed

text \<open>The logs a message gives rise to, for given filters, whatever the order of the filters.\<close>

definition msg_logs :: "('a, 'c) PollerEnv \<Rightarrow> 'a Filters \<Rightarrow> ('a, 'c) MsgWithCtx \<Rightarrow> 'a Log list" where
  "msg_logs env f msg = (case (DecodeEventTopic (e_Data env) (eo_DstAddr (mc_Msg msg)), eo_Body (mc_Msg msg)) of
       (Inr topic, Some body) \<Rightarrow> map (new_log msg topic (e_ToBOC env body))
         (MatchingFilters (\<lambda>m. m) (e_String env) (e_Equals env) (eo_SrcAddr (mc_Msg msg)) topic f)
     | _ \<Rightarrow> [])"

lemma MatchingFilters_mset:
  assumes "go_range rng"
  shows "mset (MatchingFilters rng String Equals c topic f) = mset (MatchingFilters (\<lambda>m. m) String Equals c topic f)"
  by (auto simp: MatchingFilters_def go_range.mset_rng [OF assms] split: option.splits)

lemma unstamped_new_log [simp]: "unstamped (new_log msg topic d fid) = new_log msg topic d fid"
  by (simp add: unstamped_def new_log_def)

lemma Process_logs:
  assumes "go_range (e_range_names env)" "DecodeEventTopic (e_Data env) (eo_DstAddr (mc_Msg msg)) = Inr topic"
    and "eo_Body (mc_Msg msg) = Some body"
  shows "\<exists>new. Process env msg lp = Inr (lp\<lparr>lp_store := lp_store lp @ new\<rparr>) \<and>
    mset (map unstamped new) = mset (msg_logs env (lp_filters lp) msg)"
proof -
  let ?fids = "MatchingFilters (e_range_names env) (e_String env) (e_Equals env) (eo_SrcAddr (mc_Msg msg)) topic (lp_filters lp)"
  have mset: "mset (map (new_log msg topic (e_ToBOC env body)) ?fids) = mset (msg_logs env (lp_filters lp) msg)"
    using MatchingFilters_mset [OF assms(1)] assms(2,3) by (simp add: msg_logs_def)
  obtain new where new: "save_all env (map (new_log msg topic (e_ToBOC env body)) ?fids) (lp_store lp) = lp_store lp @ new"
    "map unstamped new = map (new_log msg topic (e_ToBOC env body)) ?fids"
    using save_all_appends by (fastforce simp: comp_def)
  show ?thesis
  proof (cases "?fids = []")
    case True
    with assms mset show ?thesis by (intro exI [of _ "[]"]) (simp add: Process_def)
  next
    case False
    with assms new mset show ?thesis by (intro exI [of _ new]) (simp add: Process_def)
  qed
qed

lemma processMessages_logs:
  assumes "go_range (e_range_names env)"
    and "\<forall>msg \<in> set msgs. okE (DecodeEventTopic (e_Data env) (eo_DstAddr (mc_Msg msg))) \<and> eo_Body (mc_Msg msg) \<noteq> None"
  shows "\<exists>new. processMessages env msgs lp = (lp\<lparr>lp_store := lp_store lp @ new\<rparr>, None) \<and>
    mset (map unstamped new) = mset (concat (map (msg_logs env (lp_filters lp)) msgs))"
  using assms(2)
proof (induction msgs arbitrary: lp)
  case Nil
  then show ?case by simp
next
  case (Cons msg msgs)
  then obtain topic body where m: "DecodeEventTopic (e_Data env) (eo_DstAddr (mc_Msg msg)) = Inr topic" "eo_Body (mc_Msg msg) = Some body"
    by (auto simp: okE_iff)
  from Process_logs [OF assms(1) m] obtain new where new: "Process env msg lp = Inr (lp\<lparr>lp_store := lp_store lp @ new\<rparr>)"
    "mset (map unstamped new) = mset (msg_logs env (lp_filters lp) msg)" by blast
  let ?lp = "lp\<lparr>lp_store := lp_store lp @ new\<rparr>"
  from Cons obtain new' where "processMessages env msgs ?lp = (?lp\<lparr>lp_store := lp_store ?lp @ new'\<rparr>, None)"
    "mset (map unstamped new') = mset (concat (map (msg_logs env (lp_filters ?lp)) msgs))" by fastforce
  with new show ?case by (intro exI [of _ "new @ new'"]) simp
qed

section \<open>Polling an honest node\<close>

text \<open>
  A node that serves the histories \<open>chain s\<close> of the accounts with printed address \<open>s\<close>, of which
  \<open>incl s n\<close> transactions are in the blocks up to \<open>n\<close>: it finds every block, shows each account as
  of a block (an account without transactions may be unknown) and lists transactions. Addresses
  print and parse back and Go's iteration orders are permutations.
\<close>

definition honest :: "('a, 'c) PollerEnv \<Rightarrow> (string \<Rightarrow> ('a, 'c) Transaction list) \<Rightarrow> (string \<Rightarrow> u32 \<Rightarrow> nat) \<Rightarrow> bool" where
  "honest env chain incl =
    (go_range (e_range_names env) \<and> go_range (e_range_addresses env) \<and> go_range (e_order env) \<and>
     (\<forall>x. \<exists>y. e_MustParseAddr env (e_String env x) = Inr y \<and> e_String env y = e_String env x) \<and>
     (\<forall>s. history_ok (chain s) \<and> incl s 0 = 0 \<and> (\<forall>n. incl s n \<le> length (chain s)) \<and> (\<forall>m n. m \<le> n \<longrightarrow> incl s m \<le> incl s n)) \<and>
     (\<forall>a. serves (e_client env) a (chain (e_String env a))) \<and>
     (\<forall>a b. cl_WaitGetAccount (e_client env) (b_SeqNo b) b a = Inr (account_at chain incl (b_SeqNo b) (e_String env a))) \<and>
     (\<forall>a b. cl_GetAccount (e_client env) b a = Inr (account_at chain incl (b_SeqNo b) (e_String env a)) \<or>
        incl (e_String env a) (b_SeqNo b) = 0 \<and> (\<exists>e. cl_GetAccount (e_client env) b a = Inl e \<and> \<not> is_panic e)) \<and>
     (\<forall>w sh n. \<exists>b. e_LookupBlock env w sh n = Inr b \<and> b_SeqNo b = n))"

text \<open>The registry is well formed and watches printed addresses only.\<close>

definition poller_ok :: "('a, 'c) PollerEnv \<Rightarrow> 'a Service \<Rightarrow> bool" where
  "poller_ok env lp = (filters_wf (lp_filters lp) \<and> lp_pageSize lp > 0 \<and>
     (\<forall>(s, ts) \<in> set (filtersByAddress (lp_filters lp)). s \<in> range (e_String env)))"

text \<open>
  What the chain says of events, apart from the poller: the outgoing external messages of a transaction with their
  bodies, and the topic a message's destination carries, which is its data as a big-endian number modulo \<open>2 ^ 32\<close>
  (a destination of fewer than four bytes, or none, carries no topic).
\<close>

definition ext_bodies :: "('a, 'c) Transaction \<Rightarrow> (('a, 'c) ExternalMessageOut \<times> 'c) list" where
  "ext_bodies t = (case tx_Out t of
       Some (Inr ms) \<Rightarrow> concat (map (\<lambda>e. case eo_Body e of Some b \<Rightarrow> [(e, b)] | None \<Rightarrow> []) (external_outs ms))
     | _ \<Rightarrow> [])"

definition dst_topic :: "('a, 'c) PollerEnv \<Rightarrow> ('a, 'c) ExternalMessageOut \<Rightarrow> u32 option" where
  "dst_topic env e = (case eo_DstAddr e of
       Some d \<Rightarrow> if length (e_Data env d) < 4 then None else Some (of_nat (be_nat (e_Data env d)))
     | None \<Rightarrow> None)"

text \<open>Every external message with a body that a watched account has sent carries a topic.\<close>

definition topical :: "('a, 'c) PollerEnv \<Rightarrow> (string \<Rightarrow> ('a, 'c) Transaction list) \<Rightarrow> 'a Filters \<Rightarrow> bool" where
  "topical env chain f = (\<forall>(s, ts) \<in> set (filtersByAddress f). \<forall>t \<in> set (chain s). \<forall>(e, b) \<in> set (ext_bodies t). dst_topic env e \<noteq> None)"

text \<open>
  Accounts go by one printed form: the messages of a watched account name it in the form it is watched in, and no
  filter names it in another form. (\<open>MatchingFilters\<close> looks up the printed form first and compares accounts after.)
\<close>

definition one_form :: "('a, 'c) PollerEnv \<Rightarrow> (string \<Rightarrow> ('a, 'c) Transaction list) \<Rightarrow> 'a Filters \<Rightarrow> bool" where
  "one_form env chain f = (\<forall>(s, ts) \<in> set (filtersByAddress f). \<forall>t \<in> set (chain s). \<forall>(e, b) \<in> set (ext_bodies t).
     e_String env (eo_SrcAddr e) = s \<and>
     (\<forall>(n, flt) \<in> set (filtersByName f). e_Equals env (flt_Address flt) (eo_SrcAddr e) \<longleftrightarrow> e_String env (flt_Address flt) = s))"

text \<open>No registered filter has been silenced: the index knows its address and topic.\<close>

definition all_indexed :: "('a, 'c) PollerEnv \<Rightarrow> 'a Filters \<Rightarrow> bool" where
  "all_indexed env f = (\<forall>(n, flt) \<in> set (filtersByName f). watched f (filter_key (e_String env) flt))"

text \<open>
  The logs that ought to be there after block \<open>n\<close>: for every registered filter, one log for each external message
  with the filter's topic that the filter's account has sent in the blocks up to \<open>n\<close>. Its times are left out.
\<close>

definition event_log :: "('a, 'c) PollerEnv \<Rightarrow> 'a Filter \<Rightarrow> ('a, 'c) Transaction \<Rightarrow> ('a, 'c) ExternalMessageOut \<Rightarrow> 'c \<Rightarrow> 'a Log" where
  "event_log env flt t e body = \<lparr>log_ID = 0, log_FilterID = flt_ID flt, log_Address = eo_SrcAddr e,
     log_TxHash = tx_Hash t, log_TxLT = tx_LT t, log_Topic = flt_EventTopic flt, log_Data = e_ToBOC env body,
     log_CreatedAt = 0, log_ReceivedAt = 0, log_ExpiresAt = None, log_Error = None\<rparr>"

definition filter_logs :: "('a, 'c) PollerEnv \<Rightarrow> 'a Filter \<Rightarrow> ('a, 'c) Transaction \<Rightarrow> 'a Log list" where
  "filter_logs env flt t = map (\<lambda>(e, body). event_log env flt t e body)
     (filter (\<lambda>(e, body). dst_topic env e = Some (flt_EventTopic flt)) (ext_bodies t))"

definition emitted_logs ::
  "('a, 'c) PollerEnv \<Rightarrow> (string \<Rightarrow> ('a, 'c) Transaction list) \<Rightarrow> (string \<Rightarrow> u32 \<Rightarrow> nat) \<Rightarrow> 'a Filters \<Rightarrow> u32 \<Rightarrow> 'a Log multiset" where
  "emitted_logs env chain incl f n = mset (concat (map (\<lambda>(name, flt).
     let s = e_String env (flt_Address flt) in concat (map (filter_logs env flt) (take (incl s n) (chain s)))) (filtersByName f)))"

text \<open>The logs the poller makes of the watched accounts' transactions number \<open>incl s m\<close> to \<open>incl s n\<close>.\<close>

definition span_logs ::
  "('a, 'c) PollerEnv \<Rightarrow> (string \<Rightarrow> ('a, 'c) Transaction list) \<Rightarrow> (string \<Rightarrow> u32 \<Rightarrow> nat) \<Rightarrow> 'a Filters \<Rightarrow> u32 \<Rightarrow> u32 \<Rightarrow> 'a Log multiset" where
  "span_logs env chain incl f m n = sum_mset (image_mset (\<lambda>(s, ts).
     mset (concat (map (msg_logs env f) (concat (map tx_events (drop (incl s m) (take (incl s n) (chain s))))))))
     (mset (filtersByAddress f)))"

definition caught_up ::
  "('a, 'c) PollerEnv \<Rightarrow> (string \<Rightarrow> ('a, 'c) Transaction list) \<Rightarrow> (string \<Rightarrow> u32 \<Rightarrow> nat) \<Rightarrow> 'a Service \<Rightarrow> bool" where
  "caught_up env chain incl lp =
     (mset (map unstamped (lp_store lp)) = span_logs env chain incl (lp_filters lp) 0 (lp_lastProcessedSeqNo lp))"

lemma bounds_honest:
  assumes "honest env chain incl" "prevBlock = None \<and> m = 0 \<or> (\<exists>b. prevBlock = Some b \<and> b_SeqNo b = m)"
  shows "getTransactionBounds (e_client env) (e_String env) a prevBlock toBlock =
    Inr (acc_LastTxLT (account_at chain incl m (e_String env a)), acc_LastTxLT (account_at chain incl (b_SeqNo toBlock) (e_String env a)),
         acc_LastTxHash (account_at chain incl (b_SeqNo toBlock) (e_String env a)))"
proof -
  let ?s = "e_String env a"
  have zero: "incl ?s k = 0 \<Longrightarrow> acc_LastTxLT (account_at chain incl k ?s) = 0" for k by (simp add: account_at_def)
  have incl0: "incl ?s 0 = 0"
    and wait: "cl_WaitGetAccount (e_client env) (b_SeqNo toBlock) toBlock a = Inr (account_at chain incl (b_SeqNo toBlock) ?s)"
    and get: "\<And>b. cl_GetAccount (e_client env) b a = Inr (account_at chain incl (b_SeqNo b) ?s) \<or>
        incl ?s (b_SeqNo b) = 0 \<and> (\<exists>e. cl_GetAccount (e_client env) b a = Inl e \<and> \<not> is_panic e)"
    using assms(1) by (simp_all add: honest_def)
  show ?thesis
  proof (cases prevBlock)
    case None
    with assms(2) wait zero [OF incl0] show ?thesis by (simp add: getTransactionBounds_def)
  next
    case (Some b)
    with assms(2) have "b_SeqNo b = m" by simp
    with Some wait get [of b] zero [OF incl0] zero [of m] show ?thesis
      by (cases "m = 0") (auto simp: getTransactionBounds_def word_neq_0_conv)
  qed
qed

lemma fetch_honest:
  assumes "honest env chain incl" "prevBlock = None \<and> m = 0 \<or> (\<exists>b. prevBlock = Some b \<and> b_SeqNo b = m)"
    and "m < b_SeqNo toBlock" "pageSize > 0"
  shows "\<exists>msgs. fetchMessagesForAddress (e_client env) (e_String env) pageSize prevBlock toBlock a = Some (Inr msgs) \<and>
    mset msgs = mset (concat (map tx_events (drop (incl (e_String env a) m) (take (incl (e_String env a) (b_SeqNo toBlock)) (chain (e_String env a))))))"
proof -
  let ?s = "e_String env a"
  have h: "history_ok (chain ?s)" "incl ?s m \<le> incl ?s (b_SeqNo toBlock)" "incl ?s (b_SeqNo toBlock) \<le> length (chain ?s)"
    "serves (e_client env) a (chain ?s)"
    using assms(1) less_imp_le [OF assms(3)] unfolding honest_def by blast+
  have "case prevBlock of None \<Rightarrow> True | Some b \<Rightarrow> b_SeqNo b < b_SeqNo toBlock"
    using assms(2,3) by (auto split: option.splits)
  from fetchMessages_range [OF h(1,4) assms(4) this bounds_honest [OF assms(1,2)]]
    account_at_known [where chain = chain and incl = incl and a = ?s, OF h(3)]
    range_events_blocks [where chain = chain and incl = incl and a = ?s, OF h(1-3)]
  show ?thesis by simp
qed

lemma addresses_honest:
  assumes "honest env chain incl" "poller_ok env lp"
  shows "\<exists>addresses. GetDistinctAddresses (e_range_addresses env) (e_MustParseAddr env) (lp_filters lp) = Inr addresses \<and>
    mset (map (e_String env) addresses) = mset (map fst (filtersByAddress (lp_filters lp)))"
proof -
  let ?keys = "map fst (e_range_addresses env (filtersByAddress (lp_filters lp)))"
  have rng: "go_range (e_range_addresses env)"
    and parse: "\<And>x. \<exists>y. e_MustParseAddr env (e_String env x) = Inr y \<and> e_String env y = e_String env x"
    using assms(1) by (simp_all add: honest_def)
  have "\<exists>y. e_MustParseAddr env k = Inr y \<and> e_String env y = k" if "k \<in> set ?keys" for k
    using that assms(2) parse by (fastforce simp: poller_ok_def go_range.set_rng [OF rng])
  then obtain g where g: "\<And>k. k \<in> set ?keys \<Longrightarrow> e_MustParseAddr env k = Inr (g k) \<and> e_String env (g k) = k" by metis
  then have "mapE (e_MustParseAddr env) ?keys = Inr (map g ?keys)" by (intro mapE_all_Inr) blast
  moreover from g have "map (e_String env) (map g ?keys) = ?keys" by (auto intro: map_idI)
  moreover have "mset ?keys = mset (map fst (filtersByAddress (lp_filters lp)))"
    by (simp add: go_range.mset_rng [OF rng])
  moreover have "GetDistinctAddresses (e_range_addresses env) (e_MustParseAddr env) (lp_filters lp) = mapE (e_MustParseAddr env) ?keys"
    by (simp add: GetDistinctAddresses_def mapE_map case_prod_unfold)
  ultimately show ?thesis by metis
qed

lemma tx_events_ext: "tx_events t = map (\<lambda>(e, b). \<lparr>mc_TxHash = tx_Hash t, mc_LT = tx_LT t, mc_Msg = e\<rparr>) (ext_bodies t)"
proof -
  have "concat (map (\<lambda>msg. case msg of MsgExternalOut ext \<Rightarrow>
          if eo_Body ext \<noteq> None then [\<lparr>mc_TxHash = tx_Hash t, mc_LT = tx_LT t, mc_Msg = ext\<rparr>] else [] | _ \<Rightarrow> []) ms) =
      map (\<lambda>(e, b). \<lparr>mc_TxHash = tx_Hash t, mc_LT = tx_LT t, mc_Msg = e\<rparr>)
        (concat (map (\<lambda>e. case eo_Body e of Some b \<Rightarrow> [(e, b)] | None \<Rightarrow> []) (external_outs ms)))" for ms
    by (induction ms rule: external_outs.induct) (auto split: option.split)
  note outs = this
  show ?thesis
  proof (cases "tx_Out t")
    case (Some r)
    then show ?thesis by (cases r) (simp_all only: tx_events_def ext_bodies_def option.case sum.case list.map outs)
  qed (simp add: tx_events_def ext_bodies_def)
qed

lemma ext_bodies_body: "(e, b) \<in> set (ext_bodies t) \<Longrightarrow> eo_Body e = Some b"
  by (auto simp: ext_bodies_def split: option.splits sum.splits)

lemma Decode_dst_topic:
  "(case dst_topic env e of Some topic \<Rightarrow> DecodeEventTopic (e_Data env) (eo_DstAddr e) = Inr topic
    | None \<Rightarrow> \<exists>err. DecodeEventTopic (e_Data env) (eo_DstAddr e) = Inl err)"
  by (auto simp: dst_topic_def DecodeEventTopic_low split: option.split) (simp add: DecodeEventTopic_def)

lemma tx_events_body: "msg \<in> set (tx_events t) \<Longrightarrow> eo_Body (mc_Msg msg) \<noteq> None"
  by (auto simp: tx_events_def split: option.splits sum.splits Message.splits if_splits)

lemma span_logs_addresses:
  assumes "mset (map (e_String env) addresses) = mset (map fst (filtersByAddress f))"
    and "mset msgs = mset (concat (map (\<lambda>a. concat (map tx_events (drop (incl (e_String env a) m) (take (incl (e_String env a) n) (chain (e_String env a)))))) addresses))"
  shows "mset (concat (map (msg_logs env f) msgs)) = span_logs env chain incl f m n"
proof -
  let ?ev = "\<lambda>s. concat (map tx_events (drop (incl s m) (take (incl s n) (chain s))))"
  let ?lg = "\<lambda>s. mset (concat (map (msg_logs env f) (?ev s)))"
  have "mset (concat (map (msg_logs env f) msgs)) = sum_mset (image_mset (\<lambda>x. mset (msg_logs env f x)) (mset msgs))"
    by (rule mset_concat_map)
  also have "\<dots> = mset (concat (map (msg_logs env f) (concat (map (\<lambda>a. ?ev (e_String env a)) addresses))))"
    unfolding assms(2) by (rule mset_concat_map [symmetric])
  also have "\<dots> = sum_mset (image_mset (\<lambda>a. ?lg (e_String env a)) (mset addresses))"
    by (induction addresses) simp_all
  also have "\<dots> = sum_mset (image_mset ?lg (mset (map (e_String env) addresses)))"
    by (simp add: image_mset.compositionality comp_def)
  also have "\<dots> = span_logs env chain incl f m n"
    unfolding assms(1) span_logs_def by (simp add: image_mset.compositionality comp_def case_prod_unfold)
  finally show ?thesis .
qed

lemma span_logs_split:
  assumes "\<And>s. incl s 0 = 0" "\<And>s. incl s m \<le> incl s n"
  shows "span_logs env chain incl f 0 n = span_logs env chain incl f 0 m + span_logs env chain incl f m n"
proof -
  have "take (incl s n) (chain s) = take (incl s m) (chain s) @ drop (incl s m) (take (incl s n) (chain s))" for s
    using append_take_drop_id [of "incl s m" "take (incl s n) (chain s)"] assms(2) [of s] by (simp add: min_def)
  then have "concat (map (msg_logs env f) (concat (map tx_events (take (incl s n) (chain s))))) =
      concat (map (msg_logs env f) (concat (map tx_events (take (incl s m) (chain s))))) @
      concat (map (msg_logs env f) (concat (map tx_events (drop (incl s m) (take (incl s n) (chain s))))))" for s
    by (metis concat_append map_append)
  then show ?thesis
    unfolding span_logs_def by (simp add: assms(1) case_prod_unfold sum_mset.distrib)
qed

lemma run_honest:
  assumes "honest env chain incl" "poller_ok env lp" "e_CurrentMasterchainInfo env = Inr head"
    and "lp_blockConfirmations lp = 0" and topics: "topical env chain (lp_filters lp)"
  shows "\<exists>new. run env lp = Some (lp\<lparr>lp_store := lp_store lp @ new,
      lp_lastProcessedSeqNo := (if filtersByAddress (lp_filters lp) = [] then lp_lastProcessedSeqNo lp
        else max (lp_lastProcessedSeqNo lp) (b_SeqNo head))\<rparr>, Finished) \<and>
    mset (map unstamped new) = span_logs env chain incl (lp_filters lp) (lp_lastProcessedSeqNo lp) (max (lp_lastProcessedSeqNo lp) (b_SeqNo head))"
proof (cases "b_SeqNo head \<le> lp_lastProcessedSeqNo lp")
  case True
  then have "b_SeqNo head < lp_lastProcessedSeqNo lp \<or> b_SeqNo head = lp_lastProcessedSeqNo lp" by auto
  with True assms(3,4) show ?thesis
    by (intro exI [of _ "[]"]) (auto simp: run_def Let_def span_logs_def max_def)
next
  case False
  let ?m = "lp_lastProcessedSeqNo lp" and ?f = "lp_filters lp"
  have lookup: "\<And>w sh n. \<exists>b. e_LookupBlock env w sh n = Inr b \<and> b_SeqNo b = n"
    and rngs: "go_range (e_order env)" "go_range (e_range_names env)"
    using assms(1) by (simp_all add: honest_def)
  obtain to_block where to: "e_LookupBlock env (b_Workchain head) (b_Shard head) (b_SeqNo head) = Inr to_block" "b_SeqNo to_block = b_SeqNo head"
    using lookup by blast
  obtain addresses where addrs: "GetDistinctAddresses (e_range_addresses env) (e_MustParseAddr env) ?f = Inr addresses"
    "mset (map (e_String env) addresses) = mset (map fst (filtersByAddress ?f))"
    using addresses_honest [OF assms(1,2)] by blast
  from addrs(2) have empty: "addresses = [] \<longleftrightarrow> filtersByAddress ?f = []"
    by (metis map_is_Nil_conv mset_zero_iff)
  show ?thesis
  proof (cases "addresses = []")
    case True
    with False assms(3,4) to addrs(1) empty show ?thesis
      by (intro exI [of _ "[]"]) (auto simp: run_def scan_to_def Let_def span_logs_def)
  next
    case nonempty: False
    obtain prev where prev: "(if ?m = 0 then Inr None
        else map_sum id Some (e_LookupBlock env (b_Workchain to_block) (b_Shard to_block) ?m)) = Inr prev"
      "prev = None \<and> ?m = 0 \<or> (\<exists>b. prev = Some b \<and> b_SeqNo b = ?m)"
      using lookup [of "b_Workchain to_block" "b_Shard to_block" ?m] by (cases "?m = 0") auto
    have pos: "lp_pageSize lp > 0" "?m < b_SeqNo to_block" using assms(2) False to(2) by (simp_all add: poller_ok_def)
    have "\<forall>a \<in> set addresses. \<exists>msgs. fetchMessagesForAddress (e_client env) (e_String env) (lp_pageSize lp) prev to_block a = Some (Inr msgs) \<and>
        mset msgs = mset (concat (map tx_events (drop (incl (e_String env a) ?m)
           (take (incl (e_String env a) (b_SeqNo to_block)) (chain (e_String env a))))))"
      using fetch_honest [OF assms(1) prev(2) pos(2,1)] by blast
    from BackfillForAddresses_all [OF rngs(1) this] obtain msgs where
      msgs: "BackfillForAddresses (e_order env) (e_client env) (e_String env) (lp_pageSize lp) addresses prev to_block = Some (Inr msgs)"
        "mset msgs = mset (concat (map (\<lambda>a. concat (map tx_events (drop (incl (e_String env a) ?m)
           (take (incl (e_String env a) (b_SeqNo to_block)) (chain (e_String env a)))))) addresses))"
      by blast
    have "\<forall>msg \<in> set msgs. okE (DecodeEventTopic (e_Data env) (eo_DstAddr (mc_Msg msg))) \<and> eo_Body (mc_Msg msg) \<noteq> None"
    proof
      fix msg assume "msg \<in> set msgs"
      with mset_eq_setD [OF msgs(2)] obtain a t where a: "a \<in> set addresses" "t \<in> set (chain (e_String env a))" and msg: "msg \<in> set (tx_events t)"
        by (auto dest!: in_set_dropD in_set_takeD)
      from a(1) mset_eq_setD [OF addrs(2)] have "e_String env a \<in> fst ` set (filtersByAddress ?f)" by auto
      with topics a(2) msg have "dst_topic env (mc_Msg msg) \<noteq> None" by (fastforce simp: topical_def tx_events_ext)
      with Decode_dst_topic [of env "mc_Msg msg"] tx_events_body [OF msg]
      show "okE (DecodeEventTopic (e_Data env) (eo_DstAddr (mc_Msg msg))) \<and> eo_Body (mc_Msg msg) \<noteq> None"
        by (auto simp: okE_def split: option.splits)
    qed
    from processMessages_logs [OF rngs(2) this] obtain new where
      new: "processMessages env msgs lp = (lp\<lparr>lp_store := lp_store lp @ new\<rparr>, None)"
        "mset (map unstamped new) = mset (concat (map (msg_logs env ?f) msgs))" by blast
    have "run env lp = Some (lp\<lparr>lp_store := lp_store lp @ new, lp_lastProcessedSeqNo := b_SeqNo head\<rparr>, Finished)"
      using assms(3,4) False to addrs(1) nonempty prev(1) msgs(1) new(1)
      by (auto simp: run_def scan_to_def Let_def processBlocksRange_def)
    moreover have "mset (map unstamped new) = span_logs env chain incl ?f ?m (b_SeqNo head)"
      using span_logs_addresses [OF addrs(2) msgs(2)] new(2) to(2) by simp
    moreover have "max ?m (b_SeqNo head) = b_SeqNo head" using False by simp
    ultimately show ?thesis using empty nonempty by (intro exI [of _ new]) simp
  qed
qed

text \<open>The highest block after a tick: a node that does not tell its head does not count.\<close>

definition seen :: "u32 \<Rightarrow> ('a, 'c) PollerEnv \<Rightarrow> u32" where
  "seen n env = (case e_CurrentMasterchainInfo env of Inl e \<Rightarrow> n | Inr head \<Rightarrow> max n (b_SeqNo head))"

text \<open>Views that agree on addresses and on the encoding of cells.\<close>

definition same_view :: "('a, 'c) PollerEnv \<Rightarrow> ('a, 'c) PollerEnv \<Rightarrow> bool" where
  "same_view env env' = (e_String env' = e_String env \<and> e_Equals env' = e_Equals env \<and>
     e_Data env' = e_Data env \<and> e_ToBOC env' = e_ToBOC env)"

lemma msg_logs_view: "same_view env env' \<Longrightarrow> msg_logs env' f = msg_logs env f"
  unfolding same_view_def msg_logs_def by (elim conjE) (simp only:)

lemma topical_view: "same_view env env' \<Longrightarrow> topical env' chain f = topical env chain f"
  unfolding topical_def dst_topic_def same_view_def by (elim conjE) (simp only:)

lemma span_logs_view: "same_view env env' \<Longrightarrow> span_logs env' chain incl f m n = span_logs env chain incl f m n"
  by (simp add: span_logs_def msg_logs_view)

lemma polls_honest:
  assumes "\<forall>env' \<in> set envs. honest env' chain incl \<and> same_view env env'"
    and "poller_ok env lp" "lp_blockConfirmations lp = 0" "filtersByAddress (lp_filters lp) \<noteq> []" "caught_up env chain incl lp"
    and "topical env chain (lp_filters lp)"
  shows "\<exists>lp'. polls envs lp = Some lp' \<and> caught_up env chain incl lp' \<and> lp_filters lp' = lp_filters lp \<and>
    lp_lastProcessedSeqNo lp' = foldl seen (lp_lastProcessedSeqNo lp) envs"
  using assms
proof (induction envs arbitrary: lp)
  case Nil
  then show ?case by simp
next
  case (Cons env' envs)
  let ?m = "lp_lastProcessedSeqNo lp"
  show ?case
  proof (cases "e_CurrentMasterchainInfo env'")
    case (Inl e)
    then have "run env' lp = Some (lp, Failed (recovered e))" by (simp add: run_def)
    with Inl Cons show ?thesis by (simp add: seen_def)
  next
    case (Inr head)
    with Cons.prems(1) have h: "honest env' chain incl" "same_view env env'" "e_CurrentMasterchainInfo env' = Inr head"
      by simp_all
    let ?n = "max ?m (b_SeqNo head)"
    have ok: "poller_ok env' lp" using Cons.prems(2) h(2) by (simp add: poller_ok_def same_view_def)
    obtain new where new: "run env' lp = Some (lp\<lparr>lp_store := lp_store lp @ new, lp_lastProcessedSeqNo := ?n\<rparr>, Finished)"
      "mset (map unstamped new) = span_logs env chain incl (lp_filters lp) ?m ?n"
      using run_honest [OF h(1) ok h(3) Cons.prems(3)] Cons.prems(4,6) span_logs_view [OF h(2)] topical_view [OF h(2)] by auto
    let ?lp = "lp\<lparr>lp_store := lp_store lp @ new, lp_lastProcessedSeqNo := ?n\<rparr>"
    have "incl s 0 = 0" "incl s ?m \<le> incl s ?n" for s
      using h(1) max.cobounded1 [of ?m "b_SeqNo head"] unfolding honest_def by blast+
    from span_logs_split [where incl = incl and m = ?m and n = ?n and env = env and chain = chain and f = "lp_filters lp", OF this] Cons.prems(5) new(2) have "caught_up env chain incl ?lp" by (simp add: caught_up_def)
    with Cons.IH [of ?lp] Cons.prems new(1) h(3) show ?thesis by (simp add: poller_ok_def seen_def)
  qed
qed

section \<open>Any node\<close>

text \<open>A log that some registered filter asked for.\<close>

definition log_wanted :: "('a, 'c) PollerEnv \<Rightarrow> 'a Filters \<Rightarrow> 'a Log \<Rightarrow> bool" where
  "log_wanted env f l = (\<exists>(n, flt) \<in> set (filtersByName f). flt_ID flt = log_FilterID l \<and>
     flt_EventTopic flt = log_Topic l \<and> e_Equals env (flt_Address flt) (log_Address l))"

text \<open>Between two states the poller only appended wanted logs.\<close>

definition grown :: "('a, 'c) PollerEnv \<Rightarrow> 'a Service \<Rightarrow> 'a Service \<Rightarrow> bool" where
  "grown env lp lp' = (\<exists>new. lp' = lp\<lparr>lp_store := lp_store lp @ new\<rparr> \<and> (\<forall>l \<in> set new. log_wanted env (lp_filters lp) l))"

lemma grown_refl [simp]: "grown env lp lp"
  by (auto simp: grown_def intro: exI [of _ "[]"])

lemma grown_trans: "grown env lp lp' \<Longrightarrow> grown env lp' lp'' \<Longrightarrow> grown env lp lp''"
  unfolding grown_def by (elim exE conjE) (rule_tac x = "new @ newa" in exI, auto)

lemma MatchingFilters_wanted:
  assumes "go_range rng" "fid \<in> set (MatchingFilters rng String Equals c topic f)"
  shows "\<exists>(n, flt) \<in> set (filtersByName f). flt_ID flt = fid \<and> flt_EventTopic flt = topic \<and> Equals (flt_Address flt) c"
  using assms(2) by (fastforce simp: MatchingFilters_def go_range.set_rng [OF assms(1)] split: option.splits if_splits)

lemma unstamped_wanted: "unstamped l = unstamped l' \<Longrightarrow> log_wanted env f l = log_wanted env f l'"
  by (cases l; cases l') (simp add: unstamped_def log_wanted_def)

lemma Process_grown:
  assumes "go_range (e_range_names env)" "Process env msg lp = Inr lp'"
  shows "grown env lp lp'"
proof -
  from assms(2) obtain topic where topic: "DecodeEventTopic (e_Data env) (eo_DstAddr (mc_Msg msg)) = Inr topic"
    by (auto simp: Process_def)
  let ?fids = "MatchingFilters (e_range_names env) (e_String env) (e_Equals env) (eo_SrcAddr (mc_Msg msg)) topic (lp_filters lp)"
  show ?thesis
  proof (cases "?fids = []")
    case True
    with assms(2) topic show ?thesis by (simp add: Process_def)
  next
    case False
    with assms(2) topic obtain body where
      lp': "lp' = lp\<lparr>lp_store := save_all env (map (new_log msg topic (e_ToBOC env body)) ?fids) (lp_store lp)\<rparr>"
      by (auto simp: Process_def Let_def split: option.splits)
    obtain new where new: "save_all env (map (new_log msg topic (e_ToBOC env body)) ?fids) (lp_store lp) = lp_store lp @ new"
      "map unstamped new = map unstamped (map (new_log msg topic (e_ToBOC env body)) ?fids)"
      using save_all_appends by blast
    have "log_wanted env (lp_filters lp) l" if "l \<in> set new" for l
    proof -
      from that have "unstamped l \<in> set (map unstamped new)" by simp
      then obtain fid where fid: "fid \<in> set ?fids" "unstamped l = unstamped (new_log msg topic (e_ToBOC env body) fid)"
        unfolding new(2) by auto
      from MatchingFilters_wanted [OF assms(1) fid(1)] have "log_wanted env (lp_filters lp) (new_log msg topic (e_ToBOC env body) fid)"
        by (auto simp: log_wanted_def new_log_def)
      then show ?thesis by (rule unstamped_wanted [OF fid(2), THEN iffD2])
    qed
    with lp' new(1) show ?thesis by (auto simp: grown_def)
  qed
qed

lemma processMessages_grown:
  assumes "go_range (e_range_names env)"
  shows "processMessages env msgs lp = (lp', r) \<Longrightarrow> grown env lp lp'"
  by (induction msgs arbitrary: lp) (auto split: sum.splits intro: grown_trans Process_grown [OF assms])

lemma processBlocksRange_grown:
  assumes "go_range (e_range_names env)" "processBlocksRange env addresses prevBlock toBlock lp = Some (lp', r)"
  shows "grown env lp lp'"
  using assms(2) processMessages_grown [OF assms(1)]
  by (auto simp: processBlocksRange_def split: option.splits sum.splits gerr.splits prod.splits)

text \<open>An iteration leaves a grown service, and moves its position only when it finishes.\<close>

definition advanced :: "('a, 'c) PollerEnv \<Rightarrow> u32 \<Rightarrow> 'a Service \<Rightarrow> 'a Service \<Rightarrow> outcome \<Rightarrow> bool" where
  "advanced env n lp lp' r = (\<exists>lp1. grown env lp lp1 \<and> (lp' = lp1 \<or> r = Finished \<and> lp' = lp1\<lparr>lp_lastProcessedSeqNo := n\<rparr>))"

lemma advanced_refl [simp]: "advanced env n lp lp r"
  unfolding advanced_def using grown_refl by blast

lemma scan_to_advanced:
  assumes "go_range (e_range_names env)" "scan_to env toBlock lp = Some (lp', r)"
  shows "advanced env (b_SeqNo toBlock) lp lp' r"
proof (cases "GetDistinctAddresses (e_range_addresses env) (e_MustParseAddr env) (lp_filters lp)")
  case (Inl e)
  with assms(2) show ?thesis by (auto simp: scan_to_def)
next
  case (Inr addresses)
  let ?prev = "if lp_lastProcessedSeqNo lp = 0 then Inr None
      else map_sum id Some (e_LookupBlock env (b_Workchain toBlock) (b_Shard toBlock) (lp_lastProcessedSeqNo lp))"
  show ?thesis
  proof (cases ?prev)
    case (Inl e)
    with Inr assms(2) show ?thesis by (auto simp: scan_to_def split: if_splits)
  next
    case prev: (Inr prevBlock)
    show ?thesis
    proof (cases "addresses = []")
      case True
      with Inr assms(2) show ?thesis by (auto simp: scan_to_def)
    next
      case False
      with Inr prev assms(2) obtain lp1 r1 where p: "processBlocksRange env addresses prevBlock toBlock lp = Some (lp1, r1)"
        and lp': "lp' = lp1 \<or> r = Finished \<and> lp' = lp1\<lparr>lp_lastProcessedSeqNo := b_SeqNo toBlock\<rparr>"
        unfolding scan_to_def by (auto simp del: if_split_eq1 split: option.splits outcome.splits)
      with processBlocksRange_grown [OF assms(1) p] show ?thesis by (auto simp: advanced_def)
    qed
  qed
qed

section \<open>Properties\<close>

text \<open>
  C15: What one iteration can do, against any node. It never touches the filters and only appends to
  the store; each new log carries the identifier of a registered filter with the log's topic and
  source. The last processed block never moves back, as long as the node returns the blocks it is
  asked for, and stays where it is unless the iteration finishes.
\<close>

theorem run_step:
  assumes "run env lp = Some (lp', r)" "go_range (e_range_names env)"
    and "\<forall>w sh n b. e_LookupBlock env w sh n = Inr b \<longrightarrow> b_SeqNo b = n"
  shows "lp_filters lp' = lp_filters lp \<and>
    (\<exists>new. lp_store lp' = lp_store lp @ new \<and> (\<forall>l \<in> set new. \<exists>(n, flt) \<in> set (filtersByName (lp_filters lp)).
       flt_ID flt = log_FilterID l \<and> flt_EventTopic flt = log_Topic l \<and> e_Equals env (flt_Address flt) (log_Address l))) \<and>
    lp_lastProcessedSeqNo lp \<le> lp_lastProcessedSeqNo lp' \<and>
    (r \<noteq> Finished \<longrightarrow> lp_lastProcessedSeqNo lp' = lp_lastProcessedSeqNo lp)"
proof -
  have "\<exists>n. advanced env n lp lp' r \<and> lp_lastProcessedSeqNo lp \<le> n"
  proof (cases "e_CurrentMasterchainInfo env")
    case (Inl e)
    with assms(1) show ?thesis by (auto simp: run_def)
  next
    case (Inr head)
    let ?safe = "b_SeqNo head - lp_blockConfirmations lp"
    show ?thesis
    proof (cases "?safe \<le> lp_lastProcessedSeqNo lp")
      case True
      then have "?safe < lp_lastProcessedSeqNo lp \<or> ?safe = lp_lastProcessedSeqNo lp" by auto
      with Inr assms(1) show ?thesis by (auto simp: run_def Let_def)
    next
      case False
      then have "\<not> ?safe < lp_lastProcessedSeqNo lp" "?safe \<noteq> lp_lastProcessedSeqNo lp" by auto
      with Inr assms(1) have "(case e_LookupBlock env (b_Workchain head) (b_Shard head) ?safe of
            Inl e \<Rightarrow> Some (lp, Failed (recovered (wrap_err (''LookupBlock for safe seq '' @ show_nat (unat ?safe)) e)))
          | Inr toBlock \<Rightarrow> scan_to env toBlock lp) = Some (lp', r)"
        by (simp add: run_def Let_def)
      then show ?thesis
        using scan_to_advanced [OF assms(2)] assms(3) False by (fastforce split: sum.splits)
    qed
  qed
  then show ?thesis
    by (auto simp: advanced_def grown_def log_wanted_def)
qed

lemma sum_list_swap:
  "(\<Sum>x\<leftarrow>xs. \<Sum>y\<leftarrow>ys. f x y) = (\<Sum>y\<leftarrow>ys. \<Sum>x\<leftarrow>xs. (f x y :: 'm :: comm_monoid_add))"
  by (induction xs) (simp_all add: sum_list_addf)

lemma sum_list_key:
  fixes g :: "'k \<Rightarrow> 'm :: comm_monoid_add"
  assumes "distinct (map fst xs)"
  shows "(\<Sum>(s, ts)\<leftarrow>xs. if k = s then g s else 0) = (if k \<in> fst ` set xs then g k else 0)"
  using assms by (induction xs) (auto simp: image_iff)

lemma sum_list_if_mset:
  "mset (map g (filter P xs)) = (\<Sum>x\<leftarrow>xs. if P x then {#g x#} else {#})"
  by (induction xs) simp_all

lemma mset_concat_sum: "mset (concat (map g xs)) = (\<Sum>x\<leftarrow>xs. mset (g x))"
  by (simp add: mset_concat comp_def)

text \<open>A message of a watched account gives one log for each registered filter of that account and topic.\<close>

lemma msg_logs_registered:
  assumes ix: "all_indexed env f" and form: "e_String env (eo_SrcAddr e) = s"
    "\<forall>(n, flt) \<in> set (filtersByName f). e_Equals env (flt_Address flt) (eo_SrcAddr e) \<longleftrightarrow> e_String env (flt_Address flt) = s"
    and topic: "dst_topic env e \<noteq> None" and body: "eo_Body e = Some b"
  shows "mset (msg_logs env f \<lparr>mc_TxHash = tx_Hash t, mc_LT = tx_LT t, mc_Msg = e\<rparr>) =
    (\<Sum>(n, flt)\<leftarrow>filtersByName f. if e_String env (flt_Address flt) = s \<and> dst_topic env e = Some (flt_EventTopic flt)
       then {#event_log env flt t e b#} else {#})"
proof -
  from topic obtain tp where tp: "dst_topic env e = Some tp" by blast
  with Decode_dst_topic [of env e] have dec: "DecodeEventTopic (e_Data env) (eo_DstAddr e) = Inr tp" by simp
  let ?msg = "\<lparr>mc_TxHash = tx_Hash t, mc_LT = tx_LT t, mc_Msg = e\<rparr>"
  let ?P = "\<lambda>(n, flt). e_String env (flt_Address flt) = s \<and> flt_EventTopic flt = tp"
  have keep: "filter (\<lambda>(_, flt). e_Equals env (flt_Address flt) (eo_SrcAddr e) \<and> flt_EventTopic flt = tp) (filtersByName f) =
      filter ?P (filtersByName f)"
    using form(2) by (intro filter_cong) auto
  have "MatchingFilters (\<lambda>m. m) (e_String env) (e_Equals env) (eo_SrcAddr e) tp f =
      map (\<lambda>(_, flt). flt_ID flt) (filter ?P (filtersByName f))"
  proof (cases "watched f (s, tp)")
    case True
    then show ?thesis using keep by (simp add: MatchingFilters_watched form(1))
  next
    case False
    with ix have "filter ?P (filtersByName f) = []" by (auto simp: all_indexed_def filter_key_def filter_empty_conv)
    with False show ?thesis by (simp add: MatchingFilters_unwatched form(1))
  qed
  then have "msg_logs env f ?msg = map (new_log ?msg tp (e_ToBOC env b)) (map (\<lambda>(_, flt). flt_ID flt) (filter ?P (filtersByName f)))"
    using dec body by (simp add: msg_logs_def)
  also have "\<dots> = map (\<lambda>(n, flt). event_log env flt t e b) (filter ?P (filtersByName f))"
    by (auto simp: new_log_def event_log_def)
  finally have logs: "msg_logs env f ?msg = map (\<lambda>(n, flt). event_log env flt t e b) (filter ?P (filtersByName f))" .
  show ?thesis
    unfolding logs sum_list_if_mset tp by (intro arg_cong [where f = sum_list] map_cong) (auto split: if_splits)
qed

lemma one_formD:
  assumes "one_form env chain f" "(s, ts) \<in> set (filtersByAddress f)" "t \<in> set (chain s)" "(e, b) \<in> set (ext_bodies t)"
  shows "e_String env (eo_SrcAddr e) = s"
    "\<forall>(n, flt) \<in> set (filtersByName f). e_Equals env (flt_Address flt) (eo_SrcAddr e) \<longleftrightarrow> e_String env (flt_Address flt) = s"
proof -
  note * = bspec [OF bspec [OF bspec [OF assms(1) [unfolded one_form_def] assms(2), unfolded prod.case] assms(3)] assms(4), unfolded prod.case]
  show "e_String env (eo_SrcAddr e) = s" by (rule conjunct1 [OF *])
  show "\<forall>(n, flt) \<in> set (filtersByName f). e_Equals env (flt_Address flt) (eo_SrcAddr e) \<longleftrightarrow> e_String env (flt_Address flt) = s"
    by (rule conjunct2 [OF *])
qed

lemma topicalD:
  assumes "topical env chain f" "(s, ts) \<in> set (filtersByAddress f)" "t \<in> set (chain s)" "(e, b) \<in> set (ext_bodies t)"
  shows "dst_topic env e \<noteq> None"
  using bspec [OF bspec [OF bspec [OF assms(1) [unfolded topical_def] assms(2), unfolded prod.case] assms(3)] assms(4), unfolded prod.case] .

lemma sum_list_if: "(\<Sum>t\<leftarrow>ts. if c then g t else 0) = (if c then \<Sum>t\<leftarrow>ts. g t else (0 :: 'm :: comm_monoid_add))"
  by simp

lemma tx_logs_registered:
  assumes "all_indexed env f" "one_form env chain f" "topical env chain f" "(s, ts) \<in> set (filtersByAddress f)" "t \<in> set (chain s)"
  shows "mset (concat (map (msg_logs env f) (tx_events t))) =
    (\<Sum>(n, flt)\<leftarrow>filtersByName f. if e_String env (flt_Address flt) = s then mset (filter_logs env flt t) else {#})"
proof -
  let ?G = "\<lambda>(e, b) (n, flt). if e_String env (flt_Address flt) = s \<and> dst_topic env e = Some (flt_EventTopic flt)
       then {#event_log env flt t e b#} else {#}"
  have "mset (concat (map (msg_logs env f) (tx_events t))) =
      (\<Sum>(e, b)\<leftarrow>ext_bodies t. mset (msg_logs env f \<lparr>mc_TxHash = tx_Hash t, mc_LT = tx_LT t, mc_Msg = e\<rparr>))"
    unfolding tx_events_ext map_map mset_concat_sum by (simp add: comp_def case_prod_unfold)
  also have "\<dots> = (\<Sum>eb\<leftarrow>ext_bodies t. \<Sum>nf\<leftarrow>filtersByName f. ?G eb nf)"
  proof (intro arg_cong [where f = sum_list] map_cong refl)
    fix eb assume eb: "eb \<in> set (ext_bodies t)"
    obtain e b where e: "eb = (e, b)" by (cases eb)
    have in_t: "(e, b) \<in> set (ext_bodies t)" using eb e by simp
    have "mset (msg_logs env f \<lparr>mc_TxHash = tx_Hash t, mc_LT = tx_LT t, mc_Msg = e\<rparr>) = (\<Sum>nf\<leftarrow>filtersByName f. ?G (e, b) nf)"
      using msg_logs_registered [OF assms(1) one_formD [OF assms(2,4,5) in_t] topicalD [OF assms(3-5) in_t] ext_bodies_body [OF in_t], of t]
      by (simp only: prod.case)
    then show "(case eb of (e, b) \<Rightarrow> mset (msg_logs env f \<lparr>mc_TxHash = tx_Hash t, mc_LT = tx_LT t, mc_Msg = e\<rparr>)) = (\<Sum>nf\<leftarrow>filtersByName f. ?G eb nf)"
      by (simp add: e)
  qed
  also have "\<dots> = (\<Sum>nf\<leftarrow>filtersByName f. \<Sum>eb\<leftarrow>ext_bodies t. ?G eb nf)" by (rule sum_list_swap)
  also have "\<dots> = (\<Sum>(n, flt)\<leftarrow>filtersByName f. if e_String env (flt_Address flt) = s then mset (filter_logs env flt t) else {#})"
  proof -
    have "mset (filter_logs env flt t) = (\<Sum>eb\<leftarrow>ext_bodies t.
        if dst_topic env (fst eb) = Some (flt_EventTopic flt) then {#event_log env flt t (fst eb) (snd eb)#} else {#})" for flt
      unfolding filter_logs_def sum_list_if_mset case_prod_unfold by (rule refl)
    then show ?thesis
      by (intro arg_cong [where f = sum_list] map_cong refl) (simp add: case_prod_unfold)
  qed
  finally show ?thesis .
qed

text \<open>So what the poller makes of the chain is what ought to be there.\<close>

lemma span_logs_emitted:
  assumes wf: "filters_wf f" and ok: "all_indexed env f" "one_form env chain f" "topical env chain f" and "\<And>s. incl s 0 = 0"
  shows "span_logs env chain incl f 0 n = emitted_logs env chain incl f n"
proof -
  let ?T = "\<lambda>s. take (incl s n) (chain s)"
  let ?L = "\<lambda>flt s. \<Sum>t\<leftarrow>?T s. mset (filter_logs env flt t)"
  have "span_logs env chain incl f 0 n =
      (\<Sum>(s, ts)\<leftarrow>filtersByAddress f. \<Sum>t\<leftarrow>?T s. mset (concat (map (msg_logs env f) (tx_events t))))"
    by (simp add: span_logs_def assms(5) map_concat concat_concat_map comp_def mset_concat_sum case_prod_unfold sum_mset_sum_list flip: mset_map)
  also have "\<dots> = (\<Sum>(s, ts)\<leftarrow>filtersByAddress f. \<Sum>t\<leftarrow>?T s. \<Sum>(n, flt)\<leftarrow>filtersByName f.
      if e_String env (flt_Address flt) = s then mset (filter_logs env flt t) else {#})"
  proof (intro arg_cong [where f = sum_list] map_cong refl)
    fix st assume st: "st \<in> set (filtersByAddress f)"
    have "mset (concat (map (msg_logs env f) (tx_events t))) = (\<Sum>(n, flt)\<leftarrow>filtersByName f.
        if e_String env (flt_Address flt) = fst st then mset (filter_logs env flt t) else {#})" if "t \<in> set (?T (fst st))" for t
      using tx_logs_registered [OF ok, of "fst st" "snd st" t] st that by (auto dest: in_set_takeD)
    then show "(case st of (s, ts) \<Rightarrow> \<Sum>t\<leftarrow>?T s. mset (concat (map (msg_logs env f) (tx_events t)))) =
      (case st of (s, ts) \<Rightarrow> \<Sum>t\<leftarrow>?T s. \<Sum>(n, flt)\<leftarrow>filtersByName f.
        if e_String env (flt_Address flt) = s then mset (filter_logs env flt t) else {#})"
      unfolding case_prod_unfold by (intro arg_cong [where f = sum_list] map_cong refl)
  qed
  also have "\<dots> = (\<Sum>st\<leftarrow>filtersByAddress f. \<Sum>nf\<leftarrow>filtersByName f. if e_String env (flt_Address (snd nf)) = fst st then ?L (snd nf) (fst st) else {#})"
  proof (intro arg_cong [where f = sum_list] map_cong refl)
    fix st :: "string \<times> (u32, unit) gomap"
    have "(\<Sum>t\<leftarrow>?T (fst st). \<Sum>nf\<leftarrow>filtersByName f. if e_String env (flt_Address (snd nf)) = fst st then mset (filter_logs env (snd nf) t) else {#}) =
        (\<Sum>nf\<leftarrow>filtersByName f. \<Sum>t\<leftarrow>?T (fst st). if e_String env (flt_Address (snd nf)) = fst st then mset (filter_logs env (snd nf) t) else {#})"
      by (rule sum_list_swap)
    then show "(case st of (s, ts) \<Rightarrow> \<Sum>t\<leftarrow>?T s. \<Sum>(n, flt)\<leftarrow>filtersByName f.
        if e_String env (flt_Address flt) = s then mset (filter_logs env flt t) else {#}) =
      (\<Sum>nf\<leftarrow>filtersByName f. if e_String env (flt_Address (snd nf)) = fst st then ?L (snd nf) (fst st) else {#})"
      unfolding case_prod_unfold sum_list_if by simp
  qed
  also have "\<dots> = (\<Sum>nf\<leftarrow>filtersByName f. \<Sum>st\<leftarrow>filtersByAddress f. if e_String env (flt_Address (snd nf)) = fst st then ?L (snd nf) (fst st) else {#})"
    by (rule sum_list_swap)
  also have "\<dots> = (\<Sum>nf\<leftarrow>filtersByName f. ?L (snd nf) (e_String env (flt_Address (snd nf))))"
  proof (rule arg_cong [where f = sum_list], rule map_cong [OF refl])
    fix nf assume "nf \<in> set (filtersByName f)"
    with ok(1) have "watched f (filter_key (e_String env) (snd nf))" by (auto simp: all_indexed_def)
    then have key: "e_String env (flt_Address (snd nf)) \<in> fst ` set (filtersByAddress f)"
      by (auto simp: watched_def filter_key_def topics_at_def split: option.splits dest!: map_of_SomeD) (force)
    have "distinct (map fst (filtersByAddress f))" using wf by (simp add: filters_wf_def gomap_wf_def)
    from sum_list_key [OF this, of "e_String env (flt_Address (snd nf))" "?L (snd nf)"] key
    show "(\<Sum>st\<leftarrow>filtersByAddress f. if e_String env (flt_Address (snd nf)) = fst st then ?L (snd nf) (fst st) else {#}) =
        ?L (snd nf) (e_String env (flt_Address (snd nf)))"
      by (simp add: case_prod_unfold)
  qed
  also have "\<dots> = emitted_logs env chain incl f n"
    by (simp add: emitted_logs_def mset_concat_sum case_prod_unfold Let_def)
  finally show ?thesis .
qed

lemma polls_from_start:
  assumes "\<forall>env' \<in> set envs. honest env' chain incl \<and> same_view env env'"
    and "lp = (NewLogPoller cfg)\<lparr>lp_filters := f\<rparr>" "pc_PageSize cfg > 0" "filters_wf f" "filtersByAddress f \<noteq> []"
    and "\<forall>(s, ts) \<in> set (filtersByAddress f). s \<in> range (e_String env)" "\<And>s. incl s 0 = 0"
    and "all_indexed env f" "one_form env chain f" "topical env chain f"
  shows "\<exists>lp'. polls envs lp = Some lp' \<and>
    lp_lastProcessedSeqNo lp' = foldl seen 0 envs \<and>
    mset (map unstamped (lp_store lp')) = emitted_logs env chain incl f (lp_lastProcessedSeqNo lp')"
proof -
  have "poller_ok env lp" using assms(2-6) by (simp add: poller_ok_def NewLogPoller_def)
  moreover have "caught_up env chain incl lp"
    using assms(2,7) by (simp add: caught_up_def NewLogPoller_def span_logs_def)
  ultimately show ?thesis
    using polls_honest [OF assms(1), of lp] assms(2,5,10) span_logs_emitted [where incl = incl, OF assms(4,8-10,7)]
    by (auto simp: NewLogPoller_def caught_up_def)
qed

text \<open>
  C5: Logs are delivered exactly once. Start a poller with some filters, none of which has been silenced by the
  removal of another one, and let it poll honest nodes at any heights, in any order, some of which do not answer.
  Suppose that every external message with a body that a watched account has sent carries a topic in its destination
  (otherwise the poller gets stuck), and that filters and messages name an account in one printed form. Then the
  polling loop goes on, the poller ends at the highest block it has seen, and its store holds, for each registered
  filter, exactly one log for every external message with the filter's topic that the filter's account has sent
  up to that block, with the filter's identifier, the transaction's hash and Lamport time and the encoded body,
  and nothing else.
\<close>

theorem polls_exactly_once:
  assumes "\<forall>env' \<in> set envs. honest env' chain incl \<and> same_view env env'"
    and "lp = (NewLogPoller cfg)\<lparr>lp_filters := f\<rparr>" "pc_PageSize cfg > 0" "filters_wf f" "filtersByAddress f \<noteq> []"
    and "\<forall>(s, ts) \<in> set (filtersByAddress f). s \<in> range (e_String env)" "\<And>s. incl s 0 = 0"
    and "all_indexed env f" "one_form env chain f" "topical env chain f"
  shows "\<exists>lp'. polls envs lp = Some lp' \<and>
    lp_lastProcessedSeqNo lp' = foldl seen 0 envs \<and>
    mset (map unstamped (lp_store lp')) = emitted_logs env chain incl f (lp_lastProcessedSeqNo lp')"
  by (rule polls_from_start [OF assms])

text \<open>
  C30: Failures lose logs. If the scan of every watched address fails (say, because the liteclient
  cannot fetch account states), the iteration still finishes without an error and moves past the
  block, so that the next one does not look at the missed range again.
\<close>

theorem run_skips_failed_scans:
  fixes env :: "('a, 'c) PollerEnv"
  assumes "e_CurrentMasterchainInfo env = Inr head" "lp_lastProcessedSeqNo lp < b_SeqNo head - lp_blockConfirmations lp"
    and "e_LookupBlock env (b_Workchain head) (b_Shard head) (b_SeqNo head - lp_blockConfirmations lp) = Inr toBlock"
    and "GetDistinctAddresses (e_range_addresses env) (e_MustParseAddr env) (lp_filters lp) = Inr addresses" "addresses \<noteq> []"
    and "(if lp_lastProcessedSeqNo lp = 0 then Inr None
       else map_sum id Some (e_LookupBlock env (b_Workchain toBlock) (b_Shard toBlock) (lp_lastProcessedSeqNo lp))) = Inr prevBlock"
    and "\<forall>a \<in> set addresses. \<exists>e. \<not> is_panic e \<and>
      fetchMessagesForAddress (e_client env) (e_String env) (lp_pageSize lp) prevBlock toBlock a = Some (Inl e)"
    and "go_range (e_order env)"
  shows "run env lp = Some (lp\<lparr>lp_lastProcessedSeqNo := b_SeqNo toBlock\<rparr>, Finished)"
proof -
  let ?fetch = "fetchMessagesForAddress (e_client env) (e_String env) (lp_pageSize lp) prevBlock toBlock"
  from assms(7) obtain h where h: "\<And>a. a \<in> set addresses \<Longrightarrow> \<not> is_panic (h a) \<and> ?fetch a = Some (Inl (h a))" by metis
  then have fetched: "map (\<lambda>a. (a, ?fetch a)) addresses = map (\<lambda>a. (a, Some (Inl (h a)))) addresses" by simp
  have none: "find (\<lambda>(addr, r). case r of Some (Inl e) \<Rightarrow> is_panic e | _ \<Rightarrow> False) (map (\<lambda>a. (a, Some (Inl (h a)) :: ('a, 'c) MsgWithCtx list res option)) addresses) = None"
    using h by (auto simp: find_None_iff)
  have nil: "concat (map (\<lambda>(addr, r). case r of Some (Inr msgs) \<Rightarrow> [(addr, msgs)] | _ \<Rightarrow> [])
      (map (\<lambda>a. (a, Some (Inl (h a)) :: ('a, 'c) MsgWithCtx list res option)) addresses)) = []"
    by (induction addresses) auto
  have ord: "e_order env [] = []" using go_range.mset_rng [OF assms(8), of "[]"] by simp
  have "BackfillForAddresses (e_order env) (e_client env) (e_String env) (lp_pageSize lp) addresses prevBlock toBlock = Some (Inr [])"
    unfolding BackfillForAddresses_def Let_def fetched none nil ord by auto
  then have "processBlocksRange env addresses prevBlock toBlock lp = Some (lp, Finished)" by (simp add: processBlocksRange_def)
  with assms(1-6) show ?thesis by (auto simp: run_def scan_to_def Let_def)
qed

section \<open>A concrete poller\<close>

definition sample_chain :: "string \<Rightarrow> (string, nat) Transaction list" where
  "sample_chain s = (if s = ''x'' then sample_history ''x'' ''d'' else [])"

definition sample_incl :: "string \<Rightarrow> u32 \<Rightarrow> nat" where
  "sample_incl s n = (if s = ''x'' then min 3 (unat n) else 0)"

definition sample_env :: "u32 \<Rightarrow> (string, nat) PollerEnv" where
  "sample_env head = \<lparr>e_String = (\<lambda>a. a), e_Equals = (=), e_MustParseAddr = Inr, e_Data = (\<lambda>a. [0, 0, 0, 5]), e_ToBOC = (\<lambda>b. [of_nat b]),
     e_CurrentMasterchainInfo = Inr (sample_block head), e_LookupBlock = (\<lambda>w sh n. Inr (sample_block n)),
     e_client = sim_client sample_chain sample_incl, e_now = (\<lambda>n. int n + 1),
     e_range_names = rev, e_range_addresses = rev, e_order = rev\<rparr>"

definition sample_filters :: "string Filters" where
  "sample_filters = RegisterFilter (\<lambda>a. a) (sample_filter ''f'' ''x'' 5 1) newFilters"

definition sample_lp :: "string Service" where
  "sample_lp = (NewLogPoller DefaultPollerConfig)\<lparr>lp_filters := sample_filters\<rparr>"

lemma sample_topic: "DecodeEventTopic (e_Data (sample_env head)) (Some a) = Inr 5"
  by (simp add: sample_env_def DecodeEventTopic_def BigEndian_Uint32_def be_nat_def)

lemma sample_bodies:
  "\<lbrakk>t \<in> set (sample_chain s); (e, b) \<in> set (ext_bodies t)\<rbrakk> \<Longrightarrow> s = ''x'' \<and> eo_SrcAddr e = ''x'' \<and> eo_DstAddr e = Some ''d''"
  by (auto simp: sample_chain_def sample_history_def sample_event_def ext_bodies_def split: if_splits)

lemma sample_honest: "honest (sample_env head) sample_chain sample_incl"
proof -
  have hist: "history_ok (sample_chain s)" for s
    using sample_history_ok [of "''x''" "''d''"] by (cases "s = ''x''") (simp_all add: sample_chain_def, simp add: history_ok_def)
  have incl: "sample_incl s 0 = 0 \<and> (\<forall>n. sample_incl s n \<le> length (sample_chain s)) \<and> (\<forall>m n. m \<le> n \<longrightarrow> sample_incl s m \<le> sample_incl s n)" for s
    by (auto simp: sample_incl_def sample_chain_def sample_history_def word_le_nat_alt)
  show ?thesis
    unfolding honest_def
    using hist incl sim_serves [of sample_chain, OF hist]
    by (simp add: sample_env_def sim_client_def sample_block_def rng_rev.go_range_axioms)
qed

lemma sample_filters_ok: "filters_wf sample_filters" "filtersByAddress sample_filters = [(''x'', [(5, ())])]"
    "filtersByName sample_filters = [(''f'', sample_filter ''f'' ''x'' 5 1)]"
    apply (simp add: sample_filters_def RegisterFilter_wf [OF filters_wf_new])
  unfolding sample_filters_def
  by (simp_all add: RegisterFilter_def newFilters_def sample_filter_def topics_at_def Let_def)

lemma sample_msg_logs:
  assumes "eo_SrcAddr (mc_Msg msg) = ''x''" "eo_DstAddr (mc_Msg msg) = Some d" "eo_Body (mc_Msg msg) = Some b"
  shows "msg_logs (sample_env head) sample_filters msg = [new_log msg 5 [of_nat b] 1]"
proof -
  have "MatchingFilters (\<lambda>m. m) (e_String (sample_env head)) (e_Equals (sample_env head)) ''x'' 5 sample_filters = [1]"
    by (simp add: MatchingFilters_def sample_filters_ok) (simp add: sample_env_def sample_filter_def)
  moreover have "e_ToBOC (sample_env head) b = [of_nat b]" by (simp add: sample_env_def)
  ultimately show ?thesis using assms by (simp add: msg_logs_def sample_topic)
qed

lemma sample_span:
  "image_mset log_Data (span_logs (sample_env head) sample_chain sample_incl sample_filters 0 n) =
     mset (concat (take (min 3 (unat n)) [[[1]], [[2]], [[3], [4]]]))"
proof -
  have "sample_incl ''x'' 0 = 0" "sample_incl ''x'' n = min 3 (unat n)" by (simp_all add: sample_incl_def)
  then have "image_mset log_Data (span_logs (sample_env head) sample_chain sample_incl sample_filters 0 n) =
      mset (concat (map (\<lambda>t. map log_Data (concat (map (msg_logs (sample_env head) sample_filters) (tx_events t))))
        (take (min 3 (unat n)) (sample_history ''x'' ''d''))))"
    by (simp add: span_logs_def sample_filters_ok sample_chain_def map_concat comp_def concat_concat_map flip: mset_map)
  also have "\<dots> = mset (concat (take (min 3 (unat n)) (map (\<lambda>t. map log_Data (concat (map (msg_logs (sample_env head) sample_filters) (tx_events t))))
        (sample_history ''x'' ''d''))))" by (simp add: take_map)
  also have "map (\<lambda>t. map log_Data (concat (map (msg_logs (sample_env head) sample_filters) (tx_events t)))) (sample_history ''x'' ''d'') =
      [[[1]], [[2]], [[3], [4]]]"
    by (simp add: sample_history_def tx_events_def sample_event_def sample_msg_logs new_log_def)
  finally show ?thesis .
qed

lemma sample_spec:
  "all_indexed (sample_env head) sample_filters" "one_form (sample_env head) sample_chain sample_filters"
  "topical (sample_env head) sample_chain sample_filters"
proof -
  have env: "e_String (sample_env head) a = a" "e_Equals (sample_env head) a b = (a = b)" "e_Data (sample_env head) a = [0, 0, 0, 5]" for a b
    by (simp_all add: sample_env_def)
  show "all_indexed (sample_env head) sample_filters"
    by (simp add: all_indexed_def sample_filters_ok watched_def topics_at_def filter_key_def env) (simp add: sample_filter_def)
  show "one_form (sample_env head) sample_chain sample_filters"
    by (auto simp: one_form_def env dest: sample_bodies)
  show "topical (sample_env head) sample_chain sample_filters"
    by (auto simp: topical_def dst_topic_def env dest: sample_bodies)
qed

lemma sample_emitted:
  "emitted_logs (sample_env head) sample_chain sample_incl sample_filters n = span_logs (sample_env head) sample_chain sample_incl sample_filters 0 n"
  by (rule span_logs_emitted [OF sample_filters_ok(1) sample_spec, symmetric]) (simp add: sample_incl_def)

text \<open>A node that does not answer.\<close>

definition silent_env :: "(string, nat) PollerEnv" where
  "silent_env = (sample_env 0)\<lparr>e_CurrentMasterchainInfo := Inl (Err ''timeout'')\<rparr>"

lemma silent_honest: "honest silent_env sample_chain sample_incl"
  using sample_honest [of 0] by (simp add: honest_def silent_env_def)

theorem polls_exactly_once_witness:
  "\<exists>lp'. polls [sample_env 2, silent_env, sample_env 1, sample_env 3] sample_lp = Some lp' \<and> lp_lastProcessedSeqNo lp' = 3 \<and>
    image_mset log_Data (mset (lp_store lp')) = {#[1], [2], [3], [4]#}"
proof -
  have views: "\<forall>env' \<in> set [sample_env 2, silent_env, sample_env 1, sample_env 3]. honest env' sample_chain sample_incl \<and>
      same_view (sample_env 0) env'"
    by (simp add: sample_honest silent_honest) (simp add: same_view_def sample_env_def silent_env_def)
  have data: "log_Data (unstamped l) = log_Data l" for l :: "string Log" by (simp add: unstamped_def)
  obtain lp' where lp': "polls [sample_env 2, silent_env, sample_env 1, sample_env 3] sample_lp = Some lp'"
    "lp_lastProcessedSeqNo lp' = foldl seen 0 [sample_env 2, silent_env, sample_env 1, sample_env 3]"
    "mset (map unstamped (lp_store lp')) = emitted_logs (sample_env 0) sample_chain sample_incl sample_filters (lp_lastProcessedSeqNo lp')"
    using polls_exactly_once [OF views sample_lp_def _ sample_filters_ok(1) _ _ _ sample_spec] sample_filters_ok(2)
    by (fastforce simp: DefaultPollerConfig_def sample_incl_def sample_env_def)
  from lp'(2) have last: "lp_lastProcessedSeqNo lp' = 3" by (simp add: seen_def silent_env_def sample_env_def sample_block_def)
  have "image_mset log_Data (mset (lp_store lp')) = image_mset log_Data (mset (map unstamped (lp_store lp')))"
    by (simp add: image_mset.compositionality comp_def data)
  with lp' last sample_span sample_emitted show ?thesis by auto
qed

theorem run_step_witness:
  "\<exists>lp' new. run (sample_env 2) sample_lp = Some (lp', Finished) \<and> lp_store lp' = new \<and> length new = 2 \<and>
     (\<forall>l \<in> set new. \<exists>(n, flt) \<in> set (filtersByName sample_filters). flt_ID flt = log_FilterID l)"
proof -
  have ok: "poller_ok (sample_env 2) sample_lp"
    by (auto simp: poller_ok_def sample_lp_def NewLogPoller_def DefaultPollerConfig_def sample_filters_ok sample_env_def)
  have lp: "lp_blockConfirmations sample_lp = 0" "lp_filters sample_lp = sample_filters" "lp_store sample_lp = []" "lp_lastProcessedSeqNo sample_lp = 0"
    by (simp_all add: sample_lp_def NewLogPoller_def)
  have head: "e_CurrentMasterchainInfo (sample_env 2) = Inr (sample_block 2)" by (simp add: sample_env_def)
  from run_honest [OF sample_honest ok head lp(1)] lp sample_filters_ok(2) sample_spec(3) obtain new lp' where
    run: "run (sample_env 2) sample_lp = Some (lp', Finished)" "lp_store lp' = new"
      "mset (map unstamped new) = span_logs (sample_env 2) sample_chain sample_incl sample_filters 0 2"
    by (auto simp: sample_block_def)
  have "size (span_logs (sample_env 2) sample_chain sample_incl sample_filters 0 2) = 2"
    using arg_cong [OF sample_span [of 2 2], of size] by simp
  with run(3) have "length new = 2" by (metis size_mset length_map)
  moreover have "\<forall>w sh n b. e_LookupBlock (sample_env 2) w sh n = Inr b \<longrightarrow> b_SeqNo b = n"
    by (simp add: sample_env_def sample_block_def)
  from run_step [OF run(1) _ this] rng_rev.go_range_axioms run(2) lp(2,3) have
    "\<forall>l \<in> set new. \<exists>(n, flt) \<in> set (filtersByName sample_filters). flt_ID flt = log_FilterID l"
    by (fastforce simp: sample_env_def)
  ultimately show ?thesis using run by blast
qed

theorem run_skips_failed_scans_witness:
  "let env = (sample_env 3)\<lparr>e_client := (e_client (sample_env 3))\<lparr>cl_WaitGetAccount := \<lambda>n b a. Inl (Err ''timeout'')\<rparr>\<rparr>
   in \<exists>lp'. run env sample_lp = Some (lp', Finished) \<and> lp_lastProcessedSeqNo lp' = 3 \<and> lp_store lp' = []"
proof -
  let ?env = "(sample_env 3)\<lparr>e_client := (e_client (sample_env 3))\<lparr>cl_WaitGetAccount := \<lambda>n b a. Inl (Err ''timeout'')\<rparr>\<rparr>"
  have "run ?env sample_lp = Some (sample_lp\<lparr>lp_lastProcessedSeqNo := b_SeqNo (sample_block 3)\<rparr>, Finished)"
  proof (rule run_skips_failed_scans)
    show "e_CurrentMasterchainInfo ?env = Inr (sample_block 3)" by (simp add: sample_env_def)
    show "GetDistinctAddresses (e_range_addresses ?env) (e_MustParseAddr ?env) (lp_filters sample_lp) = Inr [''x'']"
      by (simp add: GetDistinctAddresses_def sample_env_def sample_lp_def sample_filters_ok)
    show "\<forall>a \<in> set [''x'']. \<exists>e. \<not> is_panic e \<and>
        fetchMessagesForAddress (e_client ?env) (e_String ?env) (lp_pageSize sample_lp) None (sample_block 3) a = Some (Inl e)"
      by (simp add: fetchMessagesForAddress_def getTransactionBounds_def)
    show "go_range (e_order ?env)" using rng_rev.go_range_axioms by (simp add: sample_env_def)
  qed (simp_all add: sample_env_def sample_block_def sample_lp_def NewLogPoller_def)
  then show ?thesis by (simp add: sample_block_def sample_lp_def NewLogPoller_def)
qed

section \<open>Messages without a topic\<close>

text \<open>
  A view in which the scan of the watched addresses finds, after the messages \<open>good\<close>, one whose destination carries no
  topic, such as an external message to no address.
\<close>

definition blocked :: "('a, 'c) PollerEnv \<Rightarrow> 'a Service \<Rightarrow> ('a, 'c) MsgWithCtx list \<Rightarrow> bool" where
  "blocked env lp good = (\<exists>head toBlock addresses prevBlock bad rest.
     go_range (e_range_names env) \<and> e_CurrentMasterchainInfo env = Inr head \<and>
     lp_lastProcessedSeqNo lp < b_SeqNo head - lp_blockConfirmations lp \<and>
     e_LookupBlock env (b_Workchain head) (b_Shard head) (b_SeqNo head - lp_blockConfirmations lp) = Inr toBlock \<and>
     GetDistinctAddresses (e_range_addresses env) (e_MustParseAddr env) (lp_filters lp) = Inr addresses \<and> addresses \<noteq> [] \<and>
     (if lp_lastProcessedSeqNo lp = 0 then Inr None
      else map_sum id Some (e_LookupBlock env (b_Workchain toBlock) (b_Shard toBlock) (lp_lastProcessedSeqNo lp))) = Inr prevBlock \<and>
     BackfillForAddresses (e_order env) (e_client env) (e_String env) (lp_pageSize lp) addresses prevBlock toBlock = Some (Inr (good @ bad # rest)) \<and>
     (\<forall>msg \<in> set good. okE (DecodeEventTopic (e_Data env) (eo_DstAddr (mc_Msg msg))) \<and> eo_Body (mc_Msg msg) \<noteq> None) \<and>
     \<not> okE (DecodeEventTopic (e_Data env) (eo_DstAddr (mc_Msg bad))))"

lemma blocked_store [simp]: "blocked env (lp\<lparr>lp_store := s\<rparr>) good = blocked env lp good"
  by (simp add: blocked_def)

lemma processMessages_append:
  "processMessages env msgs lp = (lp', None) \<Longrightarrow> processMessages env (msgs @ msgs') lp = processMessages env msgs' lp'"
  by (induction msgs arbitrary: lp) (auto split: sum.splits)

lemma run_blocked:
  assumes "blocked env lp good"
  shows "\<exists>new err. run env lp = Some (lp\<lparr>lp_store := lp_store lp @ new\<rparr>, Failed err) \<and>
    mset (map unstamped new) = mset (concat (map (msg_logs env (lp_filters lp)) good))"
proof -
  from assms obtain head toBlock addresses prevBlock bad rest where
    rng: "go_range (e_range_names env)" and
    b: "e_CurrentMasterchainInfo env = Inr head" "lp_lastProcessedSeqNo lp < b_SeqNo head - lp_blockConfirmations lp"
      "e_LookupBlock env (b_Workchain head) (b_Shard head) (b_SeqNo head - lp_blockConfirmations lp) = Inr toBlock"
      "GetDistinctAddresses (e_range_addresses env) (e_MustParseAddr env) (lp_filters lp) = Inr addresses" "addresses \<noteq> []"
      "(if lp_lastProcessedSeqNo lp = 0 then Inr None
        else map_sum id Some (e_LookupBlock env (b_Workchain toBlock) (b_Shard toBlock) (lp_lastProcessedSeqNo lp))) = Inr prevBlock"
      "BackfillForAddresses (e_order env) (e_client env) (e_String env) (lp_pageSize lp) addresses prevBlock toBlock = Some (Inr (good @ bad # rest))" and
    good: "\<forall>msg \<in> set good. okE (DecodeEventTopic (e_Data env) (eo_DstAddr (mc_Msg msg))) \<and> eo_Body (mc_Msg msg) \<noteq> None" and
    bad: "\<not> okE (DecodeEventTopic (e_Data env) (eo_DstAddr (mc_Msg bad)))"
    unfolding blocked_def by blast
  from processMessages_logs [OF rng good] obtain new where
    new: "processMessages env good lp = (lp\<lparr>lp_store := lp_store lp @ new\<rparr>, None)"
      "mset (map unstamped new) = mset (concat (map (msg_logs env (lp_filters lp)) good))" by blast
  obtain e where "\<And>lp. Process env bad lp = Inl e" using bad by (auto simp: Process_def okE_def wrapE_def split: sum.splits)
  with processMessages_append [OF new(1)] have "processMessages env (good @ bad # rest) lp = (lp\<lparr>lp_store := lp_store lp @ new\<rparr>, Some e)" by simp
  with b(7) have "processBlocksRange env addresses prevBlock toBlock lp = Some (lp\<lparr>lp_store := lp_store lp @ new\<rparr>, Failed (wrap_err ''processMessages'' e))"
    by (simp add: processBlocksRange_def)
  with b(1-6) have "\<exists>err. run env lp = Some (lp\<lparr>lp_store := lp_store lp @ new\<rparr>, Failed err)"
    by (auto simp: run_def scan_to_def Let_def)
  with new(2) show ?thesis by blast
qed

text \<open>
  C29: A flaw: one external message without a topic stops the poller for good. As long as the range it has not processed holds
  a message of a watched address whose destination carries no topic, every tick fails and the position stays
  where it is; and every tick saves the events that the scan returned before that message once more.
\<close>

theorem polls_stuck:
  assumes "\<forall>(env, good) \<in> set views. blocked env lp good"
  shows "\<exists>lp'. polls (map fst views) lp = Some lp' \<and> lp_lastProcessedSeqNo lp' = lp_lastProcessedSeqNo lp \<and> lp_filters lp' = lp_filters lp \<and>
    mset (map unstamped (lp_store lp')) = mset (map unstamped (lp_store lp)) +
      sum_list (map (\<lambda>(env, good). mset (concat (map (msg_logs env (lp_filters lp)) good))) views)"
  using assms
proof (induction views arbitrary: lp)
  case Nil
  then show ?case by simp
next
  case (Cons v views)
  obtain env good where v: "v = (env, good)" by (cases v)
  with Cons.prems have "blocked env lp good" by simp
  from run_blocked [OF this] obtain new err where
    run: "run env lp = Some (lp\<lparr>lp_store := lp_store lp @ new\<rparr>, Failed err)"
      "mset (map unstamped new) = mset (concat (map (msg_logs env (lp_filters lp)) good))" by blast
  from Cons.IH [of "lp\<lparr>lp_store := lp_store lp @ new\<rparr>"] Cons.prems obtain lp' where
    "polls (map fst views) (lp\<lparr>lp_store := lp_store lp @ new\<rparr>) = Some lp'" "lp_lastProcessedSeqNo lp' = lp_lastProcessedSeqNo lp"
    "lp_filters lp' = lp_filters lp"
    "mset (map unstamped (lp_store lp')) = mset (map unstamped (lp_store lp @ new)) +
      sum_list (map (\<lambda>(env, good). mset (concat (map (msg_logs env (lp_filters lp)) good))) views)" by auto
  with run v show ?case by (auto simp: ac_simps simp flip: mset_map)
qed

text \<open>A contract that emits an event and then sends an external message to an address without a topic.\<close>

definition mixed_tx :: "(string, nat) Transaction" where
  "mixed_tx = \<lparr>tx_Hash = [10], tx_LT = 10, tx_PrevTxLT = 0, tx_PrevTxHash = [], tx_In = None,
     tx_Out = Some (Inr [sample_event ''x'' ''d'' 1, sample_event ''x'' ''e'' 2]), tx_TotalFees = 0, tx_Description = DescOther\<rparr>"

definition mixed_env :: "(string, nat) PollerEnv" where
  "mixed_env = (sample_env 1)\<lparr>e_Data := \<lambda>a. if a = ''d'' then [0, 0, 0, 5] else [],
     e_client := sim_client (\<lambda>s. if s = ''x'' then [mixed_tx] else []) (\<lambda>s n. if s = ''x'' then min 1 (unat n) else 0)\<rparr>"

definition mixed_msg :: "string \<Rightarrow> nat \<Rightarrow> (string, nat) MsgWithCtx" where
  "mixed_msg dst body = \<lparr>mc_TxHash = [10], mc_LT = 10,
     mc_Msg = \<lparr>eo_SrcAddr = ''x'', eo_DstAddr = Some dst, eo_CreatedAt = 0, eo_CreatedLT = 0, eo_Body = Some body\<rparr>\<rparr>"

lemma mixed_fetch:
  "fetchMessagesForAddress (e_client mixed_env) (e_String mixed_env) 100 None (sample_block 1) ''x'' = Some (Inr [mixed_msg ''d'' 1, mixed_msg ''e'' 2])"
  by (simp add: fetchMessagesForAddress_def getTransactionBounds_def mixed_env_def sample_env_def sim_client_def account_at_def sample_block_def
      mixed_tx_def fetch_loop.simps batch_events_def tx_events_def sample_event_def mixed_msg_def)

lemma mixed_blocked: "blocked mixed_env sample_lp [mixed_msg ''d'' 1]"
proof -
  have lp: "lp_lastProcessedSeqNo sample_lp = 0" "lp_blockConfirmations sample_lp = 0" "lp_pageSize sample_lp = 100" "lp_filters sample_lp = sample_filters"
    by (simp_all add: sample_lp_def NewLogPoller_def DefaultPollerConfig_def)
  have "BackfillForAddresses (e_order mixed_env) (e_client mixed_env) (e_String mixed_env) 100 [''x''] None (sample_block 1) =
      Some (Inr ([mixed_msg ''d'' 1] @ mixed_msg ''e'' 2 # []))"
    unfolding BackfillForAddresses_def using mixed_fetch by (simp add: mixed_env_def sample_env_def)
  moreover have "GetDistinctAddresses (e_range_addresses mixed_env) (e_MustParseAddr mixed_env) sample_filters = Inr [''x'']"
    by (simp add: GetDistinctAddresses_def mixed_env_def sample_env_def sample_filters_ok)
  ultimately show ?thesis
    unfolding blocked_def lp
    by (intro exI [of _ "sample_block 1"] exI [of _ "[''x'']"] exI [of _ None] exI [of _ "mixed_msg ''e'' 2"] exI [of _ "[]"])
      (simp add: mixed_env_def sample_env_def sample_block_def mixed_msg_def rng_rev.go_range_axioms DecodeEventTopic_def)
qed

theorem polls_stuck_witness:
  "\<exists>lp'. polls [mixed_env, mixed_env, mixed_env] sample_lp = Some lp' \<and> lp_lastProcessedSeqNo lp' = 0 \<and>
    image_mset log_Data (mset (lp_store lp')) = {#[1], [1], [1]#}"
proof -
  let ?v = "(mixed_env, [mixed_msg ''d'' 1])"
  have lp: "lp_lastProcessedSeqNo sample_lp = 0" "lp_store sample_lp = []" "lp_filters sample_lp = sample_filters"
    by (simp_all add: sample_lp_def NewLogPoller_def)
  have logs: "map log_Data (msg_logs mixed_env sample_filters (mixed_msg ''d'' 1)) = [[1]]"
    by (simp add: msg_logs_def MatchingFilters_def sample_filters_ok mixed_env_def sample_env_def mixed_msg_def sample_filter_def new_log_def
        DecodeEventTopic_def BigEndian_Uint32_def be_nat_def)
  from polls_stuck [of "[?v, ?v, ?v]" sample_lp] mixed_blocked lp obtain lp' where
    lp': "polls [mixed_env, mixed_env, mixed_env] sample_lp = Some lp'" "lp_lastProcessedSeqNo lp' = 0"
      "mset (map unstamped (lp_store lp')) = mset (concat (replicate 3 (msg_logs mixed_env sample_filters (mixed_msg ''d'' 1))))"
    by (auto simp: numeral_3_eq_3)
  have data: "log_Data (unstamped l) = log_Data l" for l :: "string Log" by (simp add: unstamped_def)
  have "image_mset log_Data (mset (lp_store lp')) = image_mset log_Data (mset (map unstamped (lp_store lp')))"
    by (simp add: image_mset.compositionality comp_def data)
  also have "\<dots> = mset (map log_Data (concat (replicate 3 (msg_logs mixed_env sample_filters (mixed_msg ''d'' 1)))))" unfolding lp'(3) by simp
  also have "\<dots> = {#[1], [1], [1]#}" by (simp only: map_concat map_replicate logs) (simp add: numeral_3_eq_3)
  finally show ?thesis using lp' by blast
qed

end
