(* ===== verification/Pretty_Print.thy ===== *)
theory Pretty_Print
  imports Trace
begin

text \<open>
  The textual dump of a trace (\<open>pkg/ton/tracetracking/pretty_print.go\<close>). Strings are the bytes of Go
  strings, so the two box-drawing marks are their UTF-8 bytes. Printing of addresses and coins and
  reading of message bodies are library calls: the record \<open>PrintLib\<close>. Starting to parse a body may panic (a
  body can be nil); a slice that has just been opened is read once with \<open>LoadUInt(32)\<close> and once, from
  a slice of its own, with \<open>LoadStringSnake\<close>.
\<close>

section \<open>Data\<close>

record ('a, 'c, 's) PrintLib =
  P_Addr :: "'a \<Rightarrow> string"
  P_Coins :: "int \<Rightarrow> string"
  P_BeginParse :: "'c option \<Rightarrow> 's res"
  P_BitsLeft :: "'s \<Rightarrow> nat"
  P_LoadUInt32 :: "'s \<Rightarrow> u64 res"
  P_LoadStringSnake :: "'s \<Rightarrow> bytes res"
  P_DumpBits :: "'c option \<Rightarrow> string"

text \<open>\<open>%x\<close> of an unsigned integer.\<close>

fun show_hexnat :: "nat \<Rightarrow> string" where
  "show_hexnat n = (if n < 16 then [hex_digit n] else show_hexnat (n div 16) @ [hex_digit (n mod 16)])"

declare show_hexnat.simps [simp del]

definition corner_mark :: string where
  "corner_mark = [CHR 0xE2, CHR 0x94, CHR 0x94, CHR '' '']"

definition bar_mark :: string where
  "bar_mark = [CHR 0xE2, CHR 0x94, CHR 0x82, CHR '' '']"

section \<open>Descriptions\<close>

definition describeExitCode :: "ExitCode option \<Rightarrow> string" where
  "describeExitCode exitCode = (case exitCode of
       None \<Rightarrow> ''pending''
     | Some code \<Rightarrow> if code = 0 then ''exit code 0''
         else ''exit code: '' @ show_int (sint code) @ '' ('' @ Describe code @ '')'')"

definition describeBody :: "('a, 'c, 's) PrintLib \<Rightarrow> 'c option \<Rightarrow> string res" where
  "describeBody P body =
     bindE (P_BeginParse P body) (\<lambda>slice.
     if P_BitsLeft P slice = 0 then Inr ''empty''
     else (case P_LoadUInt32 P slice of
             Inr opcode \<Rightarrow> Inr (''opcode: 0x '' @ show_hexnat (unat opcode))
           | Inl e \<Rightarrow> if is_panic e then Inl e
               else (case P_LoadStringSnake P slice of
                       Inr strSnake \<Rightarrow> Inr (''stringSnake: '' @ show_hex strSnake)
                     | Inl e' \<Rightarrow> if is_panic e' then Inl e' else Inr (''body: %s'' @ P_DumpBits P body))))"

definition describeEmitBody :: "('a, 'c, 's) PrintLib \<Rightarrow> 'c option \<Rightarrow> string res" where
  "describeEmitBody P body =
     bindE (P_BeginParse P body) (\<lambda>slice.
     if P_BitsLeft P slice = 0 then Inr ''empty''
     else (case P_LoadStringSnake P slice of
             Inr strSnake \<Rightarrow> Inr (''stringSnake: '' @ show_hex strSnake)
           | Inl e \<Rightarrow> if is_panic e then Inl e
               else (case P_LoadUInt32 P slice of
                       Inr opcode \<Rightarrow> Inr (''opcode: '' @ show_hexnat (unat opcode))
                     | Inl e' \<Rightarrow> if is_panic e' then Inl e' else Inr (''body: %s'' @ P_DumpBits P body))))"

definition describeExternalInMsg ::
  "('a, 'c, 's) PrintLib \<Rightarrow> ('a, 'c) ExternalMessageIn \<Rightarrow> ExitCode option \<Rightarrow> string res" where
  "describeExternalInMsg P msg exitCode =
     bindE (describeBody P (ei_Body msg)) (\<lambda>d.
     let description = d @ '', '' @ describeExitCode exitCode
     in Inr (P_Addr P (ei_SrcAddr msg) @ '' -- ('' @ description @ '') --> '' @ P_Addr P (ei_DstAddr msg)))"

definition describeExternalOutMsg :: "('a, 'c, 's) PrintLib \<Rightarrow> string \<Rightarrow> 'c OutgoingExternalMessage \<Rightarrow> string res" where
  "describeExternalOutMsg P src msg =
     bindE (describeEmitBody P (oe_Body msg)) (\<lambda>description. Inr (src @ '' emit: ('' @ description @ '')''))"

definition describeInternalMsg ::
  "('a, 'c, 's) PrintLib \<Rightarrow> ('a, 'c) InternalMessage \<Rightarrow> ExitCode option \<Rightarrow> string res" where
  "describeInternalMsg P msg exitCode =
     bindE (describeBody P (im_Body msg)) (\<lambda>d.
     let description = d @ '', amount: '' @ P_Coins P (im_Amount msg) @
           (if im_Bounced msg then '', bounce'' else []) @ '', '' @ describeExitCode exitCode;
         srcAddr = (if P_Addr P (im_SrcAddr msg) = ''NONE'' then ''external'' else P_Addr P (im_SrcAddr msg))
     in Inr (srcAddr @ '' -- ('' @ description @ '') --> '' @ P_Addr P (im_DstAddr msg)))"

section \<open>The dump\<close>

text \<open>\<open>SentMessage.Dump\<close>; a sent message always has its internal message here.\<close>

definition SentMessage_Dump :: "('a, 'c, 's) PrintLib \<Rightarrow> ('a, 'c) SentMessage \<Rightarrow> string res" where
  "SentMessage_Dump P m = describeInternalMsg P (sm_InternalMsg m) None"

text \<open>The first line of a message, and the address it prints for the events it emits.\<close>

definition head_line :: "('a, 'c, 's) PrintLib \<Rightarrow> ('a, 'c) rm_info \<Rightarrow> string res" where
  "head_line P i = (case rm_InternalMsg i of
       Some msg \<Rightarrow> describeInternalMsg P msg (Some (rm_ExitCode i))
     | None \<Rightarrow> (case rm_ExternalMsg i of
           Some msg \<Rightarrow> describeExternalInMsg P msg (Some (rm_ExitCode i))
         | None \<Rightarrow> Inr []))"

definition emit_from :: "('a, 'c, 's) PrintLib \<Rightarrow> ('a, 'c) rm_info \<Rightarrow> string" where
  "emit_from P i = (case rm_InternalMsg i of
       Some msg \<Rightarrow> P_Addr P (im_DstAddr msg)
     | None \<Rightarrow> (case rm_ExternalMsg i of Some msg \<Rightarrow> P_Addr P (ei_DstAddr msg) | None \<Rightarrow> []))"

fun indent_child :: "string list \<Rightarrow> string list" where
  "indent_child [] = []"
| "indent_child (l # ls) = (corner_mark @ l) # map (\<lambda>line. bar_mark @ line) ls"

fun dumpRec :: "('a, 'c, 's) PrintLib \<Rightarrow> ('a, 'c) ReceivedMessage \<Rightarrow> string list res"
  and dump_children :: "('a, 'c, 's) PrintLib \<Rightarrow> ('a, 'c) ReceivedMessage option list \<Rightarrow> string list res" where
  "dumpRec P (RM i ss rs) =
     bindE (head_line P i) (\<lambda>l.
     bindE (dump_children P rs) (\<lambda>children.
     bindE (mapE (SentMessage_Dump P) ss) (\<lambda>sent.
     bindE (mapE (describeExternalOutMsg P (emit_from P i)) (rm_OutgoingExternalMessages i)) (\<lambda>events.
     Inr ([l] @ children @ map (\<lambda>d. corner_mark @ d) sent @ map (\<lambda>d. corner_mark @ d) events)))))"
| "dump_children P [] = Inr []"
| "dump_children P (None # rs) = Inl (Panic ''nil pointer dereference'')"
| "dump_children P (Some m # rs) =
     bindE (dumpRec P m) (\<lambda>lines. bindE (dump_children P rs) (\<lambda>rest. Inr (indent_child lines @ rest)))"

text \<open>\<open>strings.Join(lines, "\n")\<close>\<close>

fun join_lines :: "string list \<Rightarrow> string" where
  "join_lines [] = []"
| "join_lines [l] = l"
| "join_lines (l # ls) = l @ [CHR 0x0A] @ join_lines ls"

definition Dump :: "('a, 'c, 's) PrintLib \<Rightarrow> ('a, 'c) ReceivedMessage \<Rightarrow> string res" where
  "Dump P m = bindE (dumpRec P m) (\<lambda>lines. Inr (join_lines lines))"

section \<open>Lemmas\<close>

text \<open>The lines a message contributes, and a line behind the marks of the messages above it.\<close>

definition own_lines :: "('a, 'c) ReceivedMessage \<Rightarrow> nat" where
  "own_lines n = 1 + length (sents n) + length (rm_OutgoingExternalMessages (info n))"

inductive below_marks :: "string \<Rightarrow> string \<Rightarrow> bool" where
  here: "below_marks d d"
| corner: "below_marks d l \<Longrightarrow> below_marks d (corner_mark @ l)"
| bar: "below_marks d l \<Longrightarrow> below_marks d (bar_mark @ l)"

text \<open>The descriptions a message has to show: itself, what it sent and what it emitted.\<close>

definition shown :: "('a, 'c, 's) PrintLib \<Rightarrow> ('a, 'c) ReceivedMessage \<Rightarrow> string res list" where
  "shown P n = head_line P (info n) # map (SentMessage_Dump P) (sents n) @
     map (describeExternalOutMsg P (emit_from P (info n))) (rm_OutgoingExternalMessages (info n))"

lemma length_indent_child [simp]: "length (indent_child ls) = length ls"
  by (cases ls) auto

lemma indent_child_below:
  assumes "l \<in> set ls" "below_marks d l"
  shows "\<exists>l' \<in> set (indent_child ls). below_marks d l'"
  using assms by (cases ls) (auto intro: below_marks.intros)

lemma dump_lines_count:
  "dumpRec P m = Inr lines \<Longrightarrow> length lines = sum_list (map own_lines (messages m))"
  "dump_children P rs = Inr lines \<Longrightarrow> length lines = sum_list (map own_lines (messages_list rs))"
  by (induction P m and P rs arbitrary: lines and lines rule: dumpRec_dump_children.induct)
    (auto simp: own_lines_def dest!: mapE_length)

lemma mapE_Inr_mem: "mapE f xs = Inr ys \<Longrightarrow> x \<in> set xs \<Longrightarrow> f x = Inr y \<Longrightarrow> y \<in> set ys"
  by (induction xs arbitrary: ys) auto

lemma mapE_okE_iff: "(\<exists>ys. mapE f xs = Inr ys) \<longleftrightarrow> (\<forall>x \<in> set xs. okE (f x))"
  by (induction xs) (auto simp: okE_iff)

lemma dump_shows:
  "dumpRec P m = Inr lines \<Longrightarrow> n \<in> set (messages m) \<Longrightarrow> Inr d \<in> set (shown P n) \<Longrightarrow> \<exists>l \<in> set lines. below_marks d l"
  "dump_children P rs = Inr lines \<Longrightarrow> n \<in> set (messages_list rs) \<Longrightarrow> Inr d \<in> set (shown P n) \<Longrightarrow> \<exists>l \<in> set lines. below_marks d l"
proof (induction P m and P rs arbitrary: lines and lines rule: dumpRec_dump_children.induct)
  case (1 P i ss rs)
  then obtain l children sent events where l: "head_line P i = Inr l" and children: "dump_children P rs = Inr children"
    and sent: "mapE (SentMessage_Dump P) ss = Inr sent"
    and events: "mapE (describeExternalOutMsg P (emit_from P i)) (rm_OutgoingExternalMessages i) = Inr events"
    and lines: "lines = [l] @ children @ map (\<lambda>d. corner_mark @ d) sent @ map (\<lambda>d. corner_mark @ d) events" by auto
  show ?case
  proof (cases "n \<in> set (messages_list rs)")
    case True
    with 1(1) l children 1(4) lines show ?thesis by auto
  next
    case False
    with 1(3) have "n = RM i ss rs" by simp
    with 1(4) l consider "d = l" | s where "s \<in> set ss" "SentMessage_Dump P s = Inr d"
      | e where "e \<in> set (rm_OutgoingExternalMessages i)" "describeExternalOutMsg P (emit_from P i) e = Inr d"
      by (auto simp: shown_def)
    then show ?thesis
    proof cases
      case 1
      then show ?thesis using lines below_marks.here by auto
    next
      case 2
      then have "d \<in> set sent" using mapE_Inr_mem [OF sent] by blast
      then show ?thesis using lines below_marks.corner [OF below_marks.here] by auto
    next
      case 3
      then have "d \<in> set events" using mapE_Inr_mem [OF events] by blast
      then show ?thesis using lines below_marks.corner [OF below_marks.here] by auto
    qed
  qed
next
  case (4 P m rs)
  then obtain ls rest where "dumpRec P m = Inr ls" "dump_children P rs = Inr rest" "lines = indent_child ls @ rest" by auto
  with 4 show ?case using indent_child_below by (fastforce simp del: indent_child.simps)
qed auto

lemma dump_ok_iff:
  "(\<exists>lines. dumpRec P m = Inr lines) \<longleftrightarrow> no_nil m \<and> (\<forall>n \<in> set (messages m). \<forall>d \<in> set (shown P n). okE d)"
  "(\<exists>lines. dump_children P rs = Inr lines) \<longleftrightarrow> None \<notin> set rs \<and>
     (\<forall>n \<in> set (messages_list rs). None \<notin> set (recvs n) \<and> (\<forall>d \<in> set (shown P n). okE d))"
proof (induction P m and P rs rule: dumpRec_dump_children.induct)
  case (1 P i ss rs)
  have "(\<exists>lines. dumpRec P (RM i ss rs) = Inr lines) \<longleftrightarrow> okE (head_line P i) \<and> (\<exists>children. dump_children P rs = Inr children) \<and>
    (\<exists>sent. mapE (SentMessage_Dump P) ss = Inr sent) \<and>
    (\<exists>events. mapE (describeExternalOutMsg P (emit_from P i)) (rm_OutgoingExternalMessages i) = Inr events)"
    by (auto simp: okE_iff)
  moreover have "okE (head_line P i) \<and> (\<exists>children. dump_children P rs = Inr children) \<longleftrightarrow> okE (head_line P i) \<and> None \<notin> set rs \<and>
     (\<forall>n \<in> set (messages_list rs). None \<notin> set (recvs n) \<and> (\<forall>d \<in> set (shown P n). okE d))"
    using 1 by (auto simp: okE_iff)
  ultimately show ?case by (auto simp: mapE_okE_iff no_nil_def shown_def)
next
  case (4 P m rs)
  have "(\<exists>lines. dump_children P (Some m # rs) = Inr lines) \<longleftrightarrow> (\<exists>lines. dumpRec P m = Inr lines) \<and> (\<exists>lines. dump_children P rs = Inr lines)"
    by auto
  with 4 show ?case unfolding no_nil_def by (cases "\<exists>lines. dumpRec P m = Inr lines") (auto simp: ball_Un)
qed auto

section \<open>The dump is complete\<close>

text \<open>
  The dump of a trace is produced exactly when no child is nil and every body can be opened. Its lines, joined,
  are one per message of the trace, per message still under way and per emitted event, and the
  description of each of them (with its exit code, or as pending) stands on a line of its own behind
  the marks of the messages above it.
\<close>

theorem Dump_complete:
  "(okE (Dump P m) \<longleftrightarrow> no_nil m \<and> (\<forall>n \<in> set (messages m). \<forall>d \<in> set (shown P n). okE d)) \<and>
   (\<forall>out. Dump P m = Inr out \<longrightarrow> (\<exists>lines. out = join_lines lines \<and>
      length lines = sum_list (map own_lines (messages m)) \<and>
      (\<forall>n \<in> set (messages m). \<forall>d. Inr d \<in> set (shown P n) \<longrightarrow> (\<exists>l \<in> set lines. below_marks d l))))"
proof -
  have "okE (Dump P m) \<longleftrightarrow> (\<exists>lines. dumpRec P m = Inr lines)" by (auto simp: Dump_def okE_iff)
  moreover have "\<exists>lines. out = join_lines lines \<and> length lines = sum_list (map own_lines (messages m)) \<and>
      (\<forall>n \<in> set (messages m). \<forall>d. Inr d \<in> set (shown P n) \<longrightarrow> (\<exists>l \<in> set lines. below_marks d l))"
    if "Dump P m = Inr out" for out
  proof -
    from that obtain lines where lines: "dumpRec P m = Inr lines" "out = join_lines lines" by (auto simp: Dump_def)
    with dump_lines_count(1) [OF lines(1)] dump_shows(1) [OF lines(1)] show ?thesis by blast
  qed
  ultimately show ?thesis using dump_ok_iff(1) [of P m] by blast
qed

definition sample_print :: "(nat, nat, nat) PrintLib" where
  "sample_print = \<lparr>P_Addr = show_nat, P_Coins = show_int,
     P_BeginParse = (\<lambda>b. case b of None \<Rightarrow> Inr 0 | Some n \<Rightarrow> Inr n), P_BitsLeft = (\<lambda>s. s), P_LoadUInt32 = (\<lambda>s. Inr (of_nat s)),
     P_LoadStringSnake = (\<lambda>s. Inl (Err ''not a string'')), P_DumpBits = (\<lambda>b. [])\<rparr>"

theorem Dump_complete_witness:
  "\<exists>out lines. Dump sample_print (sample_trace True False) = Inr out \<and> out = join_lines lines \<and> length lines = 2"
proof -
  have "okE (Dump sample_print (sample_trace True False))"
    by (simp add: sample_trace_def sample_print_def Dump_def Let_def head_line_def describeInternalMsg_def describeBody_def sample_simps)
  then obtain out where "Dump sample_print (sample_trace True False) = Inr out" by (auto simp: okE_iff)
  moreover have "sum_list (map own_lines (messages (sample_trace True False))) = 2"
    by (simp add: sample_trace_def own_lines_def sample_simps)
  ultimately show ?thesis using Dump_complete [of sample_print "sample_trace True False"] by metis
qed

end
