(* ===== verification/Ton_Cell.thy ===== *)
theory Ton_Cell
  imports Prelude
begin

text \<open>
  The interface of the cell library (\<open>tonutils-go/tvm/cell\<close>), which the repository calls and
  does not contain. \<open>CellLib\<close> is the record of the operations the code uses, over abstract types
  \<open>'b\<close> of builders, \<open>'c\<close> of cells and \<open>'s\<close> of slices; a call that updates a builder or a slice in
  place returns the updated one. The locale \<open>cell_laws\<close> states what is documented of them: a
  cell holds at most 1023 bits and 4 references, builders append, slices consume from the front
  and references do not form cycles. The theory ends with an executable implementation that
  satisfies the laws.
\<close>

section \<open>Bits and bytes\<close>

definition byte_bits :: "u8 \<Rightarrow> bool list" where
  "byte_bits b = map (\<lambda>i. bit b (7 - i)) [0..<8]"

definition bits_of :: "bytes \<Rightarrow> bool list" where
  "bits_of bs = concat (map byte_bits bs)"

text \<open>The most significant bit first; a last partial byte is padded with zeros.\<close>

definition byte_of :: "bool list \<Rightarrow> u8" where
  "byte_of xs = horner_sum of_bool 2 (rev (take 8 (xs @ replicate 8 False)))"

function bytes_of :: "bool list \<Rightarrow> bytes" where
  "bytes_of xs = (if xs = [] then [] else byte_of (take 8 xs) # bytes_of (drop 8 xs))"
  by pat_completeness auto
termination
  by (relation "measure length") auto

declare bytes_of.simps [simp del]

lemma length_byte_bits [simp]: "length (byte_bits b) = 8"
  by (simp add: byte_bits_def)

lemma byte_bits_neq_Nil [simp]: "byte_bits b \<noteq> []"
  by (simp add: byte_bits_def)

lemma length_bits_of [simp]: "length (bits_of bs) = 8 * length bs"
  by (induction bs) (simp_all add: bits_of_def)

lemma bits_of_simps [simp]: "bits_of [] = []" "bits_of (b # bs) = byte_bits b @ bits_of bs" "bits_of (xs @ ys) = bits_of xs @ bits_of ys"
  by (simp_all add: bits_of_def)

lemma byte_of_bits [simp]: "byte_of (byte_bits b) = b"
proof (rule bit_eqI)
  fix n assume "possible_bit TYPE(u8) n"
  then have n: "n < 8" by simp
  have "take 8 (byte_bits b @ replicate 8 False) = byte_bits b" by simp
  then show "bit (byte_of (byte_bits b)) n = bit b n"
    using n by (simp add: byte_of_def bit_horner_sum_bit_word_iff rev_nth byte_bits_def)
qed

lemma bytes_of_Nil [simp]: "bytes_of [] = []"
  by (simp add: bytes_of.simps)

lemma bytes_of_bits [simp]: "bytes_of (bits_of bs) = bs"
proof (induction bs)
  case (Cons b bs)
  have "bits_of (b # bs) \<noteq> []" by (simp add: byte_bits_def)
  then show ?case using Cons by (subst bytes_of.simps) simp
qed simp

section \<open>The library\<close>

record ('b, 'c, 's) CellLib =
  BeginCell :: 'b
  StoreSlice :: "'b \<Rightarrow> bytes \<Rightarrow> nat \<Rightarrow> 'b res"
  StoreRef :: "'b \<Rightarrow> 'c \<Rightarrow> 'b res"
  StoreBuilder :: "'b \<Rightarrow> 'b \<Rightarrow> 'b res"
  EndCell :: "'b \<Rightarrow> 'c"
  Builder_BitsLeft :: "'b \<Rightarrow> nat"
  Builder_RefsLeft :: "'b \<Rightarrow> nat"
  BitsSize :: "'c \<Rightarrow> nat"
  RefsNum :: "'c \<Rightarrow> nat"
  PeekRef :: "'c \<Rightarrow> nat \<Rightarrow> 'c res"
  ToBuilder :: "'c \<Rightarrow> 'b"
  BeginParse :: "'c \<Rightarrow> 's"
  Slice_BitsLeft :: "'s \<Rightarrow> nat"
  LoadSlice :: "'s \<Rightarrow> nat \<Rightarrow> (bytes \<times> 's) res"
  Slice_ToCell :: "'s \<Rightarrow> 'c res"

text \<open>The contents of builders, cells and slices: their bits and references.\<close>

type_synonym 'c content = "bool list \<times> 'c list"

locale cell_laws =
  fixes L :: "('b, 'c, 's) CellLib"
    and bc :: "'b \<Rightarrow> 'c content" and cc :: "'c \<Rightarrow> 'c content" and sc :: "'s \<Rightarrow> 'c content"
    and depth :: "'c \<Rightarrow> nat"
  assumes begin_cell: "bc (BeginCell L) = ([], [])"
    and store_slice: "bc b = (xs, rs) \<Longrightarrow> n \<le> 8 * length d \<Longrightarrow> length xs + n \<le> 1023 \<Longrightarrow>
      \<exists>b'. StoreSlice L b d n = Inr b' \<and> bc b' = (xs @ take n (bits_of d), rs)"
    and store_ref: "bc b = (xs, rs) \<Longrightarrow> length rs < 4 \<Longrightarrow> \<exists>b'. StoreRef L b c = Inr b' \<and> bc b' = (xs, rs @ [c])"
    and store_builder: "bc b = (xs, rs) \<Longrightarrow> bc b1 = (ys, ts) \<Longrightarrow> length xs + length ys \<le> 1023 \<Longrightarrow> length rs + length ts \<le> 4 \<Longrightarrow>
      \<exists>b'. StoreBuilder L b b1 = Inr b' \<and> bc b' = (xs @ ys, rs @ ts)"
    and end_cell: "cc (EndCell L b) = bc b"
    and bits_left: "Builder_BitsLeft L b = 1023 - length (fst (bc b))"
    and refs_left: "Builder_RefsLeft L b = 4 - length (snd (bc b))"
    and bits_size: "BitsSize L c = length (fst (cc c))"
    and refs_num: "RefsNum L c = length (snd (cc c))"
    and peek_ref: "i < length (snd (cc c)) \<Longrightarrow> PeekRef L c i = Inr (snd (cc c) ! i)"
    and to_builder: "bc (ToBuilder L c) = cc c"
    and begin_parse: "sc (BeginParse L c) = cc c"
    and slice_left: "Slice_BitsLeft L s = length (fst (sc s))"
    and load_slice: "sc s = (xs, rs) \<Longrightarrow> n \<le> length xs \<Longrightarrow>
      \<exists>s'. LoadSlice L s n = Inr (bytes_of (take n xs), s') \<and> sc s' = (drop n xs, rs)"
    and slice_cell: "\<exists>c. Slice_ToCell L s = Inr c \<and> cc c = sc s"
    and depth_ref: "r \<in> set (snd (cc c)) \<Longrightarrow> depth r < depth c"

section \<open>An executable library\<close>

datatype tcell = TCell "bool list" "tcell list"

fun tcell_content :: "tcell \<Rightarrow> tcell content" where
  "tcell_content (TCell xs rs) = (xs, rs)"

definition ref_lib :: "(tcell content, tcell, tcell content) CellLib" where
  "ref_lib = \<lparr>BeginCell = ([], []),
     StoreSlice = (\<lambda>(xs, rs) d n. if n \<le> 8 * length d \<and> length xs + n \<le> 1023 then Inr (xs @ take n (bits_of d), rs)
                                 else Inl (Err ''not enough space'')),
     StoreRef = (\<lambda>(xs, rs) c. if length rs < 4 then Inr (xs, rs @ [c]) else Inl (Err ''too much refs'')),
     StoreBuilder = (\<lambda>(xs, rs) (ys, ts). if length xs + length ys \<le> 1023 \<and> length rs + length ts \<le> 4 then Inr (xs @ ys, rs @ ts)
                                      else Inl (Err ''not enough space'')),
     EndCell = (\<lambda>(xs, rs). TCell xs rs),
     Builder_BitsLeft = (\<lambda>(xs, rs). 1023 - length xs),
     Builder_RefsLeft = (\<lambda>(xs, rs). 4 - length rs),
     BitsSize = (\<lambda>c. length (fst (tcell_content c))),
     RefsNum = (\<lambda>c. length (snd (tcell_content c))),
     PeekRef = (\<lambda>c i. if i < length (snd (tcell_content c)) then Inr (snd (tcell_content c) ! i) else Inl (Err ''no such ref'')),
     ToBuilder = tcell_content,
     BeginParse = tcell_content,
     Slice_BitsLeft = (\<lambda>(xs, rs). length xs),
     LoadSlice = (\<lambda>(xs, rs) n. if n \<le> length xs then Inr (bytes_of (take n xs), (drop n xs, rs)) else Inl (Err ''not enough data in reader'')),
     Slice_ToCell = (\<lambda>(xs, rs). Inr (TCell xs rs))\<rparr>"

lemma tcell_depth: "r \<in> set (snd (tcell_content c)) \<Longrightarrow> size r < size c"
  by (cases c) (auto dest: size_list_estimation' [of _ _ _ size] split: list.splits simp: less_Suc_eq_le)

interpretation ref: cell_laws ref_lib "\<lambda>b. b" tcell_content "\<lambda>s. s" size
proof
  show "\<And>c r. r \<in> set (snd (tcell_content c)) \<Longrightarrow> size r < size c" by (rule tcell_depth)
qed (auto simp: ref_lib_def)

section \<open>An executable bag of cells\<close>

text \<open>
  Cells as byte strings: a bit is a byte 0 or 1, a reference is its cell between the bytes 2 and 3.
  The reader keeps a stack of the cells that are still open, the innermost first.
\<close>

fun ref_ToBOC :: "tcell \<Rightarrow> bytes" where
  "ref_ToBOC (TCell xs rs) = map of_bool xs @ concat (map (\<lambda>r. 2 # ref_ToBOC r @ [3]) rs)"

fun boc_loop :: "bytes \<Rightarrow> tcell content list \<Rightarrow> tcell res" where
  "boc_loop [] [(xs, rs)] = Inr (TCell xs rs)"
| "boc_loop [] st = Inl (Err ''unbalanced'')"
| "boc_loop (b # bs) [] = Inl (Err ''unbalanced'')"
| "boc_loop (b # bs) ((xs, rs) # st) =
     (if b < 2 then boc_loop bs ((xs @ [b = 1], rs) # st)
      else if b = 2 then boc_loop bs (([], []) # (xs, rs) # st)
      else if b = 3 then (case st of [] \<Rightarrow> Inl (Err ''unbalanced'') | (ys, ts) # st' \<Rightarrow> boc_loop bs ((ys, ts @ [TCell xs rs]) # st'))
      else Inl (Err ''bad byte''))"

definition ref_FromBOC :: "bytes \<Rightarrow> tcell res" where
  "ref_FromBOC bs = boc_loop bs [([], [])]"

lemma boc_loop_bits: "boc_loop (map of_bool ys @ bs) ((xs, rs) # st) = boc_loop bs ((xs @ ys, rs) # st)"
proof (induction ys arbitrary: xs)
  case (Cons y ys)
  have "(of_bool y :: u8) < 2" "((of_bool y :: u8) = 1) = y" by (cases y; simp)+
  with Cons [of "xs @ [y]"] show ?case by simp
qed simp

lemma boc_loop_refs:
  assumes "\<And>r st bs. r \<in> set ts \<Longrightarrow> boc_loop (ref_ToBOC r @ bs) (([], []) # st) = boc_loop bs (tcell_content r # st)"
  shows "boc_loop (concat (map (\<lambda>r. 2 # ref_ToBOC r @ [3]) ts) @ bs) ((xs, rs) # st) = boc_loop bs ((xs, rs @ ts) # st)"
  using assms
proof (induction ts arbitrary: rs)
  case (Cons t ts)
  obtain zs us where t: "t = TCell zs us" by (cases t)
  have "boc_loop (ref_ToBOC t @ 3 # w) (([], []) # (xs, rs) # st) = boc_loop w ((xs, rs @ [t]) # st)" for w
    using Cons.prems [of t "3 # w" "(xs, rs) # st"] t by (simp del: ref_ToBOC.simps)
  with Cons.IH [of "rs @ [t]"] Cons.prems show ?case by (simp del: ref_ToBOC.simps)
qed simp

lemma boc_loop_cell: "boc_loop (ref_ToBOC c @ bs) (([], []) # st) = boc_loop bs (tcell_content c # st)"
proof (induction c arbitrary: bs st)
  case (TCell xs rs)
  have "boc_loop (concat (map (\<lambda>r. 2 # ref_ToBOC r @ [3]) rs) @ bs) ((xs, []) # st) = boc_loop bs ((xs, [] @ rs) # st)"
    by (rule boc_loop_refs) (rule TCell)
  then show ?case by (simp add: boc_loop_bits)
qed

lemma ref_boc [simp]: "ref_FromBOC (ref_ToBOC c) = Inr c"
  using boc_loop_cell [of c "[]" "[]"] by (cases c) (simp add: ref_FromBOC_def)

text \<open>Values as cells, for the executable instances of the codecs' libraries.\<close>

definition put_bytes :: "bytes \<Rightarrow> tcell" where
  "put_bytes bs = TCell (bits_of bs) []"

definition get_bytes :: "tcell \<Rightarrow> bytes" where
  "get_bytes c = bytes_of (fst (tcell_content c))"

definition put_word :: "'w::len word \<Rightarrow> tcell" where
  "put_word w = put_bytes (be_bytes LENGTH('w) (unat w))"

definition get_word :: "tcell \<Rightarrow> 'w::len word" where
  "get_word c = of_nat (be_nat (get_bytes c))"

definition put_u256 :: "int option \<Rightarrow> tcell" where
  "put_u256 i = put_bytes (case i of None \<Rightarrow> [] | Some n \<Rightarrow> be_bytes 32 (nat n))"

definition get_u256 :: "tcell \<Rightarrow> int option" where
  "get_u256 c = (if get_bytes c = [] then None else Some (int (be_nat (get_bytes c))))"

definition put_list :: "('v \<Rightarrow> tcell) \<Rightarrow> 'v list \<Rightarrow> tcell" where
  "put_list f vs = TCell [] (map f vs)"

definition get_list :: "(tcell \<Rightarrow> 'v) \<Rightarrow> tcell \<Rightarrow> 'v list" where
  "get_list g c = map g (snd (tcell_content c))"

lemma get_put_bytes [simp]: "get_bytes (put_bytes bs) = bs"
  by (simp add: get_bytes_def put_bytes_def)

lemma get_put_word [simp]: "get_word (put_word w) = (w :: 'w::len word)"
proof -
  have "unat w < 2 ^ LENGTH('w)" by (rule unsigned_less)
  also have "\<dots> \<le> 256 ^ LENGTH('w)" by (rule power_mono) simp_all
  finally show ?thesis by (simp add: get_word_def put_word_def be_nat_bytes)
qed

lemma get_put_u256: "(case i of None \<Rightarrow> True | Some n \<Rightarrow> 0 \<le> n \<and> n < 2 ^ 256) \<Longrightarrow> get_u256 (put_u256 i) = i"
proof (cases i)
  case (Some n)
  assume "case i of None \<Rightarrow> True | Some n \<Rightarrow> 0 \<le> n \<and> n < 2 ^ 256"
  with Some have n: "0 \<le> n" "nat n < 256 ^ 32" by (auto simp: nat_less_iff)
  have "be_bytes 32 (nat n) \<noteq> []" using length_be_bytes [of 32 "nat n"] by fastforce
  with n Some show ?thesis by (simp add: get_u256_def put_u256_def be_nat_bytes)
qed (simp add: get_u256_def put_u256_def)

lemma get_put_list: "(\<And>v. v \<in> set vs \<Longrightarrow> g (f v) = v) \<Longrightarrow> get_list g (put_list f vs) = vs"
  by (simp add: get_list_def put_list_def map_idI)

end
