(* ===== verification/Snake.thy ===== *)
theory Snake
  imports Ton_Cell
begin

text \<open>
  Chained encodings (\<open>pkg/ccip/bindings/common/common.go\<close>): cross-chain addresses with a length
  prefix, byte strings and arrays spread over linked cells, either with the elements in the bits
  of the cells (\<open>SnakeData\<close>) or with one reference per element (\<open>SnakeRef\<close>).

  The cell library is the record \<open>L\<close> of \<open>Ton_Cell\<close>. \<open>tlb.ToCell\<close> and \<open>tlb.LoadFromCell\<close> on the
  element type are the arguments \<open>toCell\<close> and \<open>load\<close>, which returns the value and the rest of the
  slice. The builders \<open>cells\<close> are kept last first, so that the head is the current one. Loops
  whose end depends on the library are partial functions; \<open>None\<close> is a loop that never ends.
\<close>

section \<open>Cross-chain addresses\<close>

definition CrossChainAddress_ToCell :: "('b, 'c, 's) CellLib \<Rightarrow> bytes \<Rightarrow> 'c res" where
  "CrossChainAddress_ToCell L c =
     (if length c > 64 then Inl (Err (''crosschain address length '' @ show_nat (length c) @ '' exceeds maximum of 64 bytes''))
      else if length c = 0 then Inl (Err ''crosschain address is empty'')
      else bindE (StoreSlice L (BeginCell L) [of_nat (length c)] 8) (\<lambda>builder.
           bindE (wrapE ''failed to store cross-chain address'' (StoreSlice L builder c (length c * 8))) (\<lambda>builder'.
           Inr (EndCell L builder'))))"

text \<open>Returns the address and the rest of the slice.\<close>

definition CrossChainAddress_LoadFromCell :: "('b, 'c, 's) CellLib \<Rightarrow> 's \<Rightarrow> (bytes \<times> 's) res" where
  "CrossChainAddress_LoadFromCell L s =
     (if Slice_BitsLeft L s < 8 then Inl (Err ''crosschain address is too short'')
      else bindE (wrapE ''failed to load cross-chain address length'' (LoadSlice L s 8)) (\<lambda>(len, s1).
      let addrLength = unat (hd len)
      in if addrLength < 1 \<or> addrLength > 64 then Inl (Err (''invalid crosschain address length '' @ show_nat addrLength))
         else if Slice_BitsLeft L s1 < addrLength * 8 then Inl (Err ''crosschain address is too short'')
         else wrapE ''failed to load cross-chain address'' (LoadSlice L s1 (addrLength * 8))))"

section \<open>Linking\<close>

text \<open>
  \<open>Link cells in reverse order\<close>: \<open>next\<close> is the cell linked last, the builders come last first.
  \<open>msg\<close> is the text of the error for the cell with the given index.
\<close>

fun link_cells :: "('b, 'c, 's) CellLib \<Rightarrow> (nat \<Rightarrow> string) \<Rightarrow> 'c option \<Rightarrow> 'b list \<Rightarrow> 'c option res" where
  "link_cells L msg next [] = Inr next"
| "link_cells L msg next (b # bs) =
     bindE (case next of None \<Rightarrow> Inr b | Some c \<Rightarrow> wrapE (msg (length bs)) (StoreRef L b c)) (\<lambda>b'.
     link_cells L msg (Some (EndCell L b')) bs)"

section \<open>Arrays of references\<close>

fun pack_refs :: "('b, 'c, 's) CellLib \<Rightarrow> ('v \<Rightarrow> 'c res) \<Rightarrow> nat \<Rightarrow> 'v list \<Rightarrow> 'b list \<Rightarrow> 'b list res" where
  "pack_refs L toCell i [] cells = Inr cells"
| "pack_refs L toCell i (v # vs) cells =
     bindE (wrapE (''failed to serialize element '' @ show_nat i) (toCell v)) (\<lambda>c.
     let cells' = (if Builder_RefsLeft L (hd cells) = 1 then BeginCell L # cells else cells)
     in bindE (wrapE (''failed to store element '' @ show_nat i) (StoreRef L (hd cells') c)) (\<lambda>b.
        pack_refs L toCell (Suc i) vs (b # tl cells')))"

definition packArrayWithRefChaining :: "('b, 'c, 's) CellLib \<Rightarrow> ('v \<Rightarrow> 'c res) \<Rightarrow> 'v list \<Rightarrow> 'c option res" where
  "packArrayWithRefChaining L toCell array =
     bindE (pack_refs L toCell 0 array [BeginCell L])
       (link_cells L (\<lambda>i. ''failed to store ref at cell '' @ show_nat i) None)"

text \<open>The loop over the references of one cell: the elements and the next cell, if there is one.\<close>

fun ref_elements :: "('b, 'c, 's) CellLib \<Rightarrow> ('s \<Rightarrow> ('v \<times> 's) res) \<Rightarrow> 'c \<Rightarrow> nat \<Rightarrow> nat list \<Rightarrow> 'v list \<Rightarrow> ('v list \<times> 'c option) res" where
  "ref_elements L load cur len [] result = Inr (result, None)"
| "ref_elements L load cur len (i # is) result =
     bindE (wrapE (''failed to unpack array, at ref index '' @ show_nat i) (PeekRef L cur i)) (\<lambda>ref.
     if len = 4 \<and> i = 3 then Inr (result, Some ref)
     else bindE (wrapE ''failed to decode element'' (load (BeginParse L ref))) (\<lambda>(v, _).
          ref_elements L load cur len is (result @ [v])))"

partial_function (option) unpack_refs ::
  "('b, 'c, 's) CellLib \<Rightarrow> ('s \<Rightarrow> ('v \<times> 's) res) \<Rightarrow> 'c \<Rightarrow> 'v list \<Rightarrow> 'v list res option" where
  "unpack_refs L load cur result =
     (let len = RefsNum L cur
      in case ref_elements L load cur len [0..<len] result of
           Inl e \<Rightarrow> Some (Inl e)
         | Inr (result', next) \<Rightarrow>
            if len < 4 then Some (Inr result')
            else unpack_refs L load (case next of None \<Rightarrow> cur | Some ref \<Rightarrow> ref) result')"

definition unpackArrayWithRefChaining ::
  "('b, 'c, 's) CellLib \<Rightarrow> ('s \<Rightarrow> ('v \<times> 's) res) \<Rightarrow> 'c option \<Rightarrow> 'v list res option" where
  "unpackArrayWithRefChaining L load root = (case root of None \<Rightarrow> Some (Inr []) | Some c \<Rightarrow> unpack_refs L load c [])"

section \<open>Arrays in the bits of cells\<close>

fun pack_bits :: "('b, 'c, 's) CellLib \<Rightarrow> ('v \<Rightarrow> 'c res) \<Rightarrow> nat \<Rightarrow> 'v list \<Rightarrow> 'b list \<Rightarrow> 'b list res" where
  "pack_bits L toCell i [] cells = Inr cells"
| "pack_bits L toCell i (v # vs) cells =
     bindE (wrapE (''failed to serialize element '' @ show_nat i) (toCell v)) (\<lambda>c.
     let cells' = (if BitsSize L c > Builder_BitsLeft L (hd cells) then BeginCell L # cells else cells)
     in bindE (wrapE (''failed to store element '' @ show_nat i) (StoreBuilder L (hd cells') (ToBuilder L c))) (\<lambda>b.
        pack_bits L toCell (Suc i) vs (b # tl cells')))"

definition packArrayWithStaticType :: "('b, 'c, 's) CellLib \<Rightarrow> ('v \<Rightarrow> 'c res) \<Rightarrow> 'v list \<Rightarrow> 'c option res" where
  "packArrayWithStaticType L toCell array =
     bindE (pack_bits L toCell 0 array [BeginCell L])
       (link_cells L (\<lambda>i. ''failed to store ref at cell '' @ show_nat i) None)"

text \<open>The loop that decodes the elements of one cell.\<close>

partial_function (option) bit_elements ::
  "('b, 'c, 's) CellLib \<Rightarrow> ('s \<Rightarrow> ('v \<times> 's) res) \<Rightarrow> 's \<Rightarrow> 'v list \<Rightarrow> 'v list res option" where
  "bit_elements L load s result =
     (if Slice_BitsLeft L s > 0 then
        (case wrapE ''failed to decode element'' (load s) of
           Inl e \<Rightarrow> Some (Inl e)
         | Inr (v, s') \<Rightarrow> bit_elements L load s' (result @ [v]))
      else Some (Inr result))"

text \<open>Following the first reference, as both decoders of linked cells do.\<close>

definition next_cell :: "('b, 'c, 's) CellLib \<Rightarrow> 'c \<Rightarrow> 'c option res" where
  "next_cell L cur = (if RefsNum L cur > 0 then map_sum id Some (wrapE ''failed to get next cell ref'' (PeekRef L cur 0)) else Inr None)"

partial_function (option) unpack_bits ::
  "('b, 'c, 's) CellLib \<Rightarrow> ('s \<Rightarrow> ('v \<times> 's) res) \<Rightarrow> 'c option \<Rightarrow> 'v list \<Rightarrow> 'v list res option" where
  "unpack_bits L load cur result = (case cur of
       None \<Rightarrow> Some (Inr result)
     | Some c \<Rightarrow> (case bit_elements L load (BeginParse L c) result of
           None \<Rightarrow> None
         | Some (Inl e) \<Rightarrow> Some (Inl e)
         | Some (Inr result') \<Rightarrow> (case next_cell L c of
               Inl e \<Rightarrow> Some (Inl e)
             | Inr next \<Rightarrow> unpack_bits L load next result')))"

definition unpackArrayWithStaticType ::
  "('b, 'c, 's) CellLib \<Rightarrow> ('s \<Rightarrow> ('v \<times> 's) res) \<Rightarrow> 'c option \<Rightarrow> 'v list res option" where
  "unpackArrayWithStaticType L load root = unpack_bits L load root []"

section \<open>Byte strings\<close>

text \<open>The loop from \<open>offset\<close>; the sanity checks on \<open>int\<close> conversions cannot fail and are left out.\<close>

partial_function (option) pack_bytes ::
  "('b, 'c, 's) CellLib \<Rightarrow> bytes \<Rightarrow> nat \<Rightarrow> 'b list \<Rightarrow> 'b list res option" where
  "pack_bytes L data offset cells =
     (if offset < length data then
        (let bytesFit = Builder_BitsLeft L (hd cells) div 8;
             remainingBytes = length data - offset;
             writeLen = (if bytesFit < remainingBytes then bytesFit else remainingBytes)
         in if bytesFit > 0 then
              (case wrapE ''failed to store bytes'' (StoreSlice L (hd cells) (take writeLen (drop offset data)) (writeLen * 8)) of
                 Inl e \<Rightarrow> Some (Inl e)
               | Inr b \<Rightarrow> pack_bytes L data (offset + writeLen) (b # tl cells))
            else pack_bytes L data offset (BeginCell L # cells))
      else Some (Inr cells))"

definition packByteArrayToCell :: "('b, 'c, 's) CellLib \<Rightarrow> bytes \<Rightarrow> 'c option res option" where
  "packByteArrayToCell L data =
     (if length data = 0 then Some (Inr (Some (EndCell L (BeginCell L))))
      else (case pack_bytes L data 0 [BeginCell L] of
              None \<Rightarrow> None
            | Some (Inl e) \<Rightarrow> Some (Inl e)
            | Some (Inr cells) \<Rightarrow> Some (link_cells L (\<lambda>i. ''failed to link cell'') None cells)))"

partial_function (option) cell_bytes ::
  "('b, 'c, 's) CellLib \<Rightarrow> 's \<Rightarrow> bytes \<Rightarrow> bytes res option" where
  "cell_bytes L s result =
     (if Slice_BitsLeft L s > 0 then
        (case wrapE ''failed to load bytes'' (LoadSlice L s (Slice_BitsLeft L s)) of
           Inl e \<Rightarrow> Some (Inl e)
         | Inr (part, s') \<Rightarrow> cell_bytes L s' (result @ part))
      else Some (Inr result))"

partial_function (option) unload_bytes ::
  "('b, 'c, 's) CellLib \<Rightarrow> 'c option \<Rightarrow> bytes \<Rightarrow> bytes res option" where
  "unload_bytes L cur result = (case cur of
       None \<Rightarrow> Some (Inr result)
     | Some c \<Rightarrow> (case cell_bytes L (BeginParse L c) result of
           None \<Rightarrow> None
         | Some (Inl e) \<Rightarrow> Some (Inl e)
         | Some (Inr result') \<Rightarrow> (case next_cell L c of
               Inl e \<Rightarrow> Some (Inl e)
             | Inr next \<Rightarrow> unload_bytes L next result')))"

definition unloadCellToByteArray :: "('b, 'c, 's) CellLib \<Rightarrow> 'c option \<Rightarrow> bytes res option" where
  "unloadCellToByteArray L c = unload_bytes L c []"

section \<open>The wrapper types\<close>

definition SnakeData_ToCell :: "('b, 'c, 's) CellLib \<Rightarrow> ('v \<Rightarrow> 'c res) \<Rightarrow> 'v list \<Rightarrow> 'c option res" where
  "SnakeData_ToCell L toCell s = packArrayWithStaticType L toCell s"

definition SnakeData_LoadFromCell :: "('b, 'c, 's) CellLib \<Rightarrow> ('s \<Rightarrow> ('v \<times> 's) res) \<Rightarrow> 's \<Rightarrow> 'v list res option" where
  "SnakeData_LoadFromCell L load c = (case wrapE ''failed to convert slice to cell'' (Slice_ToCell L c) of
       Inl e \<Rightarrow> Some (Inl e)
     | Inr cl \<Rightarrow> unpackArrayWithStaticType L load (Some cl))"

definition SnakeBytes_ToCell :: "('b, 'c, 's) CellLib \<Rightarrow> bytes \<Rightarrow> 'c option res option" where
  "SnakeBytes_ToCell L s = packByteArrayToCell L s"

definition SnakeBytes_LoadFromCell :: "('b, 'c, 's) CellLib \<Rightarrow> 's \<Rightarrow> bytes res option" where
  "SnakeBytes_LoadFromCell L c = (case wrapE ''failed to convert slice to cell'' (Slice_ToCell L c) of
       Inl e \<Rightarrow> Some (Inl e)
     | Inr cl \<Rightarrow> map_option (wrapE ''failed to unpack byte array'') (unloadCellToByteArray L (Some cl)))"

definition SnakeRef_ToCell :: "('b, 'c, 's) CellLib \<Rightarrow> ('v \<Rightarrow> 'c res) \<Rightarrow> 'v list \<Rightarrow> 'c option res" where
  "SnakeRef_ToCell L toCell s = packArrayWithRefChaining L toCell s"

definition SnakeRef_LoadFromCell :: "('b, 'c, 's) CellLib \<Rightarrow> ('s \<Rightarrow> ('v \<times> 's) res) \<Rightarrow> 's \<Rightarrow> 'v list res option" where
  "SnakeRef_LoadFromCell L load c = (case wrapE ''failed to convert slice to cell'' (Slice_ToCell L c) of
       Inl e \<Rightarrow> Some (Inl e)
     | Inr cl \<Rightarrow> unpackArrayWithRefChaining L load (Some cl))"

definition NewDummyCell :: "('b, 'c, 's) CellLib \<Rightarrow> 'c res" where
  "NewDummyCell L =
     (let payload = string_bytes ''place holder''
      in bindE (StoreSlice L (BeginCell L) payload (length payload)) (\<lambda>builder. Inr (EndCell L builder)))"

section \<open>Element types\<close>

text \<open>An element type whose values survive alone in a cell.\<close>

definition ref_codec :: "('b, 'c, 's) CellLib \<Rightarrow> ('v \<Rightarrow> 'c res) \<Rightarrow> ('s \<Rightarrow> ('v \<times> 's) res) \<Rightarrow> 'v \<Rightarrow> bool" where
  "ref_codec L toCell load v = (\<exists>c. toCell v = Inr c \<and> (\<exists>s'. load (BeginParse L c) = Inr (v, s')))"

text \<open>
  An element type that delimits itself: a value has bits but no references, they fit into a cell,
  and decoding them from the front of a slice consumes exactly them. \<open>cc\<close> and \<open>sc\<close> are the contents
  of cells and slices.
\<close>

definition bit_codec :: "('c \<Rightarrow> 'c content) \<Rightarrow> ('s \<Rightarrow> 'c content) \<Rightarrow> ('v \<Rightarrow> 'c res) \<Rightarrow> ('s \<Rightarrow> ('v \<times> 's) res) \<Rightarrow> 'v \<Rightarrow> bool" where
  "bit_codec cc sc toCell load v = (\<exists>c xs. toCell v = Inr c \<and> cc c = (xs, []) \<and> xs \<noteq> [] \<and> length xs \<le> 1023 \<and>
     (\<forall>s rest rs. sc s = (xs @ rest, rs) \<longrightarrow> (\<exists>s'. load s = Inr (v, s') \<and> sc s' = (rest, rs))))"

section \<open>Chains of cells\<close>

context cell_laws
begin

text \<open>The contents of a chain, first cell first; each cell but the last ends in the link to the next.\<close>

fun linked :: "'c \<Rightarrow> 'c content list \<Rightarrow> bool" where
  "linked c [] = False"
| "linked c [(xs, rs)] = (cc c = (xs, rs))"
| "linked c ((xs, rs) # seg # segs) = (\<exists>n. cc c = (xs, rs @ [n]) \<and> linked n (seg # segs))"

lemma linked_cong: "cc c' = cc c \<Longrightarrow> linked c segs \<Longrightarrow> linked c' segs"
  by (cases "(c, segs)" rule: linked.cases) auto

lemma linked_Cons: "linked n segs \<Longrightarrow> cc c = (xs, rs @ [n]) \<Longrightarrow> linked c ((xs, rs) # segs)"
  by (cases segs) auto

lemma parse_cell: "\<exists>c'. Slice_ToCell L (BeginParse L c) = Inr c' \<and> cc c' = cc c"
  using slice_cell [of "BeginParse L c"] by (simp add: begin_parse)

lemma link_cells_onto:
  assumes "linked n segs" "\<forall>b \<in> set bs. length (snd (bc b)) < 4"
  shows "\<exists>c. link_cells L msg (Some n) bs = Inr (Some c) \<and> linked c (rev (map bc bs) @ segs)"
  using assms
proof (induction bs arbitrary: n segs)
  case Nil
  then show ?case by simp
next
  case (Cons b bs)
  obtain xs rs where b: "bc b = (xs, rs)" by (cases "bc b")
  with Cons.prems(2) obtain b' where b': "StoreRef L b n = Inr b'" "bc b' = (xs, rs @ [n])"
    using store_ref [of b xs rs n] by auto
  then have "linked (EndCell L b') ((xs, rs) # segs)" by (intro linked_Cons [OF Cons.prems(1)]) (simp add: end_cell)
  from Cons.IH [OF this] Cons.prems(2) b b' show ?case by simp
qed

lemma link_cells_chain:
  assumes "bs \<noteq> []" "\<forall>b \<in> set (tl bs). length (snd (bc b)) < 4"
  shows "\<exists>c. link_cells L msg None bs = Inr (Some c) \<and> linked c (rev (map bc bs))"
proof -
  obtain b bs' where bs: "bs = b # bs'" using assms(1) by (cases bs) auto
  have "linked (EndCell L b) [bc b]" by (cases "bc b") (simp add: end_cell)
  from link_cells_onto [OF this, of bs' msg] assms(2) bs show ?thesis by simp
qed

lemma next_cell_eq: "next_cell L c = Inr (case snd (cc c) of [] \<Rightarrow> None | r # rs \<Rightarrow> Some r)"
  by (cases "snd (cc c)") (simp_all add: next_cell_def refs_num peek_ref)

section \<open>Byte strings\<close>

lemma pack_bytes_chunks:
  assumes "cells \<noteq> []" "rev (map bc cells) = map (\<lambda>ch. (bits_of ch, [])) chunks" "concat chunks = take offset data"
    and "\<forall>ch \<in> set chunks. length ch \<le> 127"
  shows "\<exists>cells' chunks'. pack_bytes L data offset cells = Some (Inr cells') \<and> cells' \<noteq> [] \<and>
    rev (map bc cells') = map (\<lambda>ch. (bits_of ch, [])) chunks' \<and> concat chunks' = data \<and> (\<forall>ch \<in> set chunks'. length ch \<le> 127)"
  using assms
proof (induction "2 * (length data - offset) + (if Builder_BitsLeft L (hd cells) div 8 = 0 then 1 else 0)"
    arbitrary: offset cells chunks rule: less_induct)
  case less
  show ?case
  proof (cases "offset < length data")
    case False
    then have "pack_bytes L data offset cells = Some (Inr cells)" by (simp add: pack_bytes.simps)
    with False less.prems show ?thesis by (intro exI [of _ cells] exI [of _ chunks]) simp
  next
    case True
    obtain b bs where cells: "cells = b # bs" using less.prems(1) by (cases cells) auto
    from less.prems(2) cells obtain chs ch where chunks: "chunks = chs @ [ch]" "bc b = (bits_of ch, [])"
      "rev (map bc bs) = map (\<lambda>ch. (bits_of ch, [])) chs"
      by (cases chunks rule: rev_cases) auto
    have fit: "Builder_BitsLeft L b div 8 = 127 - length ch" using chunks(2) by (simp add: bits_left)
    show ?thesis
    proof (cases "length ch = 127")
      case full: True
      let ?cells = "BeginCell L # cells"
      have step: "pack_bytes L data offset cells = pack_bytes L data offset ?cells"
        using True cells fit full by (subst pack_bytes.simps) simp
      have left: "Builder_BitsLeft L (BeginCell L) div 8 = 127" by (simp add: bits_left begin_cell)
      have "rev (map bc ?cells) = map (\<lambda>ch. (bits_of ch, [])) (chunks @ [[]])" using less.prems(2) by (simp add: begin_cell)
      with less.hyps [of offset ?cells "chunks @ [[]]"] less.prems(3,4) step cells fit full left True show ?thesis by simp
    next
      case False
      with less.prems(4) chunks(1) have lt: "length ch < 127" by fastforce
      let ?w = "min (127 - length ch) (length data - offset)"
      have w: "(if 127 - length ch < length data - offset then 127 - length ch else length data - offset) = ?w" by simp
      let ?part = "take ?w (drop offset data)"
      have len: "length ?part = ?w" using True by simp
      have "?w \<le> 127 - length ch" by simp
      with lt have "length ch + ?w \<le> 127" by linarith
      then have size: "length (bits_of ch) + ?w * 8 \<le> 1023" by simp
      from len have "?w * 8 \<le> 8 * length ?part" by simp
      from store_slice [OF chunks(2) this size] obtain b' where
        b': "StoreSlice L b ?part (?w * 8) = Inr b'" "bc b' = (bits_of ch @ take (?w * 8) (bits_of ?part), [])" by blast
      have "take (?w * 8) (bits_of ?part) = bits_of ?part" using len by simp
      with b' have bits: "bc b' = (bits_of (ch @ ?part), [])" by simp
      have step: "pack_bytes L data offset cells = pack_bytes L data (offset + ?w) (b' # bs)"
        using True cells fit lt b'(1) w by (subst pack_bytes.simps) (simp add: Let_def)
      have pos: "0 < ?w" using True lt by simp
      have "rev (map bc (b' # bs)) = map (\<lambda>ch. (bits_of ch, [])) (chs @ [ch @ ?part])" using chunks(3) bits by simp
      moreover have "concat (chs @ [ch @ ?part]) = take (offset + ?w) data"
        using less.prems(3) chunks(1) by (simp add: take_add)
      moreover have "\<forall>x \<in> set (chs @ [ch @ ?part]). length x \<le> 127" using less.prems(4) chunks(1) len by auto
      moreover have "length data - (offset + ?w) < length data - offset" using pos True by linarith
      then have "2 * (length data - (offset + ?w)) + (if Builder_BitsLeft L (hd (b' # bs)) div 8 = 0 then 1 else 0) <
          2 * (length data - offset) + (if Builder_BitsLeft L (hd cells) div 8 = 0 then 1 else 0)" by auto
      ultimately show ?thesis unfolding step by (intro less.hyps [where chunks = "chs @ [ch @ ?part]"]) simp_all
    qed
  qed
qed

lemma cell_bytes_all: "sc s = (bits_of d, rs) \<Longrightarrow> cell_bytes L s result = Some (Inr (result @ d))"
proof (cases "d = []")
  case True
  assume "sc s = (bits_of d, rs)"
  with True show ?thesis by (simp add: cell_bytes.simps slice_left)
next
  case False
  assume s: "sc s = (bits_of d, rs)"
  then have left: "Slice_BitsLeft L s = 8 * length d" by (simp add: slice_left)
  with s load_slice [OF s, of "8 * length d"] obtain s' where "LoadSlice L s (Slice_BitsLeft L s) = Inr (d, s')" "sc s' = ([], rs)" by auto
  moreover from this have "cell_bytes L s' (result @ d) = Some (Inr (result @ d))" by (simp add: cell_bytes.simps slice_left)
  ultimately show ?thesis using False left by (subst cell_bytes.simps) simp
qed

lemma unload_bytes_linked:
  "linked c (map (\<lambda>ch. (bits_of ch, [])) chunks) \<Longrightarrow> unload_bytes L (Some c) result = Some (Inr (result @ concat chunks))"
proof (induction chunks arbitrary: c result)
  case Nil
  then show ?case by simp
next
  case (Cons ch chunks)
  show ?case
  proof (cases chunks)
    case Nil
    with Cons.prems have c: "cc c = (bits_of ch, [])" by simp
    then have "cell_bytes L (BeginParse L c) result = Some (Inr (result @ ch))" by (intro cell_bytes_all) (simp add: begin_parse)
    with c Nil show ?thesis by (subst unload_bytes.simps) (simp add: next_cell_eq unload_bytes.simps)
  next
    case (Cons ch' chunks')
    with Cons.prems obtain n where c: "cc c = (bits_of ch, [n])" and n: "linked n (map (\<lambda>ch. (bits_of ch, [])) chunks)" by auto
    then have "cell_bytes L (BeginParse L c) result = Some (Inr (result @ ch))" by (intro cell_bytes_all) (simp add: begin_parse)
    with c Cons.IH [OF n] show ?thesis by (subst unload_bytes.simps) (simp add: next_cell_eq)
  qed
qed

lemma bytes_roundtrip:
  "\<exists>c chunks. packByteArrayToCell L data = Some (Inr (Some c)) \<and> linked c (map (\<lambda>ch. (bits_of ch, [])) chunks) \<and>
     concat chunks = data \<and> (\<forall>ch \<in> set chunks. length ch \<le> 127)"
proof (cases "data = []")
  case True
  then show ?thesis
    by (intro exI [of _ "EndCell L (BeginCell L)"] exI [of _ "[[]]"]) (simp add: packByteArrayToCell_def end_cell begin_cell)
next
  case False
  from pack_bytes_chunks [of "[BeginCell L]" "[[]]" 0 data] obtain cells chunks where
    p: "pack_bytes L data 0 [BeginCell L] = Some (Inr cells)" "cells \<noteq> []" "rev (map bc cells) = map (\<lambda>ch. (bits_of ch, [])) chunks"
      "concat chunks = data" "\<forall>ch \<in> set chunks. length ch \<le> 127" by (auto simp: begin_cell)
  have "snd (bc b) = []" if "b \<in> set cells" for b
  proof -
    from that have "bc b \<in> set (rev (map bc cells))" by simp
    then show ?thesis unfolding p(3) by auto
  qed
  then have "\<forall>b \<in> set (tl cells). length (snd (bc b)) < 4" using list.set_sel(2) [OF p(2)] by fastforce
  from link_cells_chain [OF p(2) this] p False show ?thesis by (fastforce simp: packByteArrayToCell_def)
qed

section \<open>Arrays of references\<close>

lemma pack_refs_groups:
  assumes "\<forall>v \<in> set vs. toCell v = Inr (f v)" "cells \<noteq> []" "rev (map bc cells) = map (\<lambda>g. ([], map f g)) groups"
    and "length (last groups) \<le> 3" "\<forall>g \<in> set (butlast groups). length g = 3"
  shows "\<exists>cells' groups'. pack_refs L toCell i vs cells = Inr cells' \<and> cells' \<noteq> [] \<and>
    rev (map bc cells') = map (\<lambda>g. ([], map f g)) groups' \<and> concat groups' = concat groups @ vs \<and>
    length (last groups') \<le> 3 \<and> (\<forall>g \<in> set (butlast groups'). length g = 3)"
  using assms
proof (induction vs arbitrary: i cells groups)
  case Nil
  then show ?case by auto
next
  case (Cons v vs)
  obtain b bs where cells: "cells = b # bs" using Cons.prems(2) by (cases cells) auto
  from Cons.prems(3) cells obtain gs g where groups: "groups = gs @ [g]" "bc b = ([], map f g)"
    "rev (map bc bs) = map (\<lambda>g. ([], map f g)) gs"
    by (cases groups rule: rev_cases) auto
  have left: "Builder_RefsLeft L b = 4 - length g" using groups(2) by (simp add: refs_left)
  show ?case
  proof (cases "length g = 3")
    case True
    obtain b' where b': "StoreRef L (BeginCell L) (f v) = Inr b'" "bc b' = ([], [f v])"
      using store_ref [OF begin_cell, of "f v"] by auto
    have "rev (map bc (b' # cells)) = map (\<lambda>g. ([], map f g)) (groups @ [[v]])" using Cons.prems(3) b'(2) by simp
    moreover have "pack_refs L toCell i (v # vs) cells = pack_refs L toCell (Suc i) vs (b' # cells)"
      using Cons.prems(1) cells left True b'(1) by simp
    ultimately show ?thesis
      using Cons.IH [of "b' # cells" "groups @ [[v]]" "Suc i"] Cons.prems(1,5) groups(1) True by (auto simp: butlast_append)
  next
    case False
    with Cons.prems(4) groups(1) have lt: "length g < 3" by simp
    then have "length (map f g) < 4" by simp
    from store_ref [OF groups(2) this, of "f v"] obtain b' where b': "StoreRef L b (f v) = Inr b'" "bc b' = ([], map f (g @ [v]))" by auto
    have "rev (map bc (b' # bs)) = map (\<lambda>g. ([], map f g)) (gs @ [g @ [v]])" using groups(3) b'(2) by simp
    moreover have "Builder_RefsLeft L b \<noteq> 1" using left lt by simp
    then have "pack_refs L toCell i (v # vs) cells = pack_refs L toCell (Suc i) vs (b' # bs)"
      using Cons.prems(1) cells b'(1) by simp
    ultimately show ?thesis
      using Cons.IH [of "b' # bs" "gs @ [g @ [v]]" "Suc i"] Cons.prems(1,5) groups(1) lt by auto
  qed
qed

lemma ref_elements_load:
  assumes "\<forall>i \<in> set is. i < length g \<and> \<not> (len = 4 \<and> i = 3)" "snd (cc c) = map f g @ rest"
    and "\<forall>v \<in> set g. \<exists>s'. load (BeginParse L (f v)) = Inr (v, s')"
  shows "ref_elements L load c len (is @ js) result = ref_elements L load c len js (result @ map ((!) g) is)"
  using assms(1)
proof (induction "is" arbitrary: result)
  case (Cons i "is")
  then have i: "i < length g" by simp
  then have "PeekRef L c i = Inr (f (g ! i))" using assms(2) peek_ref [of i c] by (simp add: nth_append)
  moreover obtain s' where "load (BeginParse L (f (g ! i))) = Inr (g ! i, s')" using assms(3) i by fastforce
  ultimately show ?case using Cons by auto
qed simp

lemma unpack_refs_linked:
  assumes "linked c (map (\<lambda>g. ([], map f g)) groups)" "length (last groups) \<le> 3" "\<forall>g \<in> set (butlast groups). length g = 3"
    and "\<forall>v \<in> set (concat groups). \<exists>s'. load (BeginParse L (f v)) = Inr (v, s')"
  shows "unpack_refs L load c result = Some (Inr (result @ concat groups))"
  using assms
proof (induction groups arbitrary: c result)
  case Nil
  then show ?case by simp
next
  case (Cons g groups)
  have load: "\<forall>v \<in> set g. \<exists>s'. load (BeginParse L (f v)) = Inr (v, s')" using Cons.prems(4) by simp
  show ?case
  proof (cases groups)
    case Nil
    with Cons.prems have c: "cc c = ([], map f g)" and len: "length g \<le> 3" by auto
    have "ref_elements L load c (length g) ([0..<length g] @ []) result = Inr (result @ g, None)"
      using ref_elements_load [of "[0..<length g]" g "length g" c f "[]" load "[]" result] c len load by (simp add: map_nth)
    with c len Nil show ?thesis by (subst unpack_refs.simps) (simp add: refs_num)
  next
    case (Cons g' groups')
    with Cons.prems obtain n where c: "cc c = ([], map f g @ [n])" and n: "linked n (map (\<lambda>g. ([], map f g)) groups)"
      and len: "length g = 3" by auto
    have "PeekRef L c 3 = Inr n" using peek_ref [of 3 c] c len by (simp add: nth_append)
    moreover have "ref_elements L load c 4 ([0..<length g] @ [3]) result = ref_elements L load c 4 [3] (result @ map ((!) g) [0..<length g])"
      by (rule ref_elements_load [where rest = "[n]"]) (use c len load in auto)
    moreover have "[0..<4] = [0..<length g] @ [3::nat]" unfolding len by (simp add: upt_rec)
    ultimately have "ref_elements L load c 4 [0..<4] result = Inr (result @ g, Some n)" by (simp only: map_nth) simp
    moreover have "unpack_refs L load n (result @ g) = Some (Inr ((result @ g) @ concat groups))"
      by (rule Cons.IH [OF n]) (use Cons.prems Cons in auto)
    ultimately show ?thesis using c len by (subst unpack_refs.simps) (simp add: refs_num)
  qed
qed

lemma refs_roundtrip:
  assumes "\<forall>v \<in> set vs. ref_codec L toCell load v"
  shows "\<exists>c. packArrayWithRefChaining L toCell vs = Inr (Some c) \<and> (\<forall>c'. cc c' = cc c \<longrightarrow> unpackArrayWithRefChaining L load (Some c') = Some (Inr vs))"
proof -
  obtain f where f: "\<forall>v \<in> set vs. toCell v = Inr (f v)" "\<forall>v \<in> set vs. \<exists>s'. load (BeginParse L (f v)) = Inr (v, s')"
    using assms unfolding ref_codec_def by metis
  from pack_refs_groups [OF f(1), of "[BeginCell L]" "[[]]" 0] obtain cells groups where
    p: "pack_refs L toCell 0 vs [BeginCell L] = Inr cells" "cells \<noteq> []" "rev (map bc cells) = map (\<lambda>g. ([], map f g)) groups"
      "concat groups = vs" "length (last groups) \<le> 3" "\<forall>g \<in> set (butlast groups). length g = 3" by (auto simp: begin_cell)
  have short: "length g \<le> 3" if "g \<in> set groups" for g
    using that p(5,6) by (cases groups rule: rev_cases) auto
  have "length (snd (bc b)) < 4" if "b \<in> set cells" for b
  proof -
    from that have "bc b \<in> set (rev (map bc cells))" by simp
    then show ?thesis unfolding p(3) using short by fastforce
  qed
  then have "\<forall>b \<in> set (tl cells). length (snd (bc b)) < 4" using list.set_sel(2) [OF p(2)] by blast
  from link_cells_chain [OF p(2) this] obtain c where
    c: "link_cells L (\<lambda>i. ''failed to store ref at cell '' @ show_nat i) None cells = Inr (Some c)" "linked c (map (\<lambda>g. ([], map f g)) groups)"
    unfolding p(3) by blast
  have "cc c' = cc c \<Longrightarrow> unpack_refs L load c' [] = Some (Inr ([] @ concat groups))" for c'
    by (rule unpack_refs_linked [OF linked_cong [OF _ c(2)] p(5,6)]) (use f(2) p(4) in simp_all)
  with c(1) p(1,4) show ?thesis by (simp add: packArrayWithRefChaining_def unpackArrayWithRefChaining_def)
qed

section \<open>Arrays in the bits of cells\<close>

lemma pack_bits_groups:
  assumes "\<forall>v \<in> set vs. \<exists>c. toCell v = Inr c \<and> cc c = (f v, []) \<and> length (f v) \<le> 1023"
    and "cells \<noteq> []" "rev (map bc cells) = map (\<lambda>g. (concat (map f g), [])) groups"
    and "\<forall>g \<in> set groups. length (concat (map f g)) \<le> 1023"
  shows "\<exists>cells' groups'. pack_bits L toCell i vs cells = Inr cells' \<and> cells' \<noteq> [] \<and>
    rev (map bc cells') = map (\<lambda>g. (concat (map f g), [])) groups' \<and> concat groups' = concat groups @ vs"
  using assms
proof (induction vs arbitrary: i cells groups)
  case Nil
  then show ?case by auto
next
  case (Cons v vs)
  obtain b bs where cells: "cells = b # bs" using Cons.prems(2) by (cases cells) auto
  from Cons.prems(3) cells obtain gs g where groups: "groups = gs @ [g]" "bc b = (concat (map f g), [])"
    "rev (map bc bs) = map (\<lambda>g. (concat (map f g), [])) gs"
    by (cases groups rule: rev_cases) auto
  obtain c where c: "toCell v = Inr c" "cc c = (f v, [])" "length (f v) \<le> 1023" using Cons.prems(1) by auto
  have full: "BitsSize L c > Builder_BitsLeft L b \<longleftrightarrow> length (concat (map f g)) + length (f v) > 1023"
    using c(2) groups(2) Cons.prems(4) groups(1) by (auto simp: bits_size bits_left)
  have cont: "bc (ToBuilder L c) = (f v, [])" using c(2) by (simp add: to_builder)
  show ?case
  proof (cases "length (concat (map f g)) + length (f v) > 1023")
    case True
    obtain b' where b': "StoreBuilder L (BeginCell L) (ToBuilder L c) = Inr b'" "bc b' = (f v, [])"
      using store_builder [OF begin_cell cont] c(3) by auto
    have "rev (map bc (b' # cells)) = map (\<lambda>g. (concat (map f g), [])) (groups @ [[v]])" using Cons.prems(3) b'(2) by simp
    moreover have "pack_bits L toCell i (v # vs) cells = pack_bits L toCell (Suc i) vs (b' # cells)"
      using c(1) cells full True b'(1) by simp
    ultimately show ?thesis
      using Cons.IH [of "b' # cells" "groups @ [[v]]" "Suc i"] Cons.prems(1,4) c(3) by auto
  next
    case False
    obtain b' where b': "StoreBuilder L b (ToBuilder L c) = Inr b'" "bc b' = (concat (map f (g @ [v])), [])"
      using store_builder [OF groups(2) cont] False by auto
    have "rev (map bc (b' # bs)) = map (\<lambda>g. (concat (map f g), [])) (gs @ [g @ [v]])" using groups(3) b'(2) by simp
    moreover have "pack_bits L toCell i (v # vs) cells = pack_bits L toCell (Suc i) vs (b' # bs)"
      using c(1) cells full False b'(1) by simp
    moreover have "\<forall>x \<in> set (gs @ [g @ [v]]). length (concat (map f x)) \<le> 1023"
      using Cons.prems(4) groups(1) False by auto
    ultimately show ?thesis
      using Cons.IH [of "b' # bs" "gs @ [g @ [v]]" "Suc i"] Cons.prems(1) groups(1) by auto
  qed
qed

lemma bit_elements_group:
  assumes "\<forall>v \<in> set g. f v \<noteq> [] \<and> (\<forall>s rest rs. sc s = (f v @ rest, rs) \<longrightarrow> (\<exists>s'. load s = Inr (v, s') \<and> sc s' = (rest, rs)))"
    and "sc s = (concat (map f g), rs)"
  shows "bit_elements L load s result = Some (Inr (result @ g))"
  using assms
proof (induction g arbitrary: s result)
  case Nil
  then show ?case by (simp add: bit_elements.simps slice_left)
next
  case (Cons v g)
  from Cons.prems(2) have "sc s = (f v @ concat (map f g), rs)" by simp
  moreover have "sc s = (f v @ concat (map f g), rs) \<longrightarrow> (\<exists>s'. load s = Inr (v, s') \<and> sc s' = (concat (map f g), rs))"
    using Cons.prems(1) by (meson list.set_intros(1))
  ultimately obtain s' where s': "load s = Inr (v, s')" "sc s' = (concat (map f g), rs)" by blast
  have "Slice_BitsLeft L s > 0" using Cons.prems by (simp add: slice_left)
  with s' Cons.IH [of s' "result @ [v]"] Cons.prems(1) show ?case by (subst bit_elements.simps) simp
qed

lemma unpack_bits_linked:
  assumes "linked c (map (\<lambda>g. (concat (map f g), [])) groups)"
    and "\<forall>v \<in> set (concat groups). f v \<noteq> [] \<and> (\<forall>s rest rs. sc s = (f v @ rest, rs) \<longrightarrow> (\<exists>s'. load s = Inr (v, s') \<and> sc s' = (rest, rs)))"
  shows "unpack_bits L load (Some c) result = Some (Inr (result @ concat groups))"
  using assms
proof (induction groups arbitrary: c result)
  case Nil
  then show ?case by simp
next
  case (Cons g groups)
  have load: "\<forall>v \<in> set g. f v \<noteq> [] \<and> (\<forall>s rest rs. sc s = (f v @ rest, rs) \<longrightarrow> (\<exists>s'. load s = Inr (v, s') \<and> sc s' = (rest, rs)))"
    using Cons.prems(2) by simp
  have elems: "cc c = (concat (map f g), rs) \<Longrightarrow> bit_elements L load (BeginParse L c) result = Some (Inr (result @ g))" for rs
    by (rule bit_elements_group [OF load]) (simp add: begin_parse)
  show ?case
  proof (cases groups)
    case Nil
    with Cons.prems have c: "cc c = (concat (map f g), [])" by simp
    with elems Nil show ?thesis by (subst unpack_bits.simps) (simp add: next_cell_eq unpack_bits.simps)
  next
    case (Cons g' groups')
    with Cons.prems obtain n where c: "cc c = (concat (map f g), [n])"
      and n: "linked n (map (\<lambda>g. (concat (map f g), [])) groups)" by auto
    have "unpack_bits L load (Some n) (result @ g) = Some (Inr ((result @ g) @ concat groups))"
      by (rule Cons.IH [OF n]) (use Cons.prems(2) in auto)
    with c elems [OF c] show ?thesis by (subst unpack_bits.simps) (simp add: next_cell_eq)
  qed
qed

lemma bits_roundtrip:
  assumes "\<forall>v \<in> set vs. bit_codec cc sc toCell load v"
  shows "\<exists>c. packArrayWithStaticType L toCell vs = Inr (Some c) \<and> (\<forall>c'. cc c' = cc c \<longrightarrow> unpackArrayWithStaticType L load (Some c') = Some (Inr vs))"
proof -
  obtain f where f: "\<forall>v \<in> set vs. \<exists>c. toCell v = Inr c \<and> cc c = (f v, []) \<and> length (f v) \<le> 1023"
    "\<forall>v \<in> set vs. f v \<noteq> [] \<and> (\<forall>s rest rs. sc s = (f v @ rest, rs) \<longrightarrow> (\<exists>s'. load s = Inr (v, s') \<and> sc s' = (rest, rs)))"
    using assms unfolding bit_codec_def by metis
  from pack_bits_groups [OF f(1), of "[BeginCell L]" "[[]]" 0] obtain cells groups where
    p: "pack_bits L toCell 0 vs [BeginCell L] = Inr cells" "cells \<noteq> []" "rev (map bc cells) = map (\<lambda>g. (concat (map f g), [])) groups"
      "concat groups = vs" by (auto simp: begin_cell)
  have "snd (bc b) = []" if "b \<in> set cells" for b
  proof -
    from that have "bc b \<in> set (rev (map bc cells))" by simp
    then show ?thesis unfolding p(3) by auto
  qed
  then have "\<forall>b \<in> set (tl cells). length (snd (bc b)) < 4" using list.set_sel(2) [OF p(2)] by fastforce
  from link_cells_chain [OF p(2) this] obtain c where
    c: "link_cells L (\<lambda>i. ''failed to store ref at cell '' @ show_nat i) None cells = Inr (Some c)"
      "linked c (map (\<lambda>g. (concat (map f g), [])) groups)"
    unfolding p(3) by blast
  have "cc c' = cc c \<Longrightarrow> unpack_bits L load (Some c') [] = Some (Inr ([] @ concat groups))" for c'
    by (rule unpack_bits_linked [OF linked_cong [OF _ c(2)]]) (use f(2) p(4) in simp_all)
  with c(1) p(1,4) show ?thesis by (simp add: packArrayWithStaticType_def unpackArrayWithStaticType_def)
qed

section \<open>Cross-chain addresses\<close>

lemma address_cell:
  assumes "0 < length a" "length a \<le> 64"
  shows "\<exists>c. CrossChainAddress_ToCell L a = Inr c \<and> cc c = (bits_of (of_nat (length a) # a), [])"
proof -
  obtain b where b: "StoreSlice L (BeginCell L) [of_nat (length a)] 8 = Inr b" "bc b = (byte_bits (of_nat (length a)), [])"
    using store_slice [OF begin_cell, of 8 "[of_nat (length a)]"] by auto
  obtain b' where b': "StoreSlice L b a (length a * 8) = Inr b'" "bc b' = (byte_bits (of_nat (length a)) @ bits_of a, [])"
    using store_slice [OF b(2), of "length a * 8" a] assms by auto
  from assms b(1) b' show ?thesis by (auto simp: CrossChainAddress_ToCell_def end_cell)
qed

lemma address_load:
  assumes "0 < length a" "length a \<le> 64" "sc s = (bits_of (of_nat (length a) # a) @ rest, rs)"
  shows "\<exists>s'. CrossChainAddress_LoadFromCell L s = Inr (a, s') \<and> sc s' = (rest, rs)"
proof -
  have split: "sc s = (byte_bits (of_nat (length a)) @ bits_of a @ rest, rs)" using assms(3) by simp
  from load_slice [OF split, of 8] obtain s1 where
    s0: "LoadSlice L s 8 = Inr (bytes_of (take 8 (byte_bits (of_nat (length a)) @ bits_of a @ rest)), s1)"
      and s1': "sc s1 = (drop 8 (byte_bits (of_nat (length a)) @ bits_of a @ rest), rs)" by auto
  have "take 8 (byte_bits (of_nat (length a)) @ bits_of a @ rest) = bits_of [of_nat (length a)]" by simp
  with s0 s1' have s1: "LoadSlice L s 8 = Inr ([of_nat (length a)], s1)" "sc s1 = (bits_of a @ rest, rs)"
    by (simp_all only: bytes_of_bits) simp
  have len: "unat (of_nat (length a) :: u8) = length a" using assms(2) by (simp add: unat_of_nat)
  from load_slice [OF s1(2), of "length a * 8"] obtain s2 where "LoadSlice L s1 (length a * 8) = Inr (a, s2)" "sc s2 = (rest, rs)"
    by (auto simp: mult.commute)
  with s1 split assms(1,2) len show ?thesis
    by (auto simp: CrossChainAddress_LoadFromCell_def slice_left)
qed

text \<open>Cross-chain addresses as elements, alone in a cell or in the bits of one.\<close>

lemma address_codecs:
  assumes "0 < length a" "length a \<le> 64"
  shows "ref_codec L (CrossChainAddress_ToCell L) (CrossChainAddress_LoadFromCell L) a"
    and "bit_codec cc sc (CrossChainAddress_ToCell L) (CrossChainAddress_LoadFromCell L) a"
proof -
  from address_cell [OF assms] obtain c where
    c: "CrossChainAddress_ToCell L a = Inr c" "cc c = (bits_of (of_nat (length a) # a), [])" by blast
  have "sc (BeginParse L c) = (bits_of (of_nat (length a) # a) @ [], [])" using c(2) by (simp add: begin_parse)
  from address_load [OF assms this] c(1)
  show "ref_codec L (CrossChainAddress_ToCell L) (CrossChainAddress_LoadFromCell L) a" by (auto simp: ref_codec_def)
  have "bits_of (of_nat (length a) # a) \<noteq> []" using assms(1) by auto
  moreover have "length (bits_of (of_nat (length a) # a)) \<le> 1023" using assms(2) by simp
  ultimately show "bit_codec cc sc (CrossChainAddress_ToCell L) (CrossChainAddress_LoadFromCell L) a"
    unfolding bit_codec_def using c address_load [OF assms] by (intro exI [of _ c] exI [of _ "bits_of (of_nat (length a) # a)"]) blast
qed

text \<open>The wrapper types.\<close>

lemma snake_bytes:
  "\<exists>c. SnakeBytes_ToCell L data = Some (Inr (Some c)) \<and> SnakeBytes_LoadFromCell L (BeginParse L c) = Some (Inr data)"
proof -
  from bytes_roundtrip [of data] obtain c chunks where
    c: "packByteArrayToCell L data = Some (Inr (Some c))" "linked c (map (\<lambda>ch. (bits_of ch, [])) chunks)" "concat chunks = data"
    by blast
  from parse_cell [of c] obtain c' where c': "Slice_ToCell L (BeginParse L c) = Inr c'" "cc c' = cc c" by blast
  from unload_bytes_linked [OF linked_cong [OF c'(2) c(2)], of "[]"] c c'
  show ?thesis by (simp add: SnakeBytes_ToCell_def SnakeBytes_LoadFromCell_def unloadCellToByteArray_def)
qed

lemma snake_ref:
  assumes "\<forall>v \<in> set vs. ref_codec L toCell load v"
  shows "\<exists>c. SnakeRef_ToCell L toCell vs = Inr (Some c) \<and> SnakeRef_LoadFromCell L load (BeginParse L c) = Some (Inr vs)"
proof -
  from refs_roundtrip [OF assms] obtain c where
    c: "packArrayWithRefChaining L toCell vs = Inr (Some c)"
      "\<forall>c'. cc c' = cc c \<longrightarrow> unpackArrayWithRefChaining L load (Some c') = Some (Inr vs)" by blast
  from parse_cell [of c] c show ?thesis by (auto simp: SnakeRef_ToCell_def SnakeRef_LoadFromCell_def)
qed

lemma snake_data:
  assumes "\<forall>v \<in> set vs. bit_codec cc sc toCell load v"
  shows "\<exists>c. SnakeData_ToCell L toCell vs = Inr (Some c) \<and> SnakeData_LoadFromCell L load (BeginParse L c) = Some (Inr vs)"
proof -
  from bits_roundtrip [OF assms] obtain c where
    c: "packArrayWithStaticType L toCell vs = Inr (Some c)"
      "\<forall>c'. cc c' = cc c \<longrightarrow> unpackArrayWithStaticType L load (Some c') = Some (Inr vs)" by blast
  from parse_cell [of c] c show ?thesis by (auto simp: SnakeData_ToCell_def SnakeData_LoadFromCell_def)
qed

end

section \<open>Elements with references\<close>

text \<open>What the decoder returns extends what it was given; a non-empty slice adds an element.\<close>

definition extends :: "'v list \<Rightarrow> bool \<Rightarrow> 'v list res \<Rightarrow> bool" where
  "extends result nonempty y = (\<forall>r. y = Inr r \<longrightarrow> (\<exists>zs. r = result @ zs \<and> (nonempty \<longrightarrow> zs \<noteq> [])))"

lemma bit_elements_extends:
  assumes "bit_elements L load s result = Some y"
  shows "extends result (Slice_BitsLeft L s > 0) y"
proof (rule bit_elements.raw_induct [where P = "\<lambda>L load s result y. extends result (Slice_BitsLeft L s > 0) y", OF _ assms])
  fix f :: "('b, 'c, 's) CellLib \<Rightarrow> ('s \<Rightarrow> ('v \<times> 's) res) \<Rightarrow> 's \<Rightarrow> 'v list \<Rightarrow> 'v list res option"
  fix L load s result y
  assume IH: "\<And>L load s result y. f L load s result = Some y \<Longrightarrow> extends result (Slice_BitsLeft L s > 0) y"
    and body: "(if Slice_BitsLeft L s > 0 then (case wrapE ''failed to decode element'' (load s) of
           Inl e \<Rightarrow> Some (Inl e) | Inr (v, s') \<Rightarrow> f L load s' (result @ [v])) else Some (Inr result)) = Some y"
  show "extends result (Slice_BitsLeft L s > 0) y"
  proof (cases "Slice_BitsLeft L s > 0 \<and> okE (load s)")
    case True
    with body obtain v s' where "f L load s' (result @ [v]) = Some y" by (auto simp: okE_iff)
    from IH [OF this] show ?thesis by (auto simp: extends_def)
  next
    case False
    with body show ?thesis by (cases "load s") (auto simp: extends_def split: if_splits)
  qed
qed

lemma unpack_bits_extends:
  assumes "unpack_bits L load cur result = Some y"
  shows "extends result (case cur of None \<Rightarrow> False | Some c \<Rightarrow> Slice_BitsLeft L (BeginParse L c) > 0) y"
proof (rule unpack_bits.raw_induct [where P = "\<lambda>L load cur result y.
    extends result (case cur of None \<Rightarrow> False | Some c \<Rightarrow> Slice_BitsLeft L (BeginParse L c) > 0) y", OF _ assms])
  fix f :: "('b, 'c, 's) CellLib \<Rightarrow> ('s \<Rightarrow> ('v \<times> 's) res) \<Rightarrow> 'c option \<Rightarrow> 'v list \<Rightarrow> 'v list res option"
  fix L load cur result y
  assume IH: "\<And>L load cur result y. f L load cur result = Some y \<Longrightarrow>
      extends result (case cur of None \<Rightarrow> False | Some c \<Rightarrow> Slice_BitsLeft L (BeginParse L c) > 0) y"
    and body: "(case cur of None \<Rightarrow> Some (Inr result)
      | Some c \<Rightarrow> (case bit_elements L load (BeginParse L c) result of None \<Rightarrow> None | Some (Inl e) \<Rightarrow> Some (Inl e)
         | Some (Inr result') \<Rightarrow> (case next_cell L c of Inl e \<Rightarrow> Some (Inl e) | Inr next \<Rightarrow> f L load next result'))) = Some y"
  show "extends result (case cur of None \<Rightarrow> False | Some c \<Rightarrow> Slice_BitsLeft L (BeginParse L c) > 0) y"
  proof (cases cur)
    case None
    with body show ?thesis by (auto simp: extends_def)
  next
    case (Some c)
    with body show ?thesis
      by (fastforce simp: extends_def dest!: IH bit_elements_extends split: option.splits sum.splits)
  qed
qed

section \<open>Round trips\<close>

text \<open>
  C10: \<open>SnakeBytes\<close>: every byte string has an encoding, the loops of both directions end, and decoding
  gives the string back.
\<close>

theorem SnakeBytes_roundtrip:
  assumes "cell_laws L bc cc sc depth"
  shows "\<exists>c. SnakeBytes_ToCell L data = Some (Inr (Some c)) \<and>
    SnakeBytes_LoadFromCell L (BeginParse L c) = Some (Inr data)"
  using assms by (rule cell_laws.snake_bytes)

theorem SnakeBytes_roundtrip_witness:
  "\<exists>c. SnakeBytes_ToCell ref_lib (replicate 300 7) = Some (Inr (Some c)) \<and>
    SnakeBytes_LoadFromCell ref_lib (BeginParse ref_lib c) = Some (Inr (replicate 300 7))"
  by (rule SnakeBytes_roundtrip [OF ref.cell_laws_axioms])

text \<open>
  \<open>SnakeRef\<close>: an array whose elements survive alone in a cell survives packing into chained
  cells with up to three elements each.
\<close>

theorem SnakeRef_roundtrip:
  assumes "cell_laws L bc cc sc depth" "\<forall>v \<in> set vs. ref_codec L toCell load v"
  shows "\<exists>c. SnakeRef_ToCell L toCell vs = Inr (Some c) \<and> SnakeRef_LoadFromCell L load (BeginParse L c) = Some (Inr vs)"
  using assms by (rule cell_laws.snake_ref)

theorem SnakeRef_roundtrip_witness:
  "\<exists>c. SnakeRef_ToCell ref_lib (CrossChainAddress_ToCell ref_lib) [[1, 2], [3], [4, 5, 6], [7], [8]] = Inr (Some c) \<and>
    SnakeRef_LoadFromCell ref_lib (CrossChainAddress_LoadFromCell ref_lib) (BeginParse ref_lib c) = Some (Inr [[1, 2], [3], [4, 5, 6], [7], [8]])"
  by (rule SnakeRef_roundtrip [OF ref.cell_laws_axioms]) (auto intro!: ref.address_codecs)

text \<open>
  \<open>SnakeData\<close>: an array whose elements delimit themselves and have no references survives
  packing into the bits of linked cells.
\<close>

theorem SnakeData_roundtrip:
  assumes "cell_laws L bc cc sc depth" "\<forall>v \<in> set vs. bit_codec cc sc toCell load v"
  shows "\<exists>c. SnakeData_ToCell L toCell vs = Inr (Some c) \<and> SnakeData_LoadFromCell L load (BeginParse L c) = Some (Inr vs)"
  using assms by (rule cell_laws.snake_data)

theorem SnakeData_roundtrip_witness:
  "\<exists>c. SnakeData_ToCell ref_lib (CrossChainAddress_ToCell ref_lib) [replicate 64 1, replicate 64 2, [3]] = Inr (Some c) \<and>
    SnakeData_LoadFromCell ref_lib (CrossChainAddress_LoadFromCell ref_lib) (BeginParse ref_lib c) = Some (Inr [replicate 64 1, replicate 64 2, [3]])"
  by (rule SnakeData_roundtrip [OF ref.cell_laws_axioms]) (auto intro!: ref.address_codecs)

text \<open>
  Cross-chain addresses: a value is encoded exactly when it has 1 to 64 bytes, and then it is
  read back, from the front of whatever follows it in the cell.
\<close>

theorem CrossChainAddress_roundtrip:
  assumes "cell_laws L bc cc sc depth"
  shows "if 1 \<le> length a \<and> length a \<le> 64
    then \<exists>c s'. CrossChainAddress_ToCell L a = Inr c \<and> CrossChainAddress_LoadFromCell L (BeginParse L c) = Inr (a, s') \<and> sc s' = ([], [])
    else \<exists>e. CrossChainAddress_ToCell L a = Inl e \<and> \<not> is_panic e"
proof (cases "1 \<le> length a \<and> length a \<le> 64")
  case True
  then have "0 < length a" "length a \<le> 64" by auto
  from cell_laws.address_cell [OF assms this] obtain c where
    c: "CrossChainAddress_ToCell L a = Inr c" "cc c = (bits_of (of_nat (length a) # a), [])" by blast
  then have "sc (BeginParse L c) = (bits_of (of_nat (length a) # a) @ [], [])" using cell_laws.begin_parse [OF assms, of c] by simp
  from cell_laws.address_load [OF assms _ _ this] True c(1) show ?thesis by fastforce
next
  case False
  then have "length a > 64 \<or> length a = 0" by linarith
  then show ?thesis using False by (auto simp: CrossChainAddress_ToCell_def)
qed

theorem CrossChainAddress_roundtrip_witness:
  "(\<exists>c s'. CrossChainAddress_ToCell ref_lib (replicate 20 9) = Inr c \<and>
     CrossChainAddress_LoadFromCell ref_lib (BeginParse ref_lib c) = Inr (replicate 20 9, s') \<and> s' = ([], []))
   \<and> (\<exists>e. CrossChainAddress_ToCell ref_lib [] = Inl e \<and> \<not> is_panic e)"
  using CrossChainAddress_roundtrip [OF ref.cell_laws_axioms, of "replicate 20 9"] CrossChainAddress_roundtrip [OF ref.cell_laws_axioms, of "[]"]
  by simp

text \<open>
  A flaw: \<open>SnakeData\<close> of a type with references does not survive. The decoder takes the first
  reference of the cell for the link to the next one, although it belongs to an element, and reads
  more elements from it. (\<open>SnakeData[Call]\<close> of the timelock bindings has such an element type.)
\<close>

theorem SnakeData_takes_element_refs:
  assumes "cell_laws L bc cc sc depth" "toCell v = Inr c" "cc c = (xs, [r])" "xs \<noteq> []" "length xs \<le> 1023" "fst (cc r) \<noteq> []"
  shows "\<exists>root. SnakeData_ToCell L toCell [v] = Inr (Some root) \<and> SnakeData_LoadFromCell L load (BeginParse L root) \<noteq> Some (Inr [v])"
proof -
  note laws = assms(1)
  have b: "bc (ToBuilder L c) = (xs, [r])" using cell_laws.to_builder [OF laws, of c] assms(3) by simp
  obtain b' where b': "StoreBuilder L (BeginCell L) (ToBuilder L c) = Inr b'" "bc b' = (xs, [r])"
    using cell_laws.store_builder [OF laws cell_laws.begin_cell [OF laws] b] assms(5) by auto
  have "\<not> BitsSize L c > Builder_BitsLeft L (BeginCell L)"
    using assms(3,5) by (simp add: cell_laws.bits_size [OF laws] cell_laws.bits_left [OF laws] cell_laws.begin_cell [OF laws])
  with assms(2) b'(1) have enc: "SnakeData_ToCell L toCell [v] = Inr (Some (EndCell L b'))"
    by (simp add: SnakeData_ToCell_def packArrayWithStaticType_def)
  obtain c' where c': "Slice_ToCell L (BeginParse L (EndCell L b')) = Inr c'" "cc c' = (xs, [r])"
    using cell_laws.parse_cell [OF laws, of "EndCell L b'"] cell_laws.end_cell [OF laws, of b'] b'(2) by auto
  have "unpack_bits L load (Some c') [] \<noteq> Some (Inr [v])"
  proof
    assume u: "unpack_bits L load (Some c') [] = Some (Inr [v])"
    from c'(2) have "next_cell L c' = Inr (Some r)" by (simp add: cell_laws.next_cell_eq [OF laws])
    with u obtain result' where e: "bit_elements L load (BeginParse L c') [] = Some (Inr result')"
      and n: "unpack_bits L load (Some r) result' = Some (Inr [v])"
      by (subst (asm) unpack_bits.simps) (auto split: option.splits sum.splits)
    have left: "Slice_BitsLeft L (BeginParse L k) = length (fst (cc k))" for k
      by (simp add: cell_laws.slice_left [OF laws] cell_laws.begin_parse [OF laws])
    from bit_elements_extends [OF e] c'(2) assms(4) left have "result' \<noteq> []" by (auto simp: extends_def)
    with unpack_bits_extends [OF n] assms(6) left [of r] show False by (cases result') (auto simp: extends_def)
  qed
  with enc c'(1) show ?thesis by (simp add: SnakeData_LoadFromCell_def unpackArrayWithStaticType_def)
qed

theorem SnakeData_takes_element_refs_witness:
  "\<exists>root. SnakeData_ToCell ref_lib (\<lambda>b. Inr (TCell [b] [TCell [True] []])) [True] = Inr (Some root) \<and>
    SnakeData_LoadFromCell ref_lib (\<lambda>(xs, rs). Inr (hd xs, (tl xs, rs))) (BeginParse ref_lib root) \<noteq> Some (Inr [True])"
  by (rule SnakeData_takes_element_refs [OF ref.cell_laws_axioms, where xs = "[True]" and r = "TCell [True] []"]) auto

end
