(* ===== verification/Tlb_Layout.thy ===== *)
theory Tlb_Layout
  imports Snake
begin

text \<open>
  The wire layout of message and storage structs. The bindings declare Go structs whose fields
  carry \<open>tlb:"..."\<close> tags; \<open>tlb.ToCell\<close> and \<open>tlb.LoadFromCell\<close> of \<open>tonutils-go\<close> interpret the tags.
  A struct is here the list of its tags (\<open>layout\<close>), a value of the struct the list of its fields.

  \<open>struct_enc\<close> and \<open>struct_dec\<close> read the tags as the package documents them. Fields of the types of
  \<open>common.go\<close> (\<open>CrossChainAddress\<close>, \<open>SnakeData\<close>) go through the definitions of \<open>Snake\<close>. The package
  itself is the parameter of the locale \<open>tlb_laws\<close>: \<open>ToCell\<close> produces the documented encoding of a
  well-typed value when it fits into a cell and fails when it does not, \<open>LoadFromCell\<close> parses such a cell field by field, up
  to the text of errors. Cells have the limits of bits and references that TON sets; its limit on the depth of a tree
  of cells (512 for messages) is left out, so arrays may be chained without bound. That every
  value of a struct fits, that parsing inverts encoding and that no struct is mistaken for another
  is proved, from a static check of the layout (\<open>layout_wf\<close>).
\<close>

section \<open>Tags and values\<close>

text \<open>
  Tags of fields that are stored in the cell itself. \<open>Magic m\<close> is \<open>#m\<close>, \<open>UInt n\<close> is \<open>## n\<close>,
  \<open>BitsTag n\<close> is \<open>bits n\<close>, \<open>Coins\<close> is \<open>.\<close> on \<open>tlb.Coins\<close>, \<open>CellRef\<close> is \<open>^\<close> on \<open>*cell.Cell\<close>, \<open>XAddr k\<close> is
  \<open>.\<close> on a \<open>CrossChainAddress\<close> of at most \<open>k\<close> bytes; the type's own limit is 64.
\<close>

datatype atom = Magic nat | UInt nat | BitsTag nat | BoolTag | Addr | MaybeAddr | Coins | Dict nat | CellRef | MaybeRef | XAddr nat

text \<open>
  Fields with the tag \<open>^\<close>: \<open>RefTo l\<close> is a struct, \<open>SnakeTo l\<close> a \<open>SnakeData\<close> of structs, \<open>SnakeRefTo l\<close> a
  \<open>SnakeRef\<close> of structs, \<open>BytesTo\<close> a \<open>SnakeBytes\<close> and \<open>BytesListTo\<close> a \<open>SnakeRef[SnakeBytes]\<close>. An embedded
  struct with the tag \<open>.\<close> is the sequence of its tags.
\<close>

datatype tag = Plain atom | RefTo "tag list" | SnakeTo "atom list" | SnakeRefTo "tag list" | BytesTo | BytesListTo

type_synonym layout = "tag list"

text \<open>An address is a workchain and the 32 bytes of the account, or \<open>addr_none\<close>. \<open>NilV\<close> is a nil pointer.\<close>

datatype val = UnitV | IntV int | BytesV bytes | BoolV bool | AddrV "(u8 \<times> bytes) option" | CellV tcell | NilV
  | StructV "val list" | ListV "val list list"

section \<open>Typing\<close>

definition address_typed :: "(u8 \<times> bytes) option \<Rightarrow> bool" where
  "address_typed a = (case a of None \<Rightarrow> True | Some (w, d) \<Rightarrow> length d = 32)"

fun atom_typed :: "atom \<Rightarrow> val \<Rightarrow> bool" where
  "atom_typed (Magic m) v = (v = UnitV)"
| "atom_typed (UInt n) (IntV i) = (0 \<le> i \<and> i < 2 ^ n)"
| "atom_typed (BitsTag n) (BytesV bs) = (8 * length bs = n)"
| "atom_typed BoolTag (BoolV b) = True"
| "atom_typed Addr (AddrV a) = address_typed a"
| "atom_typed MaybeAddr NilV = True"
| "atom_typed MaybeAddr (AddrV a) = address_typed a"
| "atom_typed Coins (IntV i) = (0 \<le> i \<and> i < 2 ^ 120)"
| "atom_typed (Dict n) NilV = True"
| "atom_typed (Dict n) (CellV c) = True"
| "atom_typed CellRef (CellV c) = True"
| "atom_typed MaybeRef NilV = True"
| "atom_typed MaybeRef (CellV c) = True"
| "atom_typed (XAddr k) (BytesV bs) = (1 \<le> length bs \<and> length bs \<le> k)"
| "atom_typed _ _ = False"

fun fields_typed :: "('v \<Rightarrow> bool) list \<Rightarrow> 'v list \<Rightarrow> bool" where
  "fields_typed [] vs = (vs = [])"
| "fields_typed (p # ps) vs = (case vs of [] \<Rightarrow> False | v # vs' \<Rightarrow> p v \<and> fields_typed ps vs')"

definition atoms_typed :: "atom list \<Rightarrow> val list \<Rightarrow> bool" where
  "atoms_typed as = fields_typed (map atom_typed as)"

primrec tag_typed :: "tag \<Rightarrow> val \<Rightarrow> bool" where
  "tag_typed (Plain a) = atom_typed a"
| "tag_typed (RefTo l) = (\<lambda>v. case v of StructV vs \<Rightarrow> fields_typed (map tag_typed l) vs | _ \<Rightarrow> False)"
| "tag_typed (SnakeTo as) = (\<lambda>v. case v of ListV vss \<Rightarrow> list_all (atoms_typed as) vss | _ \<Rightarrow> False)"
| "tag_typed (SnakeRefTo l) = (\<lambda>v. case v of ListV vss \<Rightarrow> list_all (fields_typed (map tag_typed l)) vss | _ \<Rightarrow> False)"
| "tag_typed BytesTo = (\<lambda>v. case v of BytesV bs \<Rightarrow> True | _ \<Rightarrow> False)"
| "tag_typed BytesListTo = (\<lambda>v. case v of ListV vss \<Rightarrow> list_all (\<lambda>vs. \<exists>bs. vs = [BytesV bs]) vss | _ \<Rightarrow> False)"

definition struct_typed :: "layout \<Rightarrow> val list \<Rightarrow> bool" where
  "struct_typed l = fields_typed (map tag_typed l)"

section \<open>Bits of numbers and addresses\<close>

text \<open>Most significant bit first.\<close>

definition nat_bits :: "nat \<Rightarrow> nat \<Rightarrow> bool list" where
  "nat_bits n v = rev (map (bit v) [0..<n])"

definition bits_nat :: "bool list \<Rightarrow> nat" where
  "bits_nat xs = horner_sum of_bool 2 (rev xs)"

lemma length_nat_bits [simp]: "length (nat_bits n v) = n"
  by (simp add: nat_bits_def)

lemma bits_nat_bits: "v < 2 ^ n \<Longrightarrow> bits_nat (nat_bits n v) = v"
  by (simp add: bits_nat_def nat_bits_def horner_sum_bit_eq_take_bit take_bit_nat_eq_self)

text \<open>The number of bytes of a \<open>VarUInteger\<close>.\<close>

fun byte_len :: "nat \<Rightarrow> nat" where
  "byte_len n = (if n = 0 then 0 else Suc (byte_len (n div 256)))"

declare byte_len.simps [simp del]

lemma byte_len_bound: "n < 256 ^ byte_len n"
proof (induction n rule: byte_len.induct)
  case (1 n)
  show ?case
  proof (cases "n = 0")
    case False
    have "n < 256 * Suc (n div 256)" using dividend_less_times_div [of 256 n] by simp
    also have "256 * Suc (n div 256) \<le> 256 * 256 ^ byte_len (n div 256)" using 1 [OF False] by (intro mult_le_mono) simp_all
    finally show ?thesis using False by (simp add: byte_len.simps [of n])
  qed (simp add: byte_len.simps)
qed

lemma byte_len_le: "n < 256 ^ k \<Longrightarrow> byte_len n \<le> k"
proof (induction n arbitrary: k rule: byte_len.induct)
  case (1 n)
  show ?case
  proof (cases "n = 0")
    case False
    with 1(2) obtain j where k: "k = Suc j" by (cases k) auto
    with 1(2) have "n div 256 < 256 ^ j" by (simp add: less_mult_imp_div_less mult.commute)
    from 1(1) [OF False this] False k show ?thesis by (simp add: byte_len.simps [of n])
  qed (simp add: byte_len.simps)
qed

text \<open>\<open>addr_none$00\<close> and \<open>addr_std$10\<close> without anycast.\<close>

definition address_bits :: "(u8 \<times> bytes) option \<Rightarrow> bool list" where
  "address_bits a = (case a of None \<Rightarrow> [False, False] | Some (w, d) \<Rightarrow> [True, False, False] @ bits_of (w # d))"

section \<open>Encoding\<close>

definition bad_value :: "'a res" where
  "bad_value = Inl (Err ''value does not fit the tag'')"

fun atom_enc :: "atom \<Rightarrow> val \<Rightarrow> tcell content res" where
  "atom_enc (Magic m) v = Inr (nat_bits 32 m, [])"
| "atom_enc (UInt n) (IntV i) = Inr (nat_bits n (nat i), [])"
| "atom_enc (BitsTag n) (BytesV bs) = Inr (take n (bits_of bs), [])"
| "atom_enc BoolTag (BoolV b) = Inr ([b], [])"
| "atom_enc Addr (AddrV a) = Inr (address_bits a, [])"
| "atom_enc MaybeAddr NilV = Inr ([False], [])"
| "atom_enc MaybeAddr (AddrV a) = Inr (True # address_bits a, [])"
| "atom_enc Coins (IntV i) = (let k = byte_len (nat i) in Inr (nat_bits 4 k @ nat_bits (8 * k) (nat i), []))"
| "atom_enc (Dict n) NilV = Inr ([False], [])"
| "atom_enc (Dict n) (CellV c) = Inr ([True], [c])"
| "atom_enc CellRef (CellV c) = Inr ([], [c])"
| "atom_enc MaybeRef NilV = Inr ([False], [])"
| "atom_enc MaybeRef (CellV c) = Inr ([True], [c])"
| "atom_enc (XAddr k) (BytesV bs) = map_sum id tcell_content (CrossChainAddress_ToCell ref_lib bs)"
| "atom_enc _ _ = bad_value"

fun fields_enc :: "('v \<Rightarrow> tcell content res) list \<Rightarrow> 'v list \<Rightarrow> tcell content res" where
  "fields_enc [] vs = Inr ([], [])"
| "fields_enc (e # es) vs = (case vs of [] \<Rightarrow> bad_value
     | v # vs' \<Rightarrow> bindE (e v) (\<lambda>(xs, rs). bindE (fields_enc es vs') (\<lambda>(ys, ts). Inr (xs @ ys, rs @ ts))))"

definition end_cell :: "tcell content \<Rightarrow> tcell res" where
  "end_cell c = (if length (fst c) \<le> 1023 \<and> length (snd c) \<le> 4 then Inr (TCell (fst c) (snd c)) else Inl (Err ''not enough space''))"

definition atoms_cell :: "atom list \<Rightarrow> val list \<Rightarrow> tcell res" where
  "atoms_cell as vs = bindE (fields_enc (map atom_enc as) vs) end_cell"

definition ref_to :: "tcell \<Rightarrow> tcell content" where
  "ref_to c = ([], [c])"

definition ref_to_opt :: "tcell option res \<Rightarrow> tcell content res" where
  "ref_to_opt m = bindE m (\<lambda>c. case c of None \<Rightarrow> bad_value | Some c \<Rightarrow> Inr (ref_to c))"

text \<open>
  The loops over an array take codecs of elements that return. One that may not return is turned into
  one that panics, and such a panic of the loop back into not returning.
\<close>

definition stuck :: gerr where
  "stuck = Panic ''does not return''"

definition returning :: "'a res option \<Rightarrow> 'a res" where
  "returning m = (case m of None \<Rightarrow> Inl stuck | Some r \<Rightarrow> r)"

definition not_returning :: "'a res option \<Rightarrow> 'a res option" where
  "not_returning m = (case m of Some (Inl e) \<Rightarrow> if e = stuck then None else m | _ \<Rightarrow> m)"

definition bytes_cell :: "val list \<Rightarrow> tcell res" where
  "bytes_cell vs = (case vs of
     [BytesV bs] \<Rightarrow> bindE (returning (SnakeBytes_ToCell ref_lib bs)) (\<lambda>c. case c of None \<Rightarrow> bad_value | Some c \<Rightarrow> Inr c)
   | _ \<Rightarrow> bad_value)"

primrec tag_enc :: "tag \<Rightarrow> val \<Rightarrow> tcell content res" where
  "tag_enc (Plain a) = atom_enc a"
| "tag_enc (RefTo l) = (\<lambda>v. case v of
     StructV vs \<Rightarrow> map_sum id ref_to (bindE (fields_enc (map tag_enc l) vs) end_cell) | _ \<Rightarrow> bad_value)"
| "tag_enc (SnakeTo as) = (\<lambda>v. case v of ListV vss \<Rightarrow> ref_to_opt (SnakeData_ToCell ref_lib (atoms_cell as) vss) | _ \<Rightarrow> bad_value)"
| "tag_enc (SnakeRefTo l) = (\<lambda>v. case v of
     ListV vss \<Rightarrow> ref_to_opt (SnakeRef_ToCell ref_lib (\<lambda>vs. bindE (fields_enc (map tag_enc l) vs) end_cell) vss) | _ \<Rightarrow> bad_value)"
| "tag_enc BytesTo = (\<lambda>v. map_sum id ref_to (bytes_cell [v]))"
| "tag_enc BytesListTo = (\<lambda>v. case v of ListV vss \<Rightarrow> ref_to_opt (SnakeRef_ToCell ref_lib bytes_cell vss) | _ \<Rightarrow> bad_value)"

definition struct_enc :: "layout \<Rightarrow> val list \<Rightarrow> tcell res" where
  "struct_enc l vs = bindE (fields_enc (map tag_enc l) vs) end_cell"

section \<open>Decoding\<close>

definition load_bits :: "nat \<Rightarrow> tcell content \<Rightarrow> (bool list \<times> tcell content) res" where
  "load_bits n s = (if n \<le> length (fst s) then Inr (take n (fst s), (drop n (fst s), snd s)) else Inl (Err ''not enough data in reader''))"

definition load_ref :: "tcell content \<Rightarrow> (tcell \<times> tcell content) res" where
  "load_ref s = (case snd s of [] \<Rightarrow> Inl (Err ''no more refs exists'') | r # rs \<Rightarrow> Inr (r, (fst s, rs)))"

definition load_address :: "tcell content \<Rightarrow> (val \<times> tcell content) res" where
  "load_address s = bindE (load_bits 2 s) (\<lambda>(kind, s1).
     if kind = [False, False] then Inr (AddrV None, s1)
     else if kind = [True, False] then bindE (load_bits 1 s1) (\<lambda>(anycast, s2).
       if anycast = [False] then bindE (load_bits 264 s2) (\<lambda>(xs, s3). Inr (AddrV (Some (hd (bytes_of xs), tl (bytes_of xs))), s3))
       else Inl (Err ''not supported type of address''))
     else Inl (Err ''not supported type of address''))"

text \<open>A bit that says whether a value follows.\<close>

definition load_maybe :: "(tcell content \<Rightarrow> (val \<times> tcell content) res) \<Rightarrow> tcell content \<Rightarrow> (val \<times> tcell content) res" where
  "load_maybe load s = bindE (load_bits 1 s) (\<lambda>(b, s1). if b = [True] then load s1 else Inr (NilV, s1))"

definition load_cell :: "tcell content \<Rightarrow> (val \<times> tcell content) res" where
  "load_cell s = map_sum id (\<lambda>(r, s1). (CellV r, s1)) (load_ref s)"

fun atom_dec :: "atom \<Rightarrow> tcell content \<Rightarrow> (val \<times> tcell content) res" where
  "atom_dec (Magic m) s = bindE (load_bits 32 s) (\<lambda>(xs, s1). if bits_nat xs = m then Inr (UnitV, s1) else Inl (Err ''magic is not correct''))"
| "atom_dec (UInt n) s = bindE (load_bits n s) (\<lambda>(xs, s1). Inr (IntV (int (bits_nat xs)), s1))"
| "atom_dec (BitsTag n) s = bindE (load_bits n s) (\<lambda>(xs, s1). Inr (BytesV (bytes_of xs), s1))"
| "atom_dec BoolTag s = bindE (load_bits 1 s) (\<lambda>(xs, s1). Inr (BoolV (xs = [True]), s1))"
| "atom_dec Addr s = load_address s"
| "atom_dec MaybeAddr s = load_maybe load_address s"
| "atom_dec Coins s = bindE (load_bits 4 s) (\<lambda>(k, s1). bindE (load_bits (8 * bits_nat k) s1) (\<lambda>(xs, s2). Inr (IntV (int (bits_nat xs)), s2)))"
| "atom_dec (Dict n) s = load_maybe load_cell s"
| "atom_dec CellRef s = load_cell s"
| "atom_dec MaybeRef s = load_maybe load_cell s"
| "atom_dec (XAddr k) s = map_sum id (\<lambda>(a, s1). (BytesV a, s1)) (CrossChainAddress_LoadFromCell ref_lib s)"

fun atoms_dec :: "atom list \<Rightarrow> tcell content \<Rightarrow> (val list \<times> tcell content) res" where
  "atoms_dec [] s = Inr ([], s)"
| "atoms_dec (a # as) s = bindE (atom_dec a s) (\<lambda>(v, s1). bindE (atoms_dec as s1) (\<lambda>(vs, s2). Inr (v # vs, s2)))"

fun fields_dec :: "('s \<Rightarrow> ('v \<times> 's) res option) list \<Rightarrow> 's \<Rightarrow> ('v list \<times> 's) res option" where
  "fields_dec [] s = Some (Inr ([], s))"
| "fields_dec (d # ds) s = bindO (d s) (\<lambda>(v, s1). bindO (fields_dec ds s1) (\<lambda>(vs, s2). Some (Inr (v # vs, s2))))"

definition bytes_dec :: "tcell content \<Rightarrow> (val list \<times> tcell content) res option" where
  "bytes_dec s = bindO (SnakeBytes_LoadFromCell ref_lib s) (\<lambda>bs. Some (Inr ([BytesV bs], ([], []))))"

primrec tag_dec :: "tag \<Rightarrow> tcell content \<Rightarrow> (val \<times> tcell content) res option" where
  "tag_dec (Plain a) = (\<lambda>s. Some (atom_dec a s))"
| "tag_dec (RefTo l) = (\<lambda>s. bindO (Some (load_ref s)) (\<lambda>(r, s1).
     bindO (fields_dec (map tag_dec l) (tcell_content r)) (\<lambda>(vs, _). Some (Inr (StructV vs, s1)))))"
| "tag_dec (SnakeTo as) = (\<lambda>s. bindO (Some (load_ref s)) (\<lambda>(r, s1).
     bindO (SnakeData_LoadFromCell ref_lib (atoms_dec as) (BeginParse ref_lib r)) (\<lambda>vss. Some (Inr (ListV vss, s1)))))"
| "tag_dec (SnakeRefTo l) = (\<lambda>s. bindO (Some (load_ref s)) (\<lambda>(r, s1).
     bindO (not_returning (SnakeRef_LoadFromCell ref_lib (\<lambda>s. returning (fields_dec (map tag_dec l) s)) (BeginParse ref_lib r)))
       (\<lambda>vss. Some (Inr (ListV vss, s1)))))"
| "tag_dec BytesTo = (\<lambda>s. bindO (Some (load_ref s)) (\<lambda>(r, s1).
     bindO (SnakeBytes_LoadFromCell ref_lib (BeginParse ref_lib r)) (\<lambda>bs. Some (Inr (BytesV bs, s1)))))"
| "tag_dec BytesListTo = (\<lambda>s. bindO (Some (load_ref s)) (\<lambda>(r, s1).
     bindO (not_returning (SnakeRef_LoadFromCell ref_lib (\<lambda>s. returning (bytes_dec s)) (BeginParse ref_lib r)))
       (\<lambda>vss. Some (Inr (ListV vss, s1)))))"

text \<open>What follows the last field stays in the slice.\<close>

definition struct_dec :: "layout \<Rightarrow> tcell \<Rightarrow> val list res option" where
  "struct_dec l c = bindO (fields_dec (map tag_dec l) (tcell_content c)) (\<lambda>(vs, _). Some (Inr vs))"

section \<open>Sizes\<close>

text \<open>The most bits and references a field can take, and whether it always takes a bit.\<close>

fun atom_bits :: "atom \<Rightarrow> nat" where
  "atom_bits (Magic m) = 32"
| "atom_bits (UInt n) = n"
| "atom_bits (BitsTag n) = n"
| "atom_bits BoolTag = 1"
| "atom_bits Addr = 267"
| "atom_bits MaybeAddr = 268"
| "atom_bits Coins = 124"
| "atom_bits (Dict n) = 1"
| "atom_bits CellRef = 0"
| "atom_bits MaybeRef = 1"
| "atom_bits (XAddr k) = 8 + 8 * k"

fun atom_refs :: "atom \<Rightarrow> nat" where
  "atom_refs (Dict n) = 1"
| "atom_refs CellRef = 1"
| "atom_refs MaybeRef = 1"
| "atom_refs _ = 0"

fun tag_bits :: "tag \<Rightarrow> nat" where
  "tag_bits (Plain a) = atom_bits a"
| "tag_bits _ = 0"

fun tag_refs :: "tag \<Rightarrow> nat" where
  "tag_refs (Plain a) = atom_refs a"
| "tag_refs _ = 1"

definition layout_fits :: "layout \<Rightarrow> bool" where
  "layout_fits l = (sum_list (map tag_bits l) \<le> 1023 \<and> sum_list (map tag_refs l) \<le> 4)"

text \<open>
  The static check: the struct and every struct it refers to fit into a cell, a magic has 32 bits,
  an address at most 64 bytes, and the elements of a \<open>SnakeData\<close> fit into a cell, have bits and have no references.
\<close>

fun atom_wf :: "atom \<Rightarrow> bool" where
  "atom_wf (Magic m) = (m < 2 ^ 32)"
| "atom_wf (XAddr k) = (k \<le> 64)"
| "atom_wf _ = True"

definition element_wf :: "atom list \<Rightarrow> bool" where
  "element_wf as = (list_all atom_wf as \<and> sum_list (map atom_bits as) \<le> 1023 \<and> list_all (\<lambda>a. atom_refs a = 0 \<and> 0 < atom_bits a) as \<and> as \<noteq> [])"

primrec tag_wf :: "tag \<Rightarrow> bool" where
  "tag_wf (Plain a) = atom_wf a"
| "tag_wf (RefTo l) = (layout_fits l \<and> list_all (\<lambda>b. b) (map tag_wf l))"
| "tag_wf (SnakeTo as) = element_wf as"
| "tag_wf (SnakeRefTo l) = (layout_fits l \<and> list_all (\<lambda>b. b) (map tag_wf l))"
| "tag_wf BytesTo = True"
| "tag_wf BytesListTo = True"

definition layout_wf :: "layout \<Rightarrow> bool" where
  "layout_wf l = (layout_fits l \<and> list_all tag_wf l)"

section \<open>Codecs\<close>

text \<open>
  \<open>codec e d b r v\<close>: \<open>e\<close> encodes \<open>v\<close> in at most \<open>b\<close> bits and \<open>r\<close> references, and \<open>d\<close> reads it back from
  the front of whatever follows, consuming exactly the encoding.
\<close>

definition codec :: "('v \<Rightarrow> tcell content res) \<Rightarrow> (tcell content \<Rightarrow> ('v \<times> tcell content) res option) \<Rightarrow> nat \<Rightarrow> nat \<Rightarrow> 'v \<Rightarrow> bool" where
  "codec e d b r v = (\<exists>xs rs. e v = Inr (xs, rs) \<and> length xs \<le> b \<and> length rs \<le> r \<and>
     (\<forall>ys ts. d (xs @ ys, rs @ ts) = Some (Inr (v, (ys, ts)))))"

lemma codecI:
  assumes "e v = Inr (xs, rs)" "length xs \<le> b" "length rs \<le> r" "\<And>ys ts. d (xs @ ys, rs @ ts) = Some (Inr (v, (ys, ts)))"
  shows "codec e d b r v"
  using assms unfolding codec_def by blast

lemma load_bits_append [simp]: "length xs = n \<Longrightarrow> load_bits n (xs @ ys, rs) = Inr (xs, (ys, rs))"
  by (simp add: load_bits_def)

lemma load_bits_1 [simp]: "load_bits (Suc 0) (b # ys, rs) = Inr ([b], (ys, rs))"
  by (simp add: load_bits_def)

lemma load_ref_Cons [simp]: "load_ref (xs, r # rs) = Inr (r, (xs, rs))"
  by (simp add: load_ref_def)

lemma load_cell_Cons [simp]: "load_cell (xs, r # rs) = Inr (CellV r, (xs, rs))"
  by (simp add: load_cell_def)

lemma load_maybe_simps [simp]:
  "load_maybe load (False # xs, rs) = Inr (NilV, (xs, rs))"
  "load_maybe load (True # xs, rs) = load (xs, rs)"
  by (simp_all add: load_maybe_def)

lemma length_address_bits: "address_typed a \<Longrightarrow> length (address_bits a) \<le> 267"
  by (auto simp: address_typed_def address_bits_def split: option.splits)

lemma load_address_bits: "address_typed a \<Longrightarrow> load_address (address_bits a @ ys, rs) = Inr (AddrV a, (ys, rs))"
proof (cases a)
  case None
  then show ?thesis by (simp add: load_address_def address_bits_def load_bits_def numeral_2_eq_2)
next
  case (Some wd)
  moreover assume "address_typed a"
  ultimately obtain w d where a: "a = Some (w, d)" "length d = 32" by (cases wd) (auto simp: address_typed_def)
  have "load_bits 2 (True # False # zs, rs) = Inr ([True, False], (zs, rs))" for zs
    by (simp add: load_bits_def numeral_2_eq_2)
  moreover have "load_bits 264 (bits_of (w # d) @ ys, rs) = Inr (bits_of (w # d), (ys, rs))"
    using a(2) by (intro load_bits_append) simp
  moreover have "bytes_of (bits_of (w # d)) = w # d" by (rule bytes_of_bits)
  ultimately show ?thesis using a by (simp add: load_address_def address_bits_def del: bits_of_simps)
qed

lemma coins_codec:
  assumes "0 \<le> i" "i < 2 ^ 120"
  shows "codec (atom_enc Coins) (\<lambda>s. Some (atom_dec Coins s)) 124 0 (IntV i)"
proof -
  define k where "k = byte_len (nat i)"
  have "nat i < 256 ^ 15" using assms by (simp add: nat_less_iff)
  then have k: "k \<le> 15" unfolding k_def by (rule byte_len_le)
  have i: "nat i < 2 ^ (8 * k)" using byte_len_bound [of "nat i"] by (simp add: k_def power_mult)
  show ?thesis
  proof (rule codecI)
    show "atom_enc Coins (IntV i) = Inr (nat_bits 4 k @ nat_bits (8 * k) (nat i), [])" by (simp add: k_def Let_def)
    show "Some (atom_dec Coins ((nat_bits 4 k @ nat_bits (8 * k) (nat i)) @ ys, [] @ ts)) = Some (Inr (IntV i, (ys, ts)))" for ys ts
      using k i assms(1) by (simp add: bits_nat_bits)
  qed (use k in simp_all)
qed

lemma xaddr_codec:
  assumes "1 \<le> length a" "length a \<le> k" "k \<le> 64"
  shows "codec (atom_enc (XAddr k)) (\<lambda>s. Some (atom_dec (XAddr k) s)) (8 + 8 * k) 0 (BytesV a)"
proof -
  from assms have len: "0 < length a" "length a \<le> 64" by auto
  from ref.address_cell [OF len] obtain c where
    c: "CrossChainAddress_ToCell ref_lib a = Inr c" "tcell_content c = (bits_of (of_nat (length a) # a), [])" by blast
  show ?thesis
  proof (rule codecI)
    show "atom_enc (XAddr k) (BytesV a) = Inr (bits_of (of_nat (length a) # a), [])" using c by simp
    show "Some (atom_dec (XAddr k) (bits_of (of_nat (length a) # a) @ ys, [] @ ts)) = Some (Inr (BytesV a, (ys, ts)))" for ys ts
      using ref.address_load [OF len refl, of ys ts] by auto
  qed (use assms in simp_all)
qed

lemma atom_codec: "atom_wf a \<Longrightarrow> atom_typed a v \<Longrightarrow> codec (atom_enc a) (\<lambda>s. Some (atom_dec a s)) (atom_bits a) (atom_refs a) v"
proof (induction a v rule: atom_typed.induct)
  case (8 i)
  then show ?case using coins_codec by simp
next
  case (14 k bs)
  then show ?case using xaddr_codec by simp
qed (auto intro!: codecI simp: bits_nat_bits nat_less_iff length_address_bits load_address_bits)

lemma fields_codec:
  assumes "\<And>t v. t \<in> set l \<Longrightarrow> p t v \<Longrightarrow> codec (e t) (d t) (b t) (r t) v" "fields_typed (map p l) vs"
  shows "codec (fields_enc (map e l)) (fields_dec (map d l)) (sum_list (map b l)) (sum_list (map r l)) vs"
  using assms
proof (induction l arbitrary: vs)
  case Nil
  then show ?case by (intro codecI) simp_all
next
  case (Cons t l)
  from Cons.prems(2) obtain v vs' where vs: "vs = v # vs'" "p t v" "fields_typed (map p l) vs'" by (auto split: list.splits)
  from Cons.prems(1) [of t v] vs(2) obtain xs rs where
    v: "e t v = Inr (xs, rs)" "length xs \<le> b t" "length rs \<le> r t" "\<And>ys ts. d t (xs @ ys, rs @ ts) = Some (Inr (v, (ys, ts)))"
    unfolding codec_def by auto
  from Cons.IH [OF Cons.prems(1) vs(3)] obtain ys ts where
    vs': "fields_enc (map e l) vs' = Inr (ys, ts)" "length ys \<le> sum_list (map b l)" "length ts \<le> sum_list (map r l)"
      "\<And>zs us. fields_dec (map d l) (ys @ zs, ts @ us) = Some (Inr (vs', (zs, us)))"
    unfolding codec_def by auto
  show ?case by (rule codecI [where xs = "xs @ ys" and rs = "rs @ ts"]) (use v vs' vs(1) in simp_all)
qed

lemma fields_dec_atoms: "fields_dec (map (\<lambda>a s. Some (atom_dec a s)) as) s = Some (atoms_dec as s)"
proof (induction as arbitrary: s)
  case (Cons a as)
  then show ?case by (cases "atom_dec a s"; cases "atoms_dec as (snd (projr (atom_dec a s)))") auto
qed simp

lemma atoms_codec:
  assumes "list_all atom_wf as" "atoms_typed as vs"
  shows "codec (fields_enc (map atom_enc as)) (\<lambda>s. Some (atoms_dec as s)) (sum_list (map atom_bits as)) (sum_list (map atom_refs as)) vs"
proof -
  have "codec (fields_enc (map atom_enc as)) (fields_dec (map (\<lambda>a s. Some (atom_dec a s)) as)) (sum_list (map atom_bits as)) (sum_list (map atom_refs as)) vs"
    using assms(1) by (intro fields_codec [OF _ assms(2) [unfolded atoms_typed_def]] atom_codec) (auto simp: list_all_iff)
  then show ?thesis unfolding codec_def by (simp add: fields_dec_atoms)
qed

text \<open>A struct alone in a cell.\<close>

lemma codec_cell:
  assumes "codec e d b r v" "b \<le> 1023" "r \<le> 4"
  shows "\<exists>c. bindE (e v) end_cell = Inr c \<and> d (tcell_content c) = Some (Inr (v, ([], [])))"
proof -
  from assms obtain xs rs where c: "e v = Inr (xs, rs)" "length xs \<le> 1023" "length rs \<le> 4"
    "\<And>ys ts. d (xs @ ys, rs @ ts) = Some (Inr (v, (ys, ts)))" unfolding codec_def by fastforce
  from c(4) [of "[]" "[]"] have "d (xs, rs) = Some (Inr (v, ([], [])))" by simp
  with c(1-3) show ?thesis by (intro exI [of _ "TCell xs rs"]) (simp add: end_cell_def)
qed

text \<open>An element with a bit that every value has delimits itself: it may be chained.\<close>

lemma atom_enc_bits: "atom_typed a v \<Longrightarrow> 0 < atom_bits a \<Longrightarrow> atom_enc a v = Inr (xs, rs) \<Longrightarrow> xs \<noteq> []"
  by (induction a v rule: atom_typed.induct)
     (auto simp: address_bits_def nat_bits_def bits_of_def CrossChainAddress_ToCell_def ref_lib_def Let_def split: option.splits if_splits)

lemma element_codec:
  assumes "element_wf as" "atoms_typed as vs"
  shows "bit_codec tcell_content (\<lambda>s. s) (atoms_cell as) (atoms_dec as) vs"
proof -
  from assms(1) have wf: "list_all atom_wf as" "sum_list (map atom_bits as) \<le> 1023" "\<forall>a \<in> set as. atom_refs a = 0 \<and> 0 < atom_bits a" "as \<noteq> []"
    by (auto simp: element_wf_def list_all_iff)
  then have "sum_list (map atom_refs as) = 0" by simp
  with atoms_codec [OF wf(1) assms(2)] obtain xs where
    c: "fields_enc (map atom_enc as) vs = Inr (xs, [])" "length xs \<le> sum_list (map atom_bits as)"
      "\<And>ys ts. atoms_dec as (xs @ ys, ts) = Inr (vs, (ys, ts))" unfolding codec_def by auto
  obtain a as' where as: "as = a # as'" using wf(4) by (cases as) auto
  with assms(2) obtain v vs' where vs: "vs = v # vs'" "atom_typed a v" by (auto simp: atoms_typed_def split: list.splits)
  from c(1) as vs(1) obtain ys ts where "atom_enc a v = Inr (ys, ts)" "ys = [] \<or> xs \<noteq> []" by auto
  with atom_enc_bits [OF vs(2)] wf(3) as have "xs \<noteq> []" by auto
  then show ?thesis unfolding bit_codec_def
    using c wf(2) by (intro exI [of _ "TCell xs []"] exI [of _ xs]) (simp add: atoms_cell_def end_cell_def)
qed

lemma fits_cell:
  assumes "codec (fields_enc (map tag_enc l)) (fields_dec (map tag_dec l)) (sum_list (map tag_bits l)) (sum_list (map tag_refs l)) vs" "layout_fits l"
  shows "\<exists>c. bindE (fields_enc (map tag_enc l) vs) end_cell = Inr c \<and> fields_dec (map tag_dec l) (tcell_content c) = Some (Inr (vs, ([], [])))"
  using codec_cell [OF assms(1)] assms(2) by (simp add: layout_fits_def)

lemma ref_codecI:
  assumes "e v = Inr ([], [c])" "\<And>ys ts. d (ys, c # ts) = Some (Inr (v, (ys, ts)))"
  shows "codec e d 0 1 v"
  using assms by (intro codecI [where xs = "[]" and rs = "[c]"]) simp_all

lemma BeginParse_ref [simp]: "BeginParse ref_lib c = tcell_content c"
  by (simp add: ref_lib_def)

lemma bytes_cell_roundtrip:
  "\<exists>c. bytes_cell [BytesV bs] = Inr c \<and> SnakeBytes_LoadFromCell ref_lib (tcell_content c) = Some (Inr bs)"
  using ref.snake_bytes [of bs] by (auto simp: bytes_cell_def returning_def)

lemma snake_refs:
  assumes "\<forall>v \<in> set vs. \<exists>c. e v = Inr c \<and> d (tcell_content c) = Some (Inr (v, ([], [])))"
  shows "\<exists>c. ref_to_opt (SnakeRef_ToCell ref_lib e vs) = Inr ([], [c]) \<and>
    not_returning (SnakeRef_LoadFromCell ref_lib (\<lambda>s. returning (d s)) (tcell_content c)) = Some (Inr vs)"
proof -
  have "\<forall>v \<in> set vs. ref_codec ref_lib e (\<lambda>s. returning (d s)) v"
    using assms by (fastforce simp: ref_codec_def returning_def)
  from ref.snake_ref [OF this] show ?thesis by (auto simp: ref_to_opt_def ref_to_def not_returning_def)
qed

lemma tag_codec: "tag_wf t \<Longrightarrow> tag_typed t v \<Longrightarrow> codec (tag_enc t) (tag_dec t) (tag_bits t) (tag_refs t) v"
proof (induction t arbitrary: v)
  case (Plain a)
  then show ?case using atom_codec by simp
next
  case (RefTo l)
  from RefTo.prems obtain vs where v: "v = StructV vs" "fields_typed (map tag_typed l) vs" by (auto split: val.splits)
  have "codec (fields_enc (map tag_enc l)) (fields_dec (map tag_dec l)) (sum_list (map tag_bits l)) (sum_list (map tag_refs l)) vs"
    using RefTo.prems(1) by (intro fields_codec [OF _ v(2)] RefTo.IH) (auto simp: list_all_iff)
  from fits_cell [OF this] RefTo.prems(1) obtain c where
    c: "bindE (fields_enc (map tag_enc l) vs) end_cell = Inr c" "fields_dec (map tag_dec l) (tcell_content c) = Some (Inr (vs, ([], [])))" by auto
  then have "codec (tag_enc (RefTo l)) (tag_dec (RefTo l)) 0 1 v"
    using v(1) by (intro ref_codecI [where c = c]) (auto simp: ref_to_def)
  then show ?case by simp
next
  case (SnakeTo as)
  from SnakeTo.prems obtain vss where v: "v = ListV vss" "\<forall>vs \<in> set vss. atoms_typed as vs" by (auto simp: list_all_iff split: val.splits)
  then have "\<forall>vs \<in> set vss. bit_codec tcell_content (\<lambda>s. s) (atoms_cell as) (atoms_dec as) vs"
    using element_codec SnakeTo.prems(1) by simp
  from ref.snake_data [OF this] obtain c where
    c: "SnakeData_ToCell ref_lib (atoms_cell as) vss = Inr (Some c)"
      "SnakeData_LoadFromCell ref_lib (atoms_dec as) (BeginParse ref_lib c) = Some (Inr vss)" by blast
  then have "codec (tag_enc (SnakeTo as)) (tag_dec (SnakeTo as)) 0 1 v"
    using v(1) by (intro ref_codecI [where c = c]) (auto simp: ref_to_def ref_to_opt_def)
  then show ?case by simp
next
  case (SnakeRefTo l)
  from SnakeRefTo.prems obtain vss where v: "v = ListV vss" "\<forall>vs \<in> set vss. fields_typed (map tag_typed l) vs"
    by (auto simp: list_all_iff split: val.splits)
  have "\<exists>c. bindE (fields_enc (map tag_enc l) vs) end_cell = Inr c \<and> fields_dec (map tag_dec l) (tcell_content c) = Some (Inr (vs, ([], [])))"
    if "fields_typed (map tag_typed l) vs" for vs
  proof (rule fits_cell)
    show "codec (fields_enc (map tag_enc l)) (fields_dec (map tag_dec l)) (sum_list (map tag_bits l)) (sum_list (map tag_refs l)) vs"
      using SnakeRefTo.prems(1) by (intro fields_codec [OF _ that] SnakeRefTo.IH) (auto simp: list_all_iff)
  qed (use SnakeRefTo.prems(1) in simp)
  with v(2) snake_refs [of vss "\<lambda>vs. bindE (fields_enc (map tag_enc l) vs) end_cell" "fields_dec (map tag_dec l)"] obtain c where
    c: "ref_to_opt (SnakeRef_ToCell ref_lib (\<lambda>vs. bindE (fields_enc (map tag_enc l) vs) end_cell) vss) = Inr ([], [c])"
      "not_returning (SnakeRef_LoadFromCell ref_lib (\<lambda>s. returning (fields_dec (map tag_dec l) s)) (tcell_content c)) = Some (Inr vss)" by blast
  then have "codec (tag_enc (SnakeRefTo l)) (tag_dec (SnakeRefTo l)) 0 1 v"
    using v(1) by (intro ref_codecI [where c = c]) simp_all
  then show ?case by simp
next
  case BytesTo
  then obtain bs where v: "v = BytesV bs" by (cases v) auto
  from bytes_cell_roundtrip [of bs] obtain c where
    c: "bytes_cell [BytesV bs] = Inr c" "SnakeBytes_LoadFromCell ref_lib (tcell_content c) = Some (Inr bs)" by blast
  then have "codec (tag_enc BytesTo) (tag_dec BytesTo) 0 1 v"
    using v by (intro ref_codecI [where c = c]) (simp_all add: ref_to_def)
  then show ?case by simp
next
  case BytesListTo
  then obtain vss where v: "v = ListV vss" "\<forall>vs \<in> set vss. \<exists>bs. vs = [BytesV bs]" by (auto simp: list_all_iff split: val.splits)
  have "\<forall>vs \<in> set vss. \<exists>c. bytes_cell vs = Inr c \<and> bytes_dec (tcell_content c) = Some (Inr (vs, ([], [])))"
    using v(2) bytes_cell_roundtrip by (fastforce simp: bytes_dec_def)
  from snake_refs [OF this] obtain c where
    c: "ref_to_opt (SnakeRef_ToCell ref_lib bytes_cell vss) = Inr ([], [c])"
      "not_returning (SnakeRef_LoadFromCell ref_lib (\<lambda>s. returning (bytes_dec s)) (tcell_content c)) = Some (Inr vss)" by blast
  then have "codec (tag_enc BytesListTo) (tag_dec BytesListTo) 0 1 v"
    using v(1) by (intro ref_codecI [where c = c]) simp_all
  then show ?case by simp
qed

lemma struct_codec:
  assumes "layout_wf l" "struct_typed l vs"
  shows "codec (fields_enc (map tag_enc l)) (fields_dec (map tag_dec l)) (sum_list (map tag_bits l)) (sum_list (map tag_refs l)) vs"
  using assms by (intro fields_codec [OF _ assms(2) [unfolded struct_typed_def]] tag_codec) (auto simp: layout_wf_def list_all_iff)

lemma struct_roundtrip:
  assumes "layout_wf l" "struct_typed l vs"
  shows "\<exists>c. struct_enc l vs = Inr c \<and> struct_dec l c = Some (Inr vs)"
  using codec_cell [OF struct_codec [OF assms]] assms(1)
  by (auto simp: layout_wf_def layout_fits_def struct_enc_def struct_dec_def)

text \<open>The cell of a struct starts with its magic.\<close>

lemma struct_magic:
  assumes "struct_enc (Plain (Magic m) # l) vs = Inr c" "m < 2 ^ 32"
  shows "32 \<le> length (fst (tcell_content c)) \<and> bits_nat (take 32 (fst (tcell_content c))) = m"
proof -
  from assms(1) obtain xs rs where "tcell_content c = (nat_bits 32 m @ xs, rs)"
    by (auto simp: struct_enc_def end_cell_def bad_value_def split: list.splits if_splits)
  with assms(2) show ?thesis by (simp add: bits_nat_bits)
qed

section \<open>The package\<close>

text \<open>
  What is documented of the package: the encoding of a well-typed value, or an error when it does not fit; that a cell
  written for a struct is parsed for that struct field by field; and that a struct with a magic number refuses a
  cell that starts with another number. Nothing is said of other cells.
\<close>

locale tlb_laws =
  fixes ToCell :: "layout \<Rightarrow> val list \<Rightarrow> tcell res"
    and LoadFromCell :: "layout \<Rightarrow> tcell \<Rightarrow> val list res option"
  assumes to_cell: "struct_typed l vs \<Longrightarrow> struct_enc l vs = Inr c \<Longrightarrow> ToCell l vs = Inr c"
    and to_cell_error: "struct_typed l vs \<Longrightarrow> struct_enc l vs = Inl e \<Longrightarrow> \<exists>e'. ToCell l vs = Inl e'"
    and load: "struct_typed l vs \<Longrightarrow> struct_enc l vs = Inr c \<Longrightarrow>
      rel_option (rel_sum (\<lambda>_ _. True) (=)) (LoadFromCell l c) (struct_dec l c)"
    and load_magic: "32 \<le> length (fst (tcell_content c)) \<Longrightarrow> bits_nat (take 32 (fst (tcell_content c))) \<noteq> m \<Longrightarrow>
      \<exists>e. LoadFromCell (Plain (Magic m) # l) c = Some (Inl e)"
begin

lemma load_ok:
  "struct_typed l vs \<Longrightarrow> struct_enc l vs = Inr c \<Longrightarrow> LoadFromCell l c = Some (Inr ws) \<longleftrightarrow> struct_dec l c = Some (Inr ws)"
  using load [of l vs c] by (cases "LoadFromCell l c"; cases "struct_dec l c") (auto elim!: rel_sum.cases)

lemma to_cell_D: "struct_typed l vs \<Longrightarrow> ToCell l vs = Inr c \<Longrightarrow> struct_enc l vs = Inr c"
  using to_cell [of l vs] to_cell_error [of l vs] by (cases "struct_enc l vs") auto

lemma roundtrip:
  assumes "layout_wf l" "struct_typed l vs"
  shows "\<exists>c. ToCell l vs = Inr c \<and> LoadFromCell l c = Some (Inr vs)"
  using struct_roundtrip [OF assms] to_cell [OF assms(2)] load_ok [OF assms(2)] by blast

lemma rejects:
  assumes "struct_typed (Plain (Magic m) # l) vs" "ToCell (Plain (Magic m) # l) vs = Inr c" "m < 2 ^ 32" "m \<noteq> m'"
  shows "\<exists>e. LoadFromCell (Plain (Magic m') # l') c = Some (Inl e)"
proof -
  from struct_magic [OF to_cell_D [OF assms(1,2)] assms(3)] assms(4) show ?thesis by (intro load_magic) simp_all
qed

end

interpretation scheme: tlb_laws struct_enc struct_dec
  by unfold_locales (auto intro: option.rel_refl sum.rel_refl simp: struct_dec_def load_bits_def)

end
