(* ===== verification/Governance.thy ===== *)
theory Governance
  imports Tlb_Layout Exit_Codes
begin

text \<open>
  Bindings of the governance contracts: the multi-signature contract (\<open>pkg/bindings/mcms/mcms\<close>), the
  timelock (\<open>pkg/bindings/mcms/timelock\<close>), the call proxy (\<open>pkg/bindings/mcms/proxy\<close>) and role-based
  access control (\<open>pkg/bindings/lib/access/rbac\<close>). The code of these packages is the messages, events
  and storage structs with their \<open>tlb\<close> tags and the exit codes; each struct is here its layout, in
  the order of its fields. Two structs are left out, because they hold arrays whose elements (\<open>*big.Int\<close>, \<open>uint8\<close>,
  \<open>address.Address\<close>) are no structs with tags but are handed to \<open>tlb.ToCell\<close> all the same: \<open>SetConfig\<close> of the
  multi-signature contract and \<open>Init\<close> of the timelock.
\<close>

section \<open>Multi-signature contract\<close>

definition mcms_TopUp_layout :: layout where
  "mcms_TopUp_layout = [Plain (Magic 0x5f427bb3), Plain (UInt 64)]"

definition Proof_layout :: "atom list" where
  "Proof_layout = [UInt 256]"

definition SignatureEd25519_layout :: "atom list" where
  "SignatureEd25519_layout = [BitsTag 256, BitsTag 256, BitsTag 256]"

definition RootMetadata_layout :: layout where
  "RootMetadata_layout = [Plain (UInt 256), Plain Addr, Plain (UInt 40), Plain (UInt 40), Plain BoolTag]"

definition Op_layout :: layout where
  "Op_layout = [Plain (UInt 256), Plain Addr, Plain (UInt 40), Plain Addr, Plain Coins, Plain CellRef]"

definition Config_layout :: layout where
  "Config_layout = [Plain (Dict 8), Plain (Dict 8), Plain (Dict 8)]"

definition SetRoot_layout :: layout where
  "SetRoot_layout = [Plain (Magic 0xe7fabde3), Plain (UInt 64), Plain (UInt 256), Plain (UInt 32)] @ RootMetadata_layout @
     [SnakeTo Proof_layout, SnakeTo SignatureEd25519_layout]"

definition Execute_layout :: layout where
  "Execute_layout = [Plain (Magic 0x9b9ce96a), Plain (UInt 64), RefTo Op_layout, SnakeTo Proof_layout]"

definition NewRoot_layout :: layout where
  "NewRoot_layout = [Plain (Magic 0xa6533a3d), Plain (UInt 64), Plain (UInt 256), Plain (UInt 32)] @ RootMetadata_layout"

definition ConfigSet_layout :: layout where
  "ConfigSet_layout = [Plain (Magic 0xd80be574), Plain (UInt 64)] @ Config_layout @ [Plain BoolTag]"

definition OpExecuted_layout :: layout where
  "OpExecuted_layout = [Plain (Magic 0x7cf37cbf), Plain (UInt 64), Plain (UInt 40), Plain Addr, Plain CellRef, RefTo [Plain Coins]]"

definition mcms_messages :: "layout list" where
  "mcms_messages = [mcms_TopUp_layout, SetRoot_layout, Execute_layout, NewRoot_layout, ConfigSet_layout, OpExecuted_layout]"

definition mcms_errors :: "(string \<times> ExitCode) list" where
  "mcms_errors = [(''ErrorOutOfBoundsNumSigners'', 100), (''ErrorSignerGroupsLengthMismatch'', 101), (''ErrorOutOfBoundsGroup'', 102),
     (''ErrorGroupTreeNotWellFormed'', 103), (''ErrorOutOfBoundsGroupQuorum'', 104), (''ErrorSignerInDisabledGroup'', 105),
     (''ErrorSignersKeysMustBeStrictlyIncreasing'', 106), (''ErrorInvalidSigner'', 107), (''ErrorInsufficientSigners'', 108),
     (''ErrorWrongChainID'', 109), (''ErrorWrongMultiSig'', 110), (''ErrorWrongPostOpCount'', 111), (''ErrorPendingOps'', 112),
     (''ErrorWrongPreOpCount'', 113), (''ErrorProofCannotBeVerified'', 114), (''ErrorRootExpired'', 115), (''ErrorWrongNonce'', 116),
     (''ErrorPostOpCountReached'', 117), (''ErrorCallReverted'', 118), (''ErrorValidUntilHasAlreadyPassed'', 119),
     (''ErrorMissingConfig'', 120), (''ErrorSignedHashAlreadySeen'', 121)]"

section \<open>Access control\<close>

definition GrantRole_layout :: layout where
  "GrantRole_layout = [Plain (Magic 0x95cd540f), Plain (UInt 64), Plain (UInt 256), Plain Addr]"

definition RevokeRole_layout :: layout where
  "RevokeRole_layout = [Plain (Magic 0x969b0db9), Plain (UInt 64), Plain (UInt 256), Plain Addr]"

definition RenounceRole_layout :: layout where
  "RenounceRole_layout = [Plain (Magic 0x39452c46), Plain (UInt 64), Plain (UInt 256), Plain Addr]"

definition RoleGranted_layout :: layout where
  "RoleGranted_layout = [Plain (Magic 0xcf3ca837), Plain (UInt 64), Plain (UInt 256), Plain Addr, Plain Addr]"

definition RoleRevoked_layout :: layout where
  "RoleRevoked_layout = [Plain (Magic 0x990fe1c7), Plain (UInt 64), Plain (UInt 256), Plain Addr, Plain Addr]"

definition RoleAdminChanged_layout :: layout where
  "RoleAdminChanged_layout = [Plain (Magic 0xbd7e8bce), Plain (UInt 64), Plain (UInt 256), Plain (UInt 256), Plain (UInt 256)]"

definition rbac_Data_layout :: layout where
  "rbac_Data_layout = [Plain (Dict 32)]"

definition RoleData_layout :: layout where
  "RoleData_layout = [Plain (UInt 256), Plain (UInt 64), Plain (Dict 267)]"

definition rbac_messages :: "layout list" where
  "rbac_messages = [GrantRole_layout, RevokeRole_layout, RenounceRole_layout, RoleGranted_layout, RoleRevoked_layout, RoleAdminChanged_layout]"

definition rbac_errors :: "(string \<times> ExitCode) list" where
  "rbac_errors = [(''ErrorAccessControlUnauthorizedAccount'', 90), (''ErrorAccessControlBadConfirmation'', 91)]"

section \<open>Timelock\<close>

definition Call_layout :: "atom list" where
  "Call_layout = [Addr, UInt 256, CellRef]"

definition timelock_TopUp_layout :: layout where
  "timelock_TopUp_layout = [Plain (Magic 0xfee62ba6), Plain (UInt 64)]"

definition ScheduleBatch_layout :: layout where
  "ScheduleBatch_layout = [Plain (Magic 0x094718f4), Plain (UInt 64), SnakeTo Call_layout, Plain (UInt 256), Plain (UInt 256), Plain (UInt 64)]"

definition Cancel_layout :: layout where
  "Cancel_layout = [Plain (Magic 0xaf3bf1d0), Plain (UInt 64), Plain (UInt 256)]"

definition ExecuteBatch_layout :: layout where
  "ExecuteBatch_layout = [Plain (Magic 0x6e9bf263), Plain (UInt 64), SnakeTo Call_layout, Plain (UInt 256), Plain (UInt 256)]"

definition UpdateDelay_layout :: layout where
  "UpdateDelay_layout = [Plain (Magic 0x7a57a45c), Plain (UInt 64), Plain (UInt 64)]"

definition BlockFunctionSelector_layout :: layout where
  "BlockFunctionSelector_layout = [Plain (Magic 0x2637af77), Plain (UInt 64), Plain (UInt 32)]"

definition UnblockFunctionSelector_layout :: layout where
  "UnblockFunctionSelector_layout = [Plain (Magic 0x26f19f4e), Plain (UInt 64), Plain (UInt 32)]"

definition BypasserExecuteBatch_layout :: layout where
  "BypasserExecuteBatch_layout = [Plain (Magic 0xbb0e9f7d), Plain (UInt 64), SnakeTo Call_layout]"

definition CallScheduled_layout :: layout where
  "CallScheduled_layout = [Plain (Magic 0xc55fca54), Plain (UInt 64), Plain (UInt 256), Plain (UInt 64), RefTo (map Plain Call_layout),
     Plain (UInt 256), Plain (UInt 256), Plain (UInt 64)]"

definition CallExecuted_layout :: layout where
  "CallExecuted_layout = [Plain (Magic 0x49ea5d0e), Plain (UInt 64), Plain (UInt 256), Plain (UInt 64), Plain Addr, Plain Coins, Plain CellRef]"

definition BypasserCallExecuted_layout :: layout where
  "BypasserCallExecuted_layout = [Plain (Magic 0x9c7f3010), Plain (UInt 64), Plain (UInt 64), Plain Addr, Plain Coins, Plain CellRef]"

definition Cancelled_layout :: layout where
  "Cancelled_layout = [Plain (Magic 0x580e80f2), Plain (UInt 64), Plain (UInt 256)]"

definition MinDelayChange_layout :: layout where
  "MinDelayChange_layout = [Plain (Magic 0x904b14e0), Plain (UInt 64), Plain (UInt 64), Plain (UInt 64)]"

definition FunctionSelectorBlocked_layout :: layout where
  "FunctionSelectorBlocked_layout = [Plain (Magic 0x9c4d6d94), Plain (UInt 64), Plain (UInt 32)]"

definition FunctionSelectorUnblocked_layout :: layout where
  "FunctionSelectorUnblocked_layout = [Plain (Magic 0xf410a31b), Plain (UInt 64), Plain (UInt 32)]"

definition timelock_Data_layout :: layout where
  "timelock_Data_layout = [Plain (UInt 32), Plain (UInt 64), Plain (Dict 64), Plain (UInt 32), Plain (Dict 32), RefTo rbac_Data_layout]"

definition OperationBatch_layout :: layout where
  "OperationBatch_layout = [SnakeTo Call_layout, Plain (UInt 256), Plain (UInt 256)]"

definition proxy_Data_layout :: layout where
  "proxy_Data_layout = [Plain (UInt 32), Plain Addr]"

definition timelock_messages :: "layout list" where
  "timelock_messages = [timelock_TopUp_layout, Cancel_layout, UpdateDelay_layout, BlockFunctionSelector_layout,
     UnblockFunctionSelector_layout, CallScheduled_layout, CallExecuted_layout, BypasserCallExecuted_layout, Cancelled_layout,
     MinDelayChange_layout, FunctionSelectorBlocked_layout, FunctionSelectorUnblocked_layout]"

text \<open>The messages that carry a batch of calls.\<close>

definition batch_messages :: "layout list" where
  "batch_messages = [ScheduleBatch_layout, ExecuteBatch_layout, BypasserExecuteBatch_layout]"

definition DoneTimestamp :: nat where
  "DoneTimestamp = 1"

definition timelock_errors :: "(string \<times> ExitCode) list" where
  "timelock_errors = [(''ErrorSelectorIsBlocked'', 101), (''ErrorOperationNotReady'', 102), (''ErrorOperationMissingDependency'', 103),
     (''ErrorOperationCannotBeCancelled'', 104), (''ErrorOperationAlreadyScheduled'', 105), (''ErrorInsufficientDelay'', 106)]"

section \<open>The static checks\<close>

lemmas mcms_layouts = mcms_TopUp_layout_def SetRoot_layout_def Execute_layout_def NewRoot_layout_def
  ConfigSet_layout_def OpExecuted_layout_def Proof_layout_def SignatureEd25519_layout_def RootMetadata_layout_def Op_layout_def Config_layout_def

lemmas rbac_layouts = GrantRole_layout_def RevokeRole_layout_def RenounceRole_layout_def RoleGranted_layout_def RoleRevoked_layout_def
  RoleAdminChanged_layout_def rbac_Data_layout_def RoleData_layout_def

lemmas timelock_layouts = timelock_TopUp_layout_def Cancel_layout_def UpdateDelay_layout_def BlockFunctionSelector_layout_def
  UnblockFunctionSelector_layout_def CallScheduled_layout_def CallExecuted_layout_def BypasserCallExecuted_layout_def Cancelled_layout_def
  MinDelayChange_layout_def FunctionSelectorBlocked_layout_def FunctionSelectorUnblocked_layout_def Call_layout_def timelock_Data_layout_def
  proxy_Data_layout_def

lemmas batch_layouts = ScheduleBatch_layout_def ExecuteBatch_layout_def BypasserExecuteBatch_layout_def OperationBatch_layout_def

lemmas wf_simps = layout_wf_def layout_fits_def element_wf_def

definition governance_messages :: "layout list" where
  "governance_messages = mcms_messages @ rbac_messages @ timelock_messages"

definition governance_storage :: "layout list" where
  "governance_storage = [rbac_Data_layout, RoleData_layout, timelock_Data_layout, proxy_Data_layout]"

lemma governance_wf: "list_all layout_wf (governance_messages @ governance_storage)"
  by (simp add: governance_messages_def governance_storage_def mcms_messages_def rbac_messages_def timelock_messages_def
      mcms_layouts rbac_layouts timelock_layouts wf_simps)

text \<open>The opcode of a message; no two messages of the contracts share one.\<close>

fun opcode :: "layout \<Rightarrow> nat option" where
  "opcode (Plain (Magic m) # l) = Some m"
| "opcode l = None"

lemma opcode_SomeD: "opcode l = Some m \<Longrightarrow> \<exists>l'. l = Plain (Magic m) # l'"
  by (induction l rule: opcode.induct) auto

lemma governance_opcodes: "distinct (map opcode (governance_messages @ batch_messages)) \<and> None \<notin> set (map opcode (governance_messages @ batch_messages))"
  by (simp add: governance_messages_def batch_messages_def mcms_messages_def rbac_messages_def timelock_messages_def
      mcms_layouts rbac_layouts timelock_layouts batch_layouts)

lemma distinct_opcodes:
  assumes "l \<in> set (governance_messages @ batch_messages)" "l' \<in> set (governance_messages @ batch_messages)" "l \<noteq> l'"
  shows "\<exists>m k m' k'. l = Plain (Magic m) # k \<and> l' = Plain (Magic m') # k' \<and> m \<noteq> m'"
proof -
  from governance_opcodes have inj: "inj_on opcode (set (governance_messages @ batch_messages))" using distinct_map by blast
  have some: "\<exists>m. opcode k = Some m" if "k \<in> set (governance_messages @ batch_messages)" for k
    using governance_opcodes that by (cases "opcode k") (auto simp: image_iff)
  from some [OF assms(1)] some [OF assms(2)] obtain m m' where m: "opcode l = Some m" "opcode l' = Some m'" by blast
  with inj_on_contraD [OF inj assms(3,1,2)] have "m \<noteq> m'" by simp
  with m [THEN opcode_SomeD] show ?thesis by auto
qed

lemma opcode_bound:
  assumes "l \<in> set (governance_messages @ batch_messages)"
  shows "case opcode l of Some m \<Rightarrow> m < 2 ^ 32 | None \<Rightarrow> False"
proof -
  have "list_all (\<lambda>l. case opcode l of Some m \<Rightarrow> m < 2 ^ 32 | None \<Rightarrow> False) (governance_messages @ batch_messages)"
    by (simp add: governance_messages_def batch_messages_def mcms_messages_def rbac_messages_def timelock_messages_def
        mcms_layouts rbac_layouts timelock_layouts batch_layouts)
  with assms show ?thesis unfolding list_all_iff by blast
qed

section \<open>Batches of calls\<close>

lemma call_cell:
  assumes "atoms_typed Call_layout [AddrV a, IntV i, CellV d]"
  shows "atoms_cell Call_layout [AddrV a, IntV i, CellV d] = Inr (TCell (address_bits a @ nat_bits 256 (nat i)) [d])"
proof -
  from assms have "length (address_bits a) \<le> 267" by (intro length_address_bits) (simp add: atoms_typed_def Call_layout_def)
  then show ?thesis by (simp add: atoms_cell_def Call_layout_def end_cell_def)
qed

lemma call_batch:
  assumes "atoms_typed Call_layout [AddrV a, IntV i, CellV d]" "fst (tcell_content d) \<noteq> []"
  shows "\<exists>root. SnakeData_ToCell ref_lib (atoms_cell Call_layout) [[AddrV a, IntV i, CellV d]] = Inr (Some root) \<and>
    SnakeData_LoadFromCell ref_lib (atoms_dec Call_layout) (BeginParse ref_lib root) \<noteq> Some (Inr [[AddrV a, IntV i, CellV d]])"
proof (rule SnakeData_takes_element_refs [where toCell = "atoms_cell Call_layout", OF ref.cell_laws_axioms call_cell [OF assms(1)]])
  show "tcell_content (TCell (address_bits a @ nat_bits 256 (nat i)) [d]) = (address_bits a @ nat_bits 256 (nat i), [d])" by simp
  from assms(1) have "length (address_bits a) \<le> 267" by (intro length_address_bits) (simp add: atoms_typed_def Call_layout_def)
  then show "length (address_bits a @ nat_bits 256 (nat i)) \<le> 1023" by simp
qed (use assms(2) in \<open>simp_all add: nat_bits_def\<close>)

lemma batch_message:
  assumes "list_all tag_wf r" "sum_list (map tag_bits r) \<le> 800" "sum_list (map tag_refs r) = 0" "m < 2 ^ 32"
    and "0 \<le> q" "q < 2 ^ 64" "atoms_typed Call_layout call" "call = [AddrV a, IntV i, CellV d]" "fields_typed (map tag_typed r) vs"
    and "fst (tcell_content d) \<noteq> []"
  shows "\<exists>c. struct_enc (Plain (Magic m) # Plain (UInt 64) # SnakeTo Call_layout # r) (UnitV # IntV q # ListV [call] # vs) = Inr c \<and>
    struct_dec (Plain (Magic m) # Plain (UInt 64) # SnakeTo Call_layout # r) c \<noteq> Some (Inr (UnitV # IntV q # ListV [call] # vs))"
proof -
  from call_batch [of a i d] assms(7,8,10) obtain root where
    root: "SnakeData_ToCell ref_lib (atoms_cell Call_layout) [call] = Inr (Some root)"
      "SnakeData_LoadFromCell ref_lib (atoms_dec Call_layout) (BeginParse ref_lib root) \<noteq> Some (Inr [call])" by auto
  have "codec (fields_enc (map tag_enc r)) (fields_dec (map tag_dec r)) (sum_list (map tag_bits r)) (sum_list (map tag_refs r)) vs"
    using assms(1) by (intro fields_codec [OF _ assms(9)] tag_codec) (auto simp: list_all_iff)
  then obtain xs rs where "fields_enc (map tag_enc r) vs = Inr (xs, rs)" "length xs \<le> sum_list (map tag_bits r)" "length rs \<le> sum_list (map tag_refs r)"
    unfolding codec_def by blast
  with assms(2,3) have xs: "fields_enc (map tag_enc r) vs = Inr (xs, [])" "length xs \<le> 800" by (simp_all del: sum_list_eq_0_iff)
  let ?c = "TCell (nat_bits 32 m @ nat_bits 64 (nat q) @ xs) [root]"
  have "struct_enc (Plain (Magic m) # Plain (UInt 64) # SnakeTo Call_layout # r) (UnitV # IntV q # ListV [call] # vs) = Inr ?c"
    using root(1) xs by (simp add: struct_enc_def end_cell_def ref_to_def ref_to_opt_def)
  moreover have "struct_dec (Plain (Magic m) # Plain (UInt 64) # SnakeTo Call_layout # r) ?c \<noteq> Some (Inr (UnitV # IntV q # ListV [call] # vs))"
    using root(2) assms(4) by (simp add: struct_dec_def bits_nat_bits)
  ultimately show ?thesis by blast
qed

section \<open>Properties\<close>

definition sample_SetRoot :: "val list" where
  "sample_SetRoot = [UnitV, IntV 7, IntV 123456789, IntV 1700000000, IntV 3, AddrV (Some (0, replicate 32 9)), IntV 4, IntV 6, BoolV False,
     ListV [[IntV 1], [IntV 2], [IntV 3], [IntV 4], [IntV 5]], ListV [[BytesV (replicate 32 1), BytesV (replicate 32 2), BytesV (replicate 32 3)]]]"

lemma sample_SetRoot_typed: "struct_typed SetRoot_layout sample_SetRoot"
  by (simp add: struct_typed_def sample_SetRoot_def mcms_layouts address_typed_def atoms_typed_def)

text \<open>
  C18: No governance message is mistaken for another. Take two different messages or events of the multi-signature contract,
  role-based access control and the timelock (the batch messages among them, \<open>SetConfig\<close> and \<open>Init\<close> apart): whatever cell a value of
  the first is encoded to, the second refuses, by its opcode; and except for the batch messages every value of the first
  is encoded. Storage structs have no opcode and are not among them.
\<close>

theorem governance_rejects:
  assumes "tlb_laws ToCell LoadFromCell" "l \<in> set (governance_messages @ batch_messages)" "l' \<in> set (governance_messages @ batch_messages)" "l \<noteq> l'"
    and "struct_typed l vs"
  shows "(l \<in> set governance_messages \<longrightarrow> (\<exists>c. ToCell l vs = Inr c)) \<and>
    (\<forall>c. ToCell l vs = Inr c \<longrightarrow> (\<exists>e. LoadFromCell l' c = Some (Inl e)))"
proof (intro conjI impI allI)
  assume "l \<in> set governance_messages"
  with governance_wf have "layout_wf l" by (simp add: list_all_iff)
  with tlb_laws.roundtrip [OF assms(1) _ assms(5)] show "\<exists>c. ToCell l vs = Inr c" by blast
next
  fix c assume c: "ToCell l vs = Inr c"
  from distinct_opcodes [OF assms(2-4)] obtain m k m' k' where
    k: "l = Plain (Magic m) # k" "l' = Plain (Magic m') # k'" "m \<noteq> m'" by blast
  have "m < 2 ^ 32" using opcode_bound [OF assms(2)] k(1) by simp
  from tlb_laws.rejects [OF assms(1) _ _ this k(3), of k vs c k'] assms(5) c k(1,2)
  show "\<exists>e. LoadFromCell l' c = Some (Inl e)" by simp
qed

theorem governance_rejects_witness:
  "\<exists>c e. struct_enc SetRoot_layout sample_SetRoot = Inr c \<and> struct_dec ExecuteBatch_layout c = Some (Inl e)"
  using governance_rejects [OF scheme.tlb_laws_axioms _ _ _ sample_SetRoot_typed, of ExecuteBatch_layout]
  by (auto simp: governance_messages_def mcms_messages_def batch_messages_def mcms_layouts batch_layouts)

text \<open>
  C34: A flaw: batches of timelock calls do not survive. Each of the three batch messages encodes a
  batch with one call whose body is not empty, but decoding it never gives the message back:
  \<open>SnakeData\<close> takes the reference to the call's body for the link to its next cell.
\<close>

theorem timelock_batch_lost:
  assumes "tlb_laws ToCell LoadFromCell" "l \<in> set batch_messages" "vs ! 2 = ListV [[AddrV a, IntV i, CellV d]]" "struct_typed l vs"
    and "fst (tcell_content d) \<noteq> []"
  shows "\<exists>c. ToCell l vs = Inr c \<and> LoadFromCell l c \<noteq> Some (Inr vs)"
proof -
  obtain m r where l: "l = Plain (Magic m) # Plain (UInt 64) # SnakeTo Call_layout # r" "m < 2 ^ 32" "list_all tag_wf r"
    "sum_list (map tag_bits r) \<le> 800" "sum_list (map tag_refs r) = 0"
    using assms(2) by (auto simp: batch_messages_def batch_layouts)
  from assms(4) l(1) obtain v0 v1 v2 vs' where vs: "vs = v0 # v1 # v2 # vs'" by (auto simp: struct_typed_def split: list.splits)
  from assms(3,4) l(1) vs have t: "v0 = UnitV" "v2 = ListV [[AddrV a, IntV i, CellV d]]" "atoms_typed Call_layout [AddrV a, IntV i, CellV d]"
    "atom_typed (UInt 64) v1" "fields_typed (map tag_typed r) vs'" by (simp_all add: struct_typed_def numeral_2_eq_2)
  from t(4) obtain q where q: "v1 = IntV q" "0 \<le> q" "q < 2 ^ 64" by (cases v1) auto
  from batch_message [OF l(3,4,5,2) q(2,3) t(3) refl t(5) assms(5)] l(1) vs t(1,2) q(1) obtain c where
    "struct_enc l vs = Inr c" "struct_dec l c \<noteq> Some (Inr vs)" by auto
  with tlb_laws.to_cell [OF assms(1,4)] tlb_laws.load_ok [OF assms(1,4)] show ?thesis by blast
qed

definition sample_batch :: "val list" where
  "sample_batch = [UnitV, IntV 1, ListV [[AddrV (Some (0, replicate 32 5)), IntV 1000, CellV (TCell [True] [])]]]"

theorem timelock_batch_lost_witness:
  "\<exists>c. struct_enc BypasserExecuteBatch_layout sample_batch = Inr c \<and> struct_dec BypasserExecuteBatch_layout c \<noteq> Some (Inr sample_batch)"
  by (rule timelock_batch_lost [OF scheme.tlb_laws_axioms, where a = "Some (0, replicate 32 5)" and i = 1000 and d = "TCell [True] []"])
     (simp_all add: sample_batch_def batch_messages_def batch_layouts struct_typed_def Call_layout_def atoms_typed_def address_typed_def)

text \<open>The named exit codes leave out the range of the contracts.\<close>

lemma described_range: "list_all (\<lambda>(code, s). unat code < 90 \<or> 121 < unat code) describe_cases"
  unfolding describe_cases_def by simp

lemma governance_range: "list_all (\<lambda>(name, code). 90 \<le> unat code \<and> unat code \<le> 121) (mcms_errors @ timelock_errors @ rbac_errors)"
  by (simp add: mcms_errors_def timelock_errors_def rbac_errors_def)

lemma Describe_unnamed: "90 \<le> unat code \<Longrightarrow> unat code \<le> 121 \<Longrightarrow> Describe code = ''Non-standard exit code: '' @ show_int (sint code)"
proof -
  assume "90 \<le> unat code" "unat code \<le> 121"
  with described_range have "map_of describe_cases code = None" by (fastforce simp: map_of_eq_None_iff list_all_iff)
  then show ?thesis by (simp add: Describe_def)
qed

text \<open>
  The exit codes of the governance contracts are told apart from the virtual machine's: within a
  contract (the timelock has the access control codes too) no code has two names, and \<open>Describe\<close>
  prints every one of them as a non-standard code with its number, never as one of its own.
\<close>

lemma governance_exit_codes:
  "distinct (map snd mcms_errors) \<and> distinct (map snd (timelock_errors @ rbac_errors)) \<and>
   list_all (\<lambda>(name, code). Describe code = ''Non-standard exit code: '' @ show_int (sint code)) (mcms_errors @ timelock_errors @ rbac_errors)"
proof -
  have "list_all (\<lambda>(name, code). Describe code = ''Non-standard exit code: '' @ show_int (sint code)) (mcms_errors @ timelock_errors @ rbac_errors)"
    using governance_range by (rule list.pred_mono_strong) (auto simp only: Describe_unnamed split: prod.splits)
  then show ?thesis by (simp add: mcms_errors_def timelock_errors_def rbac_errors_def)
qed

end
