(* ===== verification/Address_Codec.thy ===== *)
theory Address_Codec
  imports Ton_Cell
begin

text \<open>
  The address codec (\<open>pkg/ccip/codec/addresscodec.go\<close>). The address type of \<open>tonutils-go\<close> is the
  record \<open>AddrLib\<close> over an abstract type of addresses; the locale \<open>addr_laws\<close> states what is
  documented of it: a standard address is a signed workchain byte and 32 bytes of data, its
  user-friendly form is the base64 text of a flag byte, the workchain, the data and a checksum, and
  parsing reads the form that printing writes. \<open>DecodeString\<close> is \<open>base64.RawURLEncoding\<close>. The
  theory interprets the locale on an executable address type.
\<close>

section \<open>Base64\<close>

definition b64_val :: "char \<Rightarrow> nat option" where
  "b64_val c = (let n = of_char c :: nat
     in if 65 \<le> n \<and> n \<le> 90 then Some (n - 65)
        else if 97 \<le> n \<and> n \<le> 122 then Some (n - 71)
        else if 48 \<le> n \<and> n \<le> 57 then Some (n + 4)
        else if n = 45 then Some 62 else if n = 95 then Some 63 else None)"

definition six_bits :: "nat \<Rightarrow> bool list" where
  "six_bits n = map (\<lambda>i. bit n (5 - i)) [0..<6]"

fun b64_vals :: "string \<Rightarrow> nat list option" where
  "b64_vals [] = Some []"
| "b64_vals (c # cs) = (case (b64_val c, b64_vals cs) of (Some v, Some vs) \<Rightarrow> Some (v # vs) | _ \<Rightarrow> None)"

text \<open>\<open>base64.RawURLEncoding.DecodeString\<close>: line breaks are skipped, a single left-over character is corrupt.\<close>

definition DecodeString :: "string \<Rightarrow> bytes res" where
  "DecodeString s = (case b64_vals (filter (\<lambda>c. c \<noteq> CHR 0x0A \<and> c \<noteq> CHR 0x0D) s) of
       None \<Rightarrow> Inl (Err ''illegal base64 data'')
     | Some vs \<Rightarrow> if length vs mod 4 = 1 then Inl (Err ''illegal base64 data'')
         else Inr (bytes_of (take (8 * (6 * length vs div 8)) (concat (map six_bits vs)))))"

section \<open>The address library\<close>

record 'a AddrLib =
  ParseAddr :: "string \<Rightarrow> 'a res"
  Addr_String :: "'a \<Rightarrow> string"
  NewAddress :: "u8 \<Rightarrow> u8 \<Rightarrow> bytes \<Rightarrow> 'a"
  Workchain :: "'a \<Rightarrow> i32"
  Addr_Data :: "'a \<Rightarrow> bytes"

text \<open>\<open>std\<close> holds of standard addresses.\<close>

locale addr_laws =
  fixes A :: "'a AddrLib" and std :: "'a \<Rightarrow> bool"
  assumes new_std: "length d = 32 \<Longrightarrow> std (NewAddress A 0 w d)"
    and new_workchain: "Workchain A (NewAddress A f w d) = scast w"
    and new_data: "Addr_Data A (NewAddress A f w d) = d"
    and parse_string: "std a \<Longrightarrow> ParseAddr A (Addr_String A a) = Inr a"
    and std_data: "std a \<Longrightarrow> length (Addr_Data A a) = 32"
    and std_workchain: "std a \<Longrightarrow> \<exists>w :: u8. Workchain A a = scast w"
    and friendly: "std a \<Longrightarrow>
      \<exists>tag c1 c2. DecodeString (Addr_String A a) = Inr (tag # ucast (Workchain A a) # Addr_Data A a @ [c1, c2])"

section \<open>The codec\<close>

text \<open>\<open>RawAddr\<close> is a 36-byte array: four bytes of workchain, then the data, cut or padded to 32 bytes.\<close>

definition ToRawAddr :: "'a AddrLib \<Rightarrow> 'a \<Rightarrow> bytes" where
  "ToRawAddr A addr = be_bytes 4 (unat (Workchain A addr)) @ take 32 (Addr_Data A addr @ replicate 32 0)"

definition AddressBytesToString :: "'a AddrLib \<Rightarrow> bytes \<Rightarrow> string res" where
  "AddressBytesToString A bs =
     (if length bs \<noteq> 36 then Inl (Err (''invalid address length: expected 36 bytes, got '' @ show_nat (length bs)))
      else let workchain = of_nat (be_nat (take 4 bs)) :: i32;
               addr = NewAddress A 0 (ucast workchain) (drop 4 bs)
           in Inr (Addr_String A addr))"

definition AddressStringToBytes :: "'a AddrLib \<Rightarrow> string \<Rightarrow> bytes res" where
  "AddressStringToBytes A addrString =
     bindE (wrapE ''failed to decode TVM address'' (ParseAddr A addrString)) (\<lambda>addr. Inr (ToRawAddr A addr))"

definition OracleIDAsAddressBytes :: "'a AddrLib \<Rightarrow> u8 \<Rightarrow> bytes res" where
  "OracleIDAsAddressBytes A oracleID =
     (let addr = be_bytes 4 (unat oracleID) @ replicate 28 0;
          tonAddr = NewAddress A 0 0 addr
      in wrapE ''failed to decode TVM address bytes'' (DecodeString (Addr_String A tonAddr)))"

definition TransmitterBytesToString :: "'a AddrLib \<Rightarrow> bytes \<Rightarrow> string res" where
  "TransmitterBytesToString A addr = AddressBytesToString A addr"

section \<open>Correctness\<close>

text \<open>The byte strings that denote an address: 36 bytes whose workchain is a signed byte.\<close>

definition raw_addr :: "bytes \<Rightarrow> bool" where
  "raw_addr bs = (length bs = 36 \<and> - 128 \<le> sint (of_nat (be_nat (take 4 bs)) :: i32) \<and> sint (of_nat (be_nat (take 4 bs)) :: i32) < 128)"

lemma ucast_scast_byte [simp]: "(ucast (scast w :: i32) :: u8) = w"
  by (rule bit_eqI) (simp add: bit_simps)

lemma byte_fits: "scast (ucast (w :: i32) :: u8) = w \<longleftrightarrow> - 128 \<le> sint w \<and> sint w < 128"
proof -
  have "sint (scast (ucast w :: u8) :: i32) = sint (ucast w :: u8)" by (rule sint_up_scast) (simp add: is_up)
  also have "\<dots> = signed_take_bit 7 (uint w)" by (simp add: signed_ucast_eq)
  also have "\<dots> = signed_take_bit 7 (sint w)" by (simp add: sint_uint)
  finally have "scast (ucast w :: u8) = w \<longleftrightarrow> signed_take_bit 7 (sint w) = sint w" by (metis signed_word_eqI)
  then show ?thesis by (simp add: signed_take_bit_int_eq_self_iff)
qed

context addr_laws
begin

lemma AddressBytesToString_parsed:
  assumes "length bs = 36"
  shows "\<exists>s a. AddressBytesToString A bs = Inr s \<and> ParseAddr A s = Inr a \<and> std a \<and>
    Workchain A a = scast (ucast (of_nat (be_nat (take 4 bs)) :: i32) :: u8) \<and> Addr_Data A a = drop 4 bs"
  using assms by (simp add: AddressBytesToString_def parse_string new_std new_workchain new_data)

lemma raw_addr_roundtrip:
  assumes "raw_addr bs"
  shows "\<exists>s a. AddressBytesToString A bs = Inr s \<and> ParseAddr A s = Inr a \<and> std a \<and> AddressStringToBytes A (Addr_String A a) = Inr bs"
proof -
  let ?w = "of_nat (be_nat (take 4 bs)) :: i32"
  have len: "length bs = 36" and w: "scast (ucast ?w :: u8) = ?w" using assms by (auto simp: raw_addr_def byte_fits)
  from AddressBytesToString_parsed [OF len] obtain s a where s: "AddressBytesToString A bs = Inr s" "ParseAddr A s = Inr a"
    and a: "std a" "Workchain A a = ?w" "Addr_Data A a = drop 4 bs" unfolding w by blast
  have "be_nat (take 4 bs) < 2 ^ 32" using be_nat_bound [of "take 4 bs"] len by simp
  then have "unat ?w = be_nat (take 4 bs)" by (simp add: unat_of_nat)
  then have "be_bytes 4 (unat ?w) = take 4 bs" using be_bytes_nat [of "take 4 bs"] len by simp
  with a len have "ToRawAddr A a = take 4 bs @ drop 4 bs" by (simp add: ToRawAddr_def del: append_take_drop_id)
  with s a show ?thesis by (auto simp: AddressStringToBytes_def parse_string)
qed

lemma ToRawAddr_inj:
  assumes "std a" "std b" "ToRawAddr A a = ToRawAddr A b"
  shows "Workchain A a = Workchain A b \<and> Addr_Data A a = Addr_Data A b"
proof -
  have "be_bytes 4 (unat (Workchain A a)) = be_bytes 4 (unat (Workchain A b))" "Addr_Data A a = Addr_Data A b"
    using assms by (simp_all add: ToRawAddr_def std_data)
  moreover from this(1) have "unat (Workchain A a) mod 256 ^ 4 = unat (Workchain A b) mod 256 ^ 4"
    using be_nat_bytes by metis
  moreover have "unat w mod 256 ^ 4 = unat w" for w :: i32 using unsigned_less [of w, where ?'a = nat] by simp
  ultimately show ?thesis by (simp add: word_unat_eq_iff)
qed

lemma raw_roundtrip:
  assumes "std a"
  shows "\<exists>s b. AddressBytesToString A (ToRawAddr A a) = Inr s \<and> ParseAddr A s = Inr b \<and> std b \<and>
    Workchain A b = Workchain A a \<and> Addr_Data A b = Addr_Data A a"
proof -
  obtain w :: u8 where w: "Workchain A a = scast w" using std_workchain [OF assms] by blast
  have bound: "unat (Workchain A a) < 256 ^ 4" using unsigned_less [of "Workchain A a", where ?'a = nat] by simp
  have "of_nat (be_nat (take 4 (ToRawAddr A a))) = Workchain A a"
    using bound by (simp add: ToRawAddr_def be_nat_bytes)
  moreover have "scast (ucast (scast w :: i32) :: u8) = (scast w :: i32)" by simp
  moreover have "drop 4 (ToRawAddr A a) = Addr_Data A a" using std_data [OF assms] by (simp add: ToRawAddr_def)
  moreover have "length (ToRawAddr A a) = 36" by (simp add: ToRawAddr_def)
  ultimately show ?thesis using AddressBytesToString_parsed [of "ToRawAddr A a"] w by metis
qed

end

section \<open>An executable address type\<close>

fun sextets :: "bool list \<Rightarrow> nat list" where
  "sextets (a # b # c # d # e # f # xs) = horner_sum of_bool 2 [f, e, d, c, b, a] # sextets xs"
| "sextets _ = []"

definition b64_char :: "nat \<Rightarrow> char" where
  "b64_char n = (if n < 26 then char_of (n + 65) else if n < 52 then char_of (n + 71)
     else if n < 62 then char_of (n - 4) else if n = 62 then CHR ''-'' else CHR ''_'')"

definition b64_encode :: "bytes \<Rightarrow> string" where
  "b64_encode bs = map b64_char (sextets (bits_of bs))"

definition ref_addr :: "(u8 \<times> bytes) AddrLib" where
  "ref_addr = \<lparr>ParseAddr = (\<lambda>s. bindE (DecodeString s) (\<lambda>bs.
       if length bs = 36 then Inr (bs ! 1, take 32 (drop 2 bs)) else Inl (Err ''incorrect address data''))),
     Addr_String = (\<lambda>(w, d). b64_encode (0x11 # w # d @ [0, 0])),
     NewAddress = (\<lambda>f w d. (w, d)), Workchain = (\<lambda>(w, d). scast w), Addr_Data = snd\<rparr>"

lemma six_bits_sextet: "six_bits (horner_sum of_bool 2 [f, e, d, c, b, a]) = [a, b, c, d, e, f]"
proof -
  have "six_bits (horner_sum of_bool 2 [f, e, d, c, b, a]) = map (\<lambda>i. [f, e, d, c, b, a] ! (5 - i)) [0..<6]"
    unfolding six_bits_def by (rule map_cong) (auto simp only: bit_horner_sum_bit_iff atLeastLessThan_iff set_upt length_Cons list.size possible_bit_nat)
  then show ?thesis by (simp add: upt_rec)
qed

lemma concat_sextets: "length xs mod 6 = 0 \<Longrightarrow> concat (map six_bits (sextets xs)) = xs"
  by (induction xs rule: sextets.induct) (auto simp: six_bits_sextet simp del: horner_sum_simps)

lemma length_sextets: "length (sextets xs) = length xs div 6"
  by (induction xs rule: sextets.induct) auto

lemma sextets_bound: "v \<in> set (sextets xs) \<Longrightarrow> v < 64"
  by (induction xs rule: sextets.induct) auto

lemma b64_val_char: "v < 64 \<Longrightarrow> b64_val (b64_char v) = Some v"
  by (auto simp: b64_val_def b64_char_def Let_def)

lemma b64_char_no_break: "v < 64 \<Longrightarrow> b64_char v \<noteq> CHR 0x0A \<and> b64_char v \<noteq> CHR 0x0D"
  using b64_val_char [of v] by (auto simp: b64_val_def)

lemma b64_vals_chars: "\<forall>v \<in> set vs. v < 64 \<Longrightarrow> b64_vals (map b64_char vs) = Some vs"
  by (induction vs) (auto simp: b64_val_char)

lemma DecodeString_encode:
  assumes "length bs mod 3 = 0"
  shows "DecodeString (b64_encode bs) = Inr bs"
proof -
  obtain k where k: "length bs = 3 * k" using assms by auto
  have vs: "\<forall>v \<in> set (sextets (bits_of bs)). v < 64" using sextets_bound by blast
  then have "filter (\<lambda>c. c \<noteq> CHR 0x0A \<and> c \<noteq> CHR 0x0D) (b64_encode bs) = b64_encode bs"
    unfolding b64_encode_def by (auto simp: filter_id_conv b64_char_no_break)
  moreover have "length (sextets (bits_of bs)) = 4 * k" using k by (simp add: length_sextets)
  moreover have "concat (map six_bits (sextets (bits_of bs))) = bits_of bs" using k by (intro concat_sextets) simp
  ultimately show ?thesis using k b64_vals_chars [OF vs] by (simp add: DecodeString_def b64_encode_def)
qed

interpretation ref_addr: addr_laws ref_addr "\<lambda>(w, d). length d = 32"
  by unfold_locales (auto simp: ref_addr_def DecodeString_encode)

section \<open>Round trip\<close>

text \<open>
  C31: \<open>AddressBytesToString\<close> accepts exactly the byte strings of 36 bytes. Reading its result back
  with \<open>AddressStringToBytes\<close> gives the same bytes exactly when the workchain fits a signed byte;
  the 32 bytes of data always come back.
\<close>

theorem AddressCodec_roundtrip:
  assumes "addr_laws A std"
  shows "if length bs = 36
    then \<exists>s bs'. AddressBytesToString A bs = Inr s \<and> AddressStringToBytes A s = Inr bs' \<and> drop 4 bs' = drop 4 bs \<and>
      (bs' = bs \<longleftrightarrow> - 128 \<le> sint (of_nat (be_nat (take 4 bs)) :: i32) \<and> sint (of_nat (be_nat (take 4 bs)) :: i32) < 128)
    else \<exists>e. AddressBytesToString A bs = Inl (Err e)"
proof (cases "length bs = 36")
  case True
  let ?w = "of_nat (be_nat (take 4 bs)) :: i32"
  from addr_laws.AddressBytesToString_parsed [OF assms True] obtain s a where
    s: "AddressBytesToString A bs = Inr s" "ParseAddr A s = Inr a"
    and a: "Workchain A a = scast (ucast ?w :: u8)" "Addr_Data A a = drop 4 bs" by blast
  let ?v = "scast (ucast ?w :: u8) :: i32"
  from s a True have raw: "AddressStringToBytes A s = Inr (be_bytes 4 (unat ?v) @ drop 4 bs)"
    by (simp add: AddressStringToBytes_def ToRawAddr_def)
  have bound: "unat v < 256 ^ 4" for v :: i32 using unsigned_less [of v, where ?'a = nat] by simp
  have "be_nat (take 4 bs) < 256 ^ 4" using be_nat_bound [of "take 4 bs"] True by simp
  then have w: "unat ?w = be_nat (take 4 bs)" by (simp add: unat_of_nat)
  have "be_bytes 4 (unat ?v) = take 4 bs \<longleftrightarrow> unat ?v = unat ?w"
  proof
    assume "be_bytes 4 (unat ?v) = take 4 bs"
    with be_nat_bytes [of 4 "unat ?v"] bound [of ?v] w show "unat ?v = unat ?w" by simp
  next
    assume "unat ?v = unat ?w"
    with w be_bytes_nat [of "take 4 bs"] True show "be_bytes 4 (unat ?v) = take 4 bs" by simp
  qed
  also have "\<dots> \<longleftrightarrow> - 128 \<le> sint ?w \<and> sint ?w < 128" unfolding word_unat_eq_iff [symmetric] by (rule byte_fits)
  finally have "be_bytes 4 (unat ?v) @ drop 4 bs = bs \<longleftrightarrow> - 128 \<le> sint ?w \<and> sint ?w < 128"
    using append_same_eq [of "be_bytes 4 (unat ?v)" "drop 4 bs" "take 4 bs"] by (simp only: append_take_drop_id)
  with True s(1) raw show ?thesis by (simp del: length_be_bytes add: length_be_bytes)
next
  case False
  then show ?thesis by (simp add: AddressBytesToString_def)
qed

theorem AddressCodec_roundtrip_witness:
  "(\<exists>s. AddressBytesToString ref_addr (replicate 4 255 @ replicate 32 7) = Inr s \<and>
      AddressStringToBytes ref_addr s = Inr (replicate 4 255 @ replicate 32 7)) \<and>
   (\<exists>s bs'. AddressBytesToString ref_addr (replicate 4 1 @ replicate 32 7) = Inr s \<and>
      AddressStringToBytes ref_addr s = Inr bs' \<and> bs' \<noteq> replicate 4 1 @ replicate 32 7)"
proof -
  have "take 4 (replicate 4 b @ replicate 32 (7 :: u8)) = replicate 4 b" for b by simp
  then show ?thesis
    using AddressCodec_roundtrip [OF ref_addr.addr_laws_axioms, of "replicate 4 255 @ replicate 32 7"]
      AddressCodec_roundtrip [OF ref_addr.addr_laws_axioms, of "replicate 4 1 @ replicate 32 7"]
    by (auto simp: be_nat_def replicate_4)
qed

text \<open>
  \<open>OracleIDAsAddressBytes\<close> succeeds with 36 bytes for every oracle id, but they are the
  user-friendly form (flags, workchain, data, checksum) and not the raw form that the rest of the codec
  reads: \<open>TransmitterBytesToString\<close> makes another address of them, unless the id is 0.
\<close>

theorem OracleIDAsAddressBytes_not_raw:
  assumes "addr_laws A std" "oracleID \<noteq> 0"
  shows "\<exists>bs s a. OracleIDAsAddressBytes A oracleID = Inr bs \<and> length bs = 36 \<and> TransmitterBytesToString A bs = Inr s \<and>
    ParseAddr A s = Inr a \<and> Addr_Data A a \<noteq> be_bytes 4 (unat oracleID) @ replicate 28 0"
proof -
  let ?d = "be_bytes 4 (unat oracleID) @ replicate 28 0"
  let ?a = "NewAddress A 0 0 ?d"
  have std: "std ?a" by (rule addr_laws.new_std [OF assms(1)]) simp
  from addr_laws.friendly [OF assms(1) std] obtain tag c1 c2 where
    bs: "OracleIDAsAddressBytes A oracleID = Inr (tag # 0 # ?d @ [c1, c2])"
    by (auto simp: OracleIDAsAddressBytes_def addr_laws.new_workchain [OF assms(1)] addr_laws.new_data [OF assms(1)])
  let ?bs = "tag # 0 # ?d @ [c1, c2]"
  from addr_laws.AddressBytesToString_parsed [OF assms(1), of ?bs] obtain s a where
    s: "AddressBytesToString A ?bs = Inr s" "ParseAddr A s = Inr a" "Addr_Data A a = drop 4 ?bs" by auto
  have "unat oracleID < 256" using unsigned_less [of oracleID, where ?'a = nat] by simp
  then have d: "be_bytes 4 (unat oracleID) = [0, 0, 0, oracleID]" by (simp add: be_bytes_4)
  have "drop 4 ?bs ! 1 \<noteq> ?d ! 1" unfolding d using assms(2) by simp
  then have "Addr_Data A a \<noteq> ?d" unfolding s(3) by metis
  with bs s(1,2) show ?thesis by (auto simp: TransmitterBytesToString_def)
qed

theorem OracleIDAsAddressBytes_not_raw_witness:
  "\<exists>bs s a. OracleIDAsAddressBytes ref_addr 3 = Inr bs \<and> length bs = 36 \<and> TransmitterBytesToString ref_addr bs = Inr s \<and>
    ParseAddr ref_addr s = Inr a \<and> Addr_Data ref_addr a \<noteq> be_bytes 4 (unat (3 :: u8)) @ replicate 28 0"
  by (rule OracleIDAsAddressBytes_not_raw [OF ref_addr.addr_laws_axioms]) simp

end
