(* ===== verification/Commit_Codec.thy ===== *)
theory Commit_Codec
  imports Snake Address_Codec
begin

text \<open>
  The codec of commit reports (\<open>pkg/ccip/codec/commitcodec.go\<close>) between the plugin's report types and
  the structs of \<open>pkg/ccip/bindings/ocr/commitreport.go\<close>. A \<open>BigInt\<close> is an optional integer whose
  \<open>IsEmpty\<close> is the missing one, a sequence number range a pair. \<open>CommitLib\<close> collects the calls out
  of the codec: addresses, the cell parser, the BOC format and \<open>tlb.ToCell\<close> and \<open>tlb.LoadFromCell\<close> on
  the struct of a report.
\<close>

section \<open>Reports of the plugin\<close>

record TokenPrice =
  tp_TokenID :: string
  tp_Price :: "int option"

record GasPriceChain =
  gp_ChainSel :: u64
  gp_GasPrice :: "int option"

record MerkleRootChain =
  mc_ChainSel :: u64
  mc_OnRampAddress :: bytes
  mc_SeqNumsRange :: "u64 \<times> u64"
  mc_MerkleRoot :: bytes

record RMNECDSASignature =
  sig_R :: bytes
  sig_S :: bytes

record CommitPluginReport =
  p_TokenPriceUpdates :: "TokenPrice list"
  p_GasPriceUpdates :: "GasPriceChain list"
  p_BlessedMerkleRoots :: "MerkleRootChain list"
  p_UnblessedMerkleRoots :: "MerkleRootChain list"
  p_RMNSignatures :: "RMNECDSASignature list"

section \<open>Reports on the chain\<close>

record 'a TokenPriceUpdate =
  SourceToken :: 'a
  UsdPerToken :: "int option"

record GasPriceUpdate =
  DestChainSelector :: u64
  UsdPerUnitGas :: "int option"

record MerkleRoot =
  SourceChainSelector :: u64
  OnRampAddress :: bytes
  MinSeqNr :: u64
  MaxSeqNr :: u64
  MerkleRoot_bits :: bytes

record MerkleRoots =
  BlessedMerkleRoots :: "MerkleRoot list"
  UnblessedMerkleRoots :: "MerkleRoot list"

record 'a PriceUpdates =
  TokenPriceUpdates :: "'a TokenPriceUpdate list"
  GasPriceUpdates :: "GasPriceUpdate list"

record 'a CommitReport =
  c_PriceUpdates :: "'a PriceUpdates"
  c_MerkleRoot :: MerkleRoots
  c_RMNSignatures :: "bytes list"

record ('c, 's, 'a) CommitLib =
  k_addr :: "'a AddrLib"
  k_BeginParse :: "'c \<Rightarrow> 's"
  commit_ToCell :: "'a CommitReport \<Rightarrow> 'c res"
  commit_LoadFromCell :: "'s \<Rightarrow> 'a CommitReport res"
  k_ToBOC :: "'c \<Rightarrow> bytes"
  k_FromBOC :: "bytes \<Rightarrow> 'c res"

section \<open>Encoding\<close>

definition encode_tpu :: "('c, 's, 'a) CommitLib \<Rightarrow> TokenPrice \<Rightarrow> 'a TokenPriceUpdate res" where
  "encode_tpu K tpu =
     bindE (wrapE (''cannot parse token address '' @ tp_TokenID tpu) (ParseAddr (k_addr K) (tp_TokenID tpu))) (\<lambda>addr.
     case tp_Price tpu of
       None \<Rightarrow> Inl (Err (''empty token price for token '' @ tp_TokenID tpu))
     | Some p \<Rightarrow> Inr \<lparr>SourceToken = addr, UsdPerToken = Some p\<rparr>)"

definition encode_gpu :: "GasPriceChain \<Rightarrow> GasPriceUpdate res" where
  "encode_gpu gpu = (case gp_GasPrice gpu of
       None \<Rightarrow> Inl (Err (''empty gas price for chain selector '' @ show_nat (unat (gp_ChainSel gpu))))
     | Some p \<Rightarrow> Inr \<lparr>DestChainSelector = gp_ChainSel gpu, UsdPerUnitGas = Some p\<rparr>)"

definition encode_root :: "MerkleRootChain \<Rightarrow> MerkleRoot" where
  "encode_root mr = \<lparr>SourceChainSelector = mc_ChainSel mr, OnRampAddress = mc_OnRampAddress mr,
     MinSeqNr = fst (mc_SeqNumsRange mr), MaxSeqNr = snd (mc_SeqNumsRange mr), MerkleRoot_bits = mc_MerkleRoot mr\<rparr>"

text \<open>
  \<open>copy\<close> into a part of an array: the source replaces a prefix of the destination. \<open>sig.R\<close> and \<open>sig.S\<close>
  are arrays of 32 bytes, copied into the two halves of a zero array of 64.
\<close>

definition go_copy :: "bytes \<Rightarrow> bytes \<Rightarrow> bytes" where
  "go_copy dst src = take (length dst) src @ drop (length src) dst"

definition encode_sig :: "RMNECDSASignature \<Rightarrow> bytes" where
  "encode_sig sig = (let a = replicate 64 0;
       a1 = go_copy (take 32 a) (sig_R sig) @ drop 32 a;
       a2 = take 32 a1 @ go_copy (drop 32 a1) (sig_S sig)
     in a2)"

definition Commit_Encode :: "('c, 's, 'a) CommitLib \<Rightarrow> CommitPluginReport \<Rightarrow> bytes res" where
  "Commit_Encode K report =
     bindE (mapE (encode_tpu K) (p_TokenPriceUpdates report)) (\<lambda>tpuSlice.
     bindE (mapE encode_gpu (p_GasPriceUpdates report)) (\<lambda>gpuSlice.
     let cellReport = \<lparr>c_PriceUpdates = \<lparr>TokenPriceUpdates = tpuSlice, GasPriceUpdates = gpuSlice\<rparr>,
           c_MerkleRoot = \<lparr>BlessedMerkleRoots = map encode_root (p_BlessedMerkleRoots report),
             UnblessedMerkleRoots = map encode_root (p_UnblessedMerkleRoots report)\<rparr>,
           c_RMNSignatures = map encode_sig (p_RMNSignatures report)\<rparr>
     in bindE (wrapE ''cannot encode commit report to cell'' (commit_ToCell K cellReport)) (\<lambda>c. Inr (k_ToBOC K c))))"

section \<open>Decoding\<close>

text \<open>A price: a zero is replaced by a new zero, nil stays nil.\<close>

definition decode_price :: "int option \<Rightarrow> int option" where
  "decode_price p = (case p of None \<Rightarrow> None | Some n \<Rightarrow> if sgn n \<noteq> 0 then Some n else Some 0)"

definition decode_tpu :: "('c, 's, 'a) CommitLib \<Rightarrow> 'a TokenPriceUpdate \<Rightarrow> TokenPrice" where
  "decode_tpu K update = \<lparr>tp_TokenID = Addr_String (k_addr K) (SourceToken update), tp_Price = decode_price (UsdPerToken update)\<rparr>"

definition decode_gpu :: "GasPriceUpdate \<Rightarrow> GasPriceChain" where
  "decode_gpu update = \<lparr>gp_ChainSel = DestChainSelector update, gp_GasPrice = decode_price (UsdPerUnitGas update)\<rparr>"

definition decode_sig :: "bytes \<Rightarrow> RMNECDSASignature res" where
  "decode_sig sig =
     (if length sig \<noteq> 64 then Inl (Err (''invalid RMN signature length: '' @ show_nat (length sig)))
      else Inr \<lparr>sig_R = go_copy (replicate 32 0) (take 32 sig), sig_S = go_copy (replicate 32 0) (drop 32 sig)\<rparr>)"

definition decode_root :: "MerkleRoot \<Rightarrow> MerkleRootChain res" where
  "decode_root mr = bindE (Bytes32 (MerkleRoot_bits mr)) (\<lambda>root.
     Inr \<lparr>mc_ChainSel = SourceChainSelector mr, mc_OnRampAddress = OnRampAddress mr,
       mc_SeqNumsRange = (MinSeqNr mr, MaxSeqNr mr), mc_MerkleRoot = root\<rparr>)"

text \<open>The slices that are nil when there is nothing to decode are empty lists, like the others.\<close>

definition Commit_Decode :: "('c, 's, 'a) CommitLib \<Rightarrow> bytes \<Rightarrow> CommitPluginReport res" where
  "Commit_Decode K bs =
     bindE (wrapE ''cannot decode BOC'' (k_FromBOC K bs)) (\<lambda>c.
     bindE (wrapE ''cannot decode commit report from cell'' (commit_LoadFromCell K (k_BeginParse K c))) (\<lambda>report.
     let tpuSlice = map (decode_tpu K) (TokenPriceUpdates (c_PriceUpdates report));
         gpuSlice = map decode_gpu (GasPriceUpdates (c_PriceUpdates report))
     in bindE (mapE decode_sig (c_RMNSignatures report)) (\<lambda>sigSlice.
        bindE (mapE decode_root (BlessedMerkleRoots (c_MerkleRoot report))) (\<lambda>bmrSlice.
        bindE (mapE decode_root (UnblessedMerkleRoots (c_MerkleRoot report))) (\<lambda>unblessedMrSlice.
        Inr \<lparr>p_TokenPriceUpdates = tpuSlice, p_GasPriceUpdates = gpuSlice, p_BlessedMerkleRoots = bmrSlice,
          p_UnblessedMerkleRoots = unblessedMrSlice, p_RMNSignatures = sigSlice\<rparr>)))))"

section \<open>What fits into the cells\<close>

definition price_fits :: "int option \<Rightarrow> bool" where
  "price_fits i = (case i of None \<Rightarrow> False | Some n \<Rightarrow> 0 \<le> n \<and> n < 2 ^ 256)"

definition root_fits :: "MerkleRoot \<Rightarrow> bool" where
  "root_fits r = (1 \<le> length (OnRampAddress r) \<and> length (OnRampAddress r) \<le> 64 \<and> length (MerkleRoot_bits r) = 32)"

definition commit_fits :: "('a \<Rightarrow> bool) \<Rightarrow> 'a CommitReport \<Rightarrow> bool" where
  "commit_fits std r =
     ((\<forall>u \<in> set (TokenPriceUpdates (c_PriceUpdates r)). std (SourceToken u) \<and> price_fits (UsdPerToken u)) \<and>
      (\<forall>u \<in> set (GasPriceUpdates (c_PriceUpdates r)). price_fits (UsdPerUnitGas u)) \<and>
      (\<forall>m \<in> set (BlessedMerkleRoots (c_MerkleRoot r) @ UnblessedMerkleRoots (c_MerkleRoot r)). root_fits m))"

locale commit_laws = addr_laws "k_addr K" std
  for K :: "('c, 's, 'a) CommitLib" and std +
  assumes report_cell: "commit_fits std r \<Longrightarrow> \<exists>c. commit_ToCell K r = Inr c \<and> commit_LoadFromCell K (k_BeginParse K c) = Inr r"
    and boc: "k_FromBOC K (k_ToBOC K c) = Inr c"

section \<open>Correctness\<close>

lemma decode_price_id [simp]: "decode_price p = p"
  by (auto simp: decode_price_def sgn_0_0 split: option.splits)

lemma decode_encode_sig:
  assumes "length (sig_R s) = 32" "length (sig_S s) = 32"
  shows "decode_sig (encode_sig s) = Inr s"
proof -
  have "encode_sig s = sig_R s @ sig_S s" using assms by (simp add: encode_sig_def go_copy_def)
  with assms show ?thesis by (simp add: decode_sig_def go_copy_def)
qed

lemma decode_encode_root: "length (mc_MerkleRoot mr) = 32 \<Longrightarrow> decode_root (encode_root mr) = Inr mr"
  by (simp add: decode_root_def encode_root_def Bytes32_def)

text \<open>The reports that can be encoded: token ids are printed addresses, every price is there.\<close>

definition valid_root :: "MerkleRootChain \<Rightarrow> bool" where
  "valid_root m = (1 \<le> length (mc_OnRampAddress m) \<and> length (mc_OnRampAddress m) \<le> 64 \<and> length (mc_MerkleRoot m) = 32)"

definition valid_commit :: "('c, 's, 'a) CommitLib \<Rightarrow> ('a \<Rightarrow> bool) \<Rightarrow> CommitPluginReport \<Rightarrow> bool" where
  "valid_commit K std r =
     ((\<forall>t \<in> set (p_TokenPriceUpdates r). price_fits (tp_Price t) \<and> (\<exists>a. std a \<and> tp_TokenID t = Addr_String (k_addr K) a)) \<and>
      (\<forall>g \<in> set (p_GasPriceUpdates r). price_fits (gp_GasPrice g)) \<and>
      (\<forall>m \<in> set (p_BlessedMerkleRoots r @ p_UnblessedMerkleRoots r). valid_root m) \<and>
      (\<forall>s \<in> set (p_RMNSignatures r). length (sig_R s) = 32 \<and> length (sig_S s) = 32))"

context commit_laws
begin

lemma tpu_roundtrip:
  assumes "price_fits (tp_Price t)" "std a" "tp_TokenID t = Addr_String (k_addr K) a"
  shows "\<exists>u. encode_tpu K t = Inr u \<and> (std (SourceToken u) \<and> price_fits (UsdPerToken u)) \<and> decode_tpu K u = t"
  using assms by (auto simp: encode_tpu_def decode_tpu_def price_fits_def parse_string split: option.splits)

lemma gpu_roundtrip:
  assumes "price_fits (gp_GasPrice g)"
  shows "\<exists>u. encode_gpu g = Inr u \<and> price_fits (UsdPerUnitGas u) \<and> decode_gpu u = g"
  using assms by (auto simp: encode_gpu_def decode_gpu_def price_fits_def split: option.splits)

lemma commit_roundtrip:
  assumes "valid_commit K std r"
  shows "\<exists>bs. Commit_Encode K r = Inr bs \<and> Commit_Decode K bs = Inr r"
proof -
  obtain ts where ts: "mapE (encode_tpu K) (p_TokenPriceUpdates r) = Inr ts" "\<forall>u \<in> set ts. std (SourceToken u) \<and> price_fits (UsdPerToken u)"
    "map (decode_tpu K) ts = p_TokenPriceUpdates r"
    using mapE_roundtrip [of "p_TokenPriceUpdates r" "encode_tpu K" "\<lambda>u. std (SourceToken u) \<and> price_fits (UsdPerToken u)" "decode_tpu K"]
      assms tpu_roundtrip unfolding valid_commit_def by blast
  obtain gs where gs: "mapE encode_gpu (p_GasPriceUpdates r) = Inr gs" "\<forall>u \<in> set gs. price_fits (UsdPerUnitGas u)"
    "map decode_gpu gs = p_GasPriceUpdates r"
    using mapE_roundtrip [of "p_GasPriceUpdates r" encode_gpu "\<lambda>u. price_fits (UsdPerUnitGas u)" decode_gpu]
      assms gpu_roundtrip unfolding valid_commit_def by blast
  have roots: "mapE decode_root (map encode_root ms) = Inr ms" if "\<forall>m \<in> set ms. valid_root m" for ms
    using that mapE_all_Inr [of ms "\<lambda>m. decode_root (encode_root m)" "\<lambda>m. m"] by (simp add: mapE_map decode_encode_root valid_root_def)
  have sigs: "mapE decode_sig (map encode_sig (p_RMNSignatures r)) = Inr (p_RMNSignatures r)"
    using assms mapE_all_Inr [of "p_RMNSignatures r" "\<lambda>s. decode_sig (encode_sig s)" "\<lambda>s. s"]
    by (simp add: mapE_map decode_encode_sig valid_commit_def)
  have vr: "\<forall>m \<in> set (p_BlessedMerkleRoots r). valid_root m" "\<forall>m \<in> set (p_UnblessedMerkleRoots r). valid_root m"
    using assms by (auto simp: valid_commit_def)
  let ?rep = "\<lparr>c_PriceUpdates = \<lparr>TokenPriceUpdates = ts, GasPriceUpdates = gs\<rparr>,
      c_MerkleRoot = \<lparr>BlessedMerkleRoots = map encode_root (p_BlessedMerkleRoots r), UnblessedMerkleRoots = map encode_root (p_UnblessedMerkleRoots r)\<rparr>,
      c_RMNSignatures = map encode_sig (p_RMNSignatures r)\<rparr>"
  have "commit_fits std ?rep" using ts(2) gs(2) vr by (auto simp: commit_fits_def root_fits_def valid_root_def encode_root_def)
  from report_cell [OF this] obtain c where "commit_ToCell K ?rep = Inr c" "commit_LoadFromCell K (k_BeginParse K c) = Inr ?rep" by blast
  with ts gs roots [OF vr(1)] roots [OF vr(2)] sigs boc show ?thesis by (simp add: Commit_Encode_def Commit_Decode_def)
qed

end

section \<open>An executable instance\<close>

definition put_tpu :: "(u8 \<times> bytes) TokenPriceUpdate \<Rightarrow> tcell" where
  "put_tpu u = TCell [] [put_bytes (fst (SourceToken u) # snd (SourceToken u)), put_u256 (UsdPerToken u)]"

definition get_tpu :: "tcell \<Rightarrow> (u8 \<times> bytes) TokenPriceUpdate" where
  "get_tpu c = (let rs = snd (tcell_content c); a = get_bytes (rs ! 0) in \<lparr>SourceToken = (hd a, tl a), UsdPerToken = get_u256 (rs ! 1)\<rparr>)"

definition put_gpu :: "GasPriceUpdate \<Rightarrow> tcell" where
  "put_gpu u = TCell [] [put_word (DestChainSelector u), put_u256 (UsdPerUnitGas u)]"

definition get_gpu :: "tcell \<Rightarrow> GasPriceUpdate" where
  "get_gpu c = (let rs = snd (tcell_content c) in \<lparr>DestChainSelector = get_word (rs ! 0), UsdPerUnitGas = get_u256 (rs ! 1)\<rparr>)"

definition put_root :: "MerkleRoot \<Rightarrow> tcell" where
  "put_root r = TCell [] [put_word (SourceChainSelector r), put_bytes (OnRampAddress r), put_word (MinSeqNr r), put_word (MaxSeqNr r),
     put_bytes (MerkleRoot_bits r)]"

definition get_root :: "tcell \<Rightarrow> MerkleRoot" where
  "get_root c = (let rs = snd (tcell_content c) in \<lparr>SourceChainSelector = get_word (rs ! 0), OnRampAddress = get_bytes (rs ! 1),
     MinSeqNr = get_word (rs ! 2), MaxSeqNr = get_word (rs ! 3), MerkleRoot_bits = get_bytes (rs ! 4)\<rparr>)"

definition put_commit :: "(u8 \<times> bytes) CommitReport \<Rightarrow> tcell" where
  "put_commit r = TCell [] [put_list put_tpu (TokenPriceUpdates (c_PriceUpdates r)), put_list put_gpu (GasPriceUpdates (c_PriceUpdates r)),
     put_list put_root (BlessedMerkleRoots (c_MerkleRoot r)), put_list put_root (UnblessedMerkleRoots (c_MerkleRoot r)),
     put_list put_bytes (c_RMNSignatures r)]"

definition get_commit :: "tcell \<Rightarrow> (u8 \<times> bytes) CommitReport" where
  "get_commit c = (let rs = snd (tcell_content c) in
     \<lparr>c_PriceUpdates = \<lparr>TokenPriceUpdates = get_list get_tpu (rs ! 0), GasPriceUpdates = get_list get_gpu (rs ! 1)\<rparr>,
      c_MerkleRoot = \<lparr>BlessedMerkleRoots = get_list get_root (rs ! 2), UnblessedMerkleRoots = get_list get_root (rs ! 3)\<rparr>,
      c_RMNSignatures = get_list get_bytes (rs ! 4)\<rparr>)"

definition ref_commit_lib :: "(tcell, tcell, u8 \<times> bytes) CommitLib" where
  "ref_commit_lib = \<lparr>k_addr = ref_addr, k_BeginParse = (\<lambda>c. c), commit_ToCell = (\<lambda>r. Inr (put_commit r)),
     commit_LoadFromCell = (\<lambda>s. Inr (get_commit s)), k_ToBOC = ref_ToBOC, k_FromBOC = ref_FromBOC\<rparr>"

lemma get_put_price: "price_fits p \<Longrightarrow> get_u256 (put_u256 p) = p"
  by (rule get_put_u256) (auto simp: price_fits_def split: option.splits)

lemma get_put_commit:
  assumes "commit_fits std r"
  shows "get_commit (put_commit r) = r"
proof -
  have "get_tpu (put_tpu u) = u" if "price_fits (UsdPerToken u)" for u
    using that by (simp add: get_tpu_def put_tpu_def get_put_price)
  moreover have "get_gpu (put_gpu u) = u" if "price_fits (UsdPerUnitGas u)" for u
    using that by (simp add: get_gpu_def put_gpu_def get_put_price)
  moreover have "get_root (put_root m) = m" for m by (simp add: get_root_def put_root_def eval_nat_numeral)
  ultimately show ?thesis
    using assms by (simp add: get_commit_def put_commit_def commit_fits_def get_put_list eval_nat_numeral)
qed

interpretation ref_commit: commit_laws ref_commit_lib "\<lambda>(w, d). length d = 32"
proof (intro commit_laws.intro commit_laws_axioms.intro, goal_cases)
  case 1
  show ?case by (simp add: ref_commit_lib_def ref_addr.addr_laws_axioms)
next
  case (2 r)
  then show ?case by (simp add: ref_commit_lib_def get_put_commit)
next
  case (3 c)
  show ?case by (simp add: ref_commit_lib_def)
qed

section \<open>Round trip\<close>

text \<open>
  The commit codec: a report with printed token addresses, prices below \<open>2 ^ 256\<close>, on-ramp addresses of
  1 to 64 bytes and 32-byte roots and signature halves is encoded, and decoding the bytes gives back the same
  report.
\<close>

theorem Commit_roundtrip:
  assumes "commit_laws K std" "valid_commit K std r"
  shows "\<exists>bs. Commit_Encode K r = Inr bs \<and> Commit_Decode K bs = Inr r"
  using assms by (rule commit_laws.commit_roundtrip)

definition sample_commit :: CommitPluginReport where
  "sample_commit = \<lparr>p_TokenPriceUpdates = [\<lparr>tp_TokenID = Addr_String ref_addr (0, replicate 32 9), tp_Price = Some 0\<rparr>],
     p_GasPriceUpdates = [\<lparr>gp_ChainSel = 3, gp_GasPrice = Some 20\<rparr>],
     p_BlessedMerkleRoots = [\<lparr>mc_ChainSel = 3, mc_OnRampAddress = replicate 20 1, mc_SeqNumsRange = (4, 5), mc_MerkleRoot = replicate 32 2\<rparr>],
     p_UnblessedMerkleRoots = [], p_RMNSignatures = [\<lparr>sig_R = replicate 32 6, sig_S = replicate 32 7\<rparr>]\<rparr>"

lemma sample_commit_valid: "valid_commit ref_commit_lib (\<lambda>(w, d). length d = 32) sample_commit"
proof -
  have "\<exists>a. (case a of (w, d) \<Rightarrow> length d = 32) \<and> Addr_String ref_addr (0, replicate 32 9) = Addr_String (k_addr ref_commit_lib) a"
    by (intro exI [of _ "(0, replicate 32 9)"]) (simp add: ref_commit_lib_def)
  then show ?thesis by (simp add: valid_commit_def sample_commit_def price_fits_def valid_root_def)
qed

theorem Commit_roundtrip_witness:
  "\<exists>bs. Commit_Encode ref_commit_lib sample_commit = Inr bs \<and> Commit_Decode ref_commit_lib bs = Inr sample_commit"
  by (rule Commit_roundtrip [OF ref_commit.commit_laws_axioms sample_commit_valid])

section \<open>What decoding accepts\<close>

definition all_roots :: "'a CommitReport \<Rightarrow> MerkleRoot list" where
  "all_roots rep = BlessedMerkleRoots (c_MerkleRoot rep) @ UnblessedMerkleRoots (c_MerkleRoot rep)"

text \<open>A report that was read from a cell, as the plugin sees it.\<close>

definition split_sig :: "bytes \<Rightarrow> RMNECDSASignature" where
  "split_sig s = \<lparr>sig_R = take 32 s, sig_S = drop 32 s\<rparr>"

definition root_view :: "MerkleRoot \<Rightarrow> MerkleRootChain" where
  "root_view m = \<lparr>mc_ChainSel = SourceChainSelector m, mc_OnRampAddress = OnRampAddress m,
     mc_SeqNumsRange = (MinSeqNr m, MaxSeqNr m), mc_MerkleRoot = take 32 (MerkleRoot_bits m)\<rparr>"

definition read_report :: "'a AddrLib \<Rightarrow> 'a CommitReport \<Rightarrow> CommitPluginReport" where
  "read_report A rep =
     \<lparr>p_TokenPriceUpdates = map (\<lambda>u. \<lparr>tp_TokenID = Addr_String A (SourceToken u), tp_Price = UsdPerToken u\<rparr>) (TokenPriceUpdates (c_PriceUpdates rep)),
      p_GasPriceUpdates = map (\<lambda>u. \<lparr>gp_ChainSel = DestChainSelector u, gp_GasPrice = UsdPerUnitGas u\<rparr>) (GasPriceUpdates (c_PriceUpdates rep)),
      p_BlessedMerkleRoots = map root_view (BlessedMerkleRoots (c_MerkleRoot rep)),
      p_UnblessedMerkleRoots = map root_view (UnblessedMerkleRoots (c_MerkleRoot rep)),
      p_RMNSignatures = map split_sig (c_RMNSignatures rep)\<rparr>"

lemma decode_sig_split: "decode_sig s = (if length s = 64 then Inr (split_sig s)
    else Inl (Err (''invalid RMN signature length: '' @ show_nat (length s))))"
  by (simp add: decode_sig_def split_sig_def go_copy_def)

lemma decode_root_view: "decode_root m = (if length (MerkleRoot_bits m) < 32 then Inl (Panic ''cannot convert slice to array'') else Inr (root_view m))"
  by (simp add: decode_root_def root_view_def Bytes32_def)

lemma encode_split_sig: "length s = 64 \<Longrightarrow> encode_sig (split_sig s) = s"
  by (simp add: encode_sig_def split_sig_def go_copy_def)

lemma encode_root_view: "length (MerkleRoot_bits m) = 32 \<Longrightarrow> encode_root (root_view m) = m"
  by (simp add: encode_root_def root_view_def)

lemma decode_sigs: "mapE decode_sig ss = (case find (\<lambda>s. length s \<noteq> 64) ss of
    Some s \<Rightarrow> Inl (Err (''invalid RMN signature length: '' @ show_nat (length s))) | None \<Rightarrow> Inr (map split_sig ss))"
  by (induction ss) (auto simp: decode_sig_split split: option.splits)

lemma decode_roots: "mapE decode_root ms = (if \<exists>m \<in> set ms. length (MerkleRoot_bits m) < 32
    then Inl (Panic ''cannot convert slice to array'') else Inr (map root_view ms))"
  by (induction ms) (auto simp: decode_root_view)

lemma report_eta: "\<lparr>c_PriceUpdates = \<lparr>TokenPriceUpdates = TokenPriceUpdates (c_PriceUpdates rep), GasPriceUpdates = GasPriceUpdates (c_PriceUpdates rep)\<rparr>,
    c_MerkleRoot = \<lparr>BlessedMerkleRoots = BlessedMerkleRoots (c_MerkleRoot rep), UnblessedMerkleRoots = UnblessedMerkleRoots (c_MerkleRoot rep)\<rparr>,
    c_RMNSignatures = c_RMNSignatures rep\<rparr> = rep"
  by (cases rep; cases "c_PriceUpdates rep"; cases "c_MerkleRoot rep") simp

lemma encode_read_report:
  assumes "\<forall>u \<in> set (TokenPriceUpdates (c_PriceUpdates rep)). UsdPerToken u \<noteq> None \<and>
      ParseAddr (k_addr K) (Addr_String (k_addr K) (SourceToken u)) = Inr (SourceToken u)"
    and "\<forall>u \<in> set (GasPriceUpdates (c_PriceUpdates rep)). UsdPerUnitGas u \<noteq> None"
    and "\<forall>m \<in> set (all_roots rep). length (MerkleRoot_bits m) = 32" "\<forall>s \<in> set (c_RMNSignatures rep). length s = 64"
  shows "Commit_Encode K (read_report (k_addr K) rep) =
    bindE (wrapE ''cannot encode commit report to cell'' (commit_ToCell K rep)) (\<lambda>c. Inr (k_ToBOC K c))"
proof -
  have "mapE (encode_tpu K) (p_TokenPriceUpdates (read_report (k_addr K) rep)) = Inr (map (\<lambda>u. u) (TokenPriceUpdates (c_PriceUpdates rep)))"
    unfolding read_report_def using assms(1) by (auto simp: mapE_map encode_tpu_def simp del: map_ident intro!: mapE_all_Inr)
  moreover have "mapE encode_gpu (p_GasPriceUpdates (read_report (k_addr K) rep)) = Inr (map (\<lambda>u. u) (GasPriceUpdates (c_PriceUpdates rep)))"
    unfolding read_report_def using assms(2) by (auto simp: mapE_map encode_gpu_def simp del: map_ident intro!: mapE_all_Inr)
  ultimately show ?thesis
    using assms(3,4) by (simp add: Commit_Encode_def) (simp add: read_report_def all_roots_def encode_root_view encode_split_sig map_idI report_eta)
qed

text \<open>
  C33: What \<open>Decode\<close> makes of a report that the BOC and TL-B packages could read. The first RMN signature that does not
  have 64 bytes is reported as an error with its length; otherwise a Merkle root of fewer than 32 bytes panics; otherwise
  the report is returned with its prices, chain selectors, sequence numbers and on-ramps as they were read, addresses
  printed, and every signature split into its two halves of 32 bytes. Nothing is lost: where the prices are there, the
  roots have 32 bytes and printed addresses parse back, \<open>Encode\<close> of the result hands \<open>tlb.ToCell\<close> exactly the struct that
  had been read.
\<close>

theorem Commit_Decode_exact:
  fixes K :: "('c, 's, 'a) CommitLib"
  assumes "k_FromBOC K bs = Inr c" "commit_LoadFromCell K (k_BeginParse K c) = Inr rep"
  shows "case find (\<lambda>s. length s \<noteq> 64) (c_RMNSignatures rep) of
      Some s \<Rightarrow> Commit_Decode K bs = Inl (Err (''invalid RMN signature length: '' @ show_nat (length s)))
    | None \<Rightarrow>
        if \<exists>m \<in> set (all_roots rep). length (MerkleRoot_bits m) < 32 then \<exists>p. Commit_Decode K bs = Inl (Panic p)
        else Commit_Decode K bs = Inr (read_report (k_addr K) rep) \<and>
          ((\<forall>u \<in> set (TokenPriceUpdates (c_PriceUpdates rep)). UsdPerToken u \<noteq> None \<and>
              ParseAddr (k_addr K) (Addr_String (k_addr K) (SourceToken u)) = Inr (SourceToken u)) \<and>
           (\<forall>u \<in> set (GasPriceUpdates (c_PriceUpdates rep)). UsdPerUnitGas u \<noteq> None) \<and>
           (\<forall>m \<in> set (all_roots rep). length (MerkleRoot_bits m) = 32) \<longrightarrow>
           Commit_Encode K (read_report (k_addr K) rep) =
             bindE (wrapE ''cannot encode commit report to cell'' (commit_ToCell K rep)) (\<lambda>c. Inr (k_ToBOC K c)))"
proof (cases "find (\<lambda>s. length s \<noteq> 64) (c_RMNSignatures rep)")
  case None
  then have sigs: "\<forall>s \<in> set (c_RMNSignatures rep). length s = 64" by (auto simp: find_None_iff)
  have "Commit_Decode K bs = Inr (read_report (k_addr K) rep)" if "\<not> (\<exists>m \<in> set (all_roots rep). length (MerkleRoot_bits m) < 32)"
    using assms that None by (auto simp: Commit_Decode_def decode_sigs decode_roots all_roots_def read_report_def decode_tpu_def decode_gpu_def)
  moreover have "\<exists>p. Commit_Decode K bs = Inl (Panic p)" if "\<exists>m \<in> set (all_roots rep). length (MerkleRoot_bits m) < 32"
    using assms that None by (auto simp: Commit_Decode_def decode_sigs decode_roots all_roots_def)
  ultimately show ?thesis using None encode_read_report [OF _ _ _ sigs, of K] by auto
next
  case (Some s)
  with assms show ?thesis by (simp add: Commit_Decode_def decode_sigs)
qed

text \<open>A library that reads one fixed report, with a signature of 64 bytes or of one.\<close>

definition fixed_report :: "bytes \<Rightarrow> (u8 \<times> bytes) CommitReport" where
  "fixed_report s = \<lparr>c_PriceUpdates = \<lparr>TokenPriceUpdates = [\<lparr>SourceToken = (0, replicate 32 9), UsdPerToken = Some 4\<rparr>], GasPriceUpdates = []\<rparr>,
     c_MerkleRoot = \<lparr>BlessedMerkleRoots = [], UnblessedMerkleRoots = []\<rparr>, c_RMNSignatures = [replicate 64 8, s]\<rparr>"

definition fixed_lib :: "bytes \<Rightarrow> (tcell, tcell, u8 \<times> bytes) CommitLib" where
  "fixed_lib s = ref_commit_lib\<lparr>k_FromBOC := (\<lambda>bs. Inr (TCell [] [])), commit_LoadFromCell := (\<lambda>c. Inr (fixed_report s))\<rparr>"

theorem Commit_Decode_exact_witness:
  "Commit_Decode (fixed_lib [5]) [] = Inl (Err (''invalid RMN signature length: '' @ show_nat 1)) \<and>
   Commit_Decode (fixed_lib (replicate 32 6 @ replicate 32 7)) [] =
     Inr \<lparr>p_TokenPriceUpdates = [\<lparr>tp_TokenID = Addr_String ref_addr (0, replicate 32 9), tp_Price = Some 4\<rparr>], p_GasPriceUpdates = [],
       p_BlessedMerkleRoots = [], p_UnblessedMerkleRoots = [],
       p_RMNSignatures = [\<lparr>sig_R = replicate 32 8, sig_S = replicate 32 8\<rparr>, \<lparr>sig_R = replicate 32 6, sig_S = replicate 32 7\<rparr>]\<rparr>"
proof -
  have lib: "k_FromBOC (fixed_lib s) [] = Inr (TCell [] [])" "k_addr (fixed_lib s) = ref_addr"
    "commit_LoadFromCell (fixed_lib s) (k_BeginParse (fixed_lib s) (TCell [] [])) = Inr (fixed_report s)" for s
    by (simp_all add: fixed_lib_def ref_commit_lib_def)
  from Commit_Decode_exact [OF lib(1,3), of "[5]"] Commit_Decode_exact [OF lib(1,3), of "replicate 32 6 @ replicate 32 7"] show ?thesis
    by (simp add: fixed_report_def all_roots_def read_report_def split_sig_def lib)
qed

end
