(* ===== verification/Extra_Data_Codec.thy ===== *)
theory Extra_Data_Codec
  imports Ton_Cell
begin

text \<open>
  Extra arguments of messages: their decoding into maps of dynamically typed values
  (\<open>pkg/ccip/codec/extradatacodec.go\<close>), the argument structs (\<open>pkg/ccip/bindings/onramp/onramp.go\<close>)
  and the two readers of such maps in \<open>pkg/ccip/codec/executecodec.go\<close>. A Go map is a list of
  entries; a loop over one takes the iteration order as the argument \<open>rng\<close>. \<open>FromBOC\<close>, the hex encoder
  and \<open>tlb.LoadFromCell\<close> on the two structs are arguments.
\<close>

section \<open>Dynamically typed values\<close>

text \<open>A value of type \<open>any\<close> with its dynamic type; a \<open>*big.Int\<close> may be nil.\<close>

datatype gany = ABig "int option" | ABool bool | AU32 u32 | AU64 u64 | ABytes bytes | ASnakes "bytes list" | AOther string

fun any_type :: "gany \<Rightarrow> string" where
  "any_type (ABig i) = ''*big.Int''"
| "any_type (ABool b) = ''bool''"
| "any_type (AU32 w) = ''uint32''"
| "any_type (AU64 w) = ''uint64''"
| "any_type (ABytes b) = ''[]uint8''"
| "any_type (ASnakes b) = ''common.SnakeRef[common.SnakeBytes]''"
| "any_type (AOther t) = t"

type_synonym gany_map = "(string, gany) gomap"

section \<open>The argument structs\<close>

record GenericExtraArgsV2 =
  g_GasLimit :: "int option"
  g_AllowOutOfOrderExecution :: bool

record SVMExtraArgsV1 =
  s_ComputeUnits :: u32
  s_AccountIsWritableBitmap :: u64
  s_AllowOutOfOrderExecution :: bool
  s_TokenReceiver :: bytes
  s_Accounts :: "bytes list"

text \<open>The exported fields of the structs, as the reflection loop copies them into the output map.\<close>

definition generic_fields :: "GenericExtraArgsV2 \<Rightarrow> gany_map" where
  "generic_fields a = [(''GasLimit'', ABig (g_GasLimit a)), (''AllowOutOfOrderExecution'', ABool (g_AllowOutOfOrderExecution a))]"

definition svm_fields :: "SVMExtraArgsV1 \<Rightarrow> gany_map" where
  "svm_fields a = [(''ComputeUnits'', AU32 (s_ComputeUnits a)), (''AccountIsWritableBitmap'', AU64 (s_AccountIsWritableBitmap a)),
     (''AllowOutOfOrderExecution'', ABool (s_AllowOutOfOrderExecution a)), (''TokenReceiver'', ABytes (s_TokenReceiver a)),
     (''Accounts'', ASnakes (s_Accounts a))]"

section \<open>Decoding\<close>

definition tvmDestExecDataKey :: string where
  "tvmDestExecDataKey = ''destGasAmount''"

definition svmExtraArgsV1Tag :: bytes where
  "svmExtraArgsV1Tag = [0x1f, 0x3b, 0x3a, 0xba]"

definition evmExtraArgsV2Tag :: bytes where
  "evmExtraArgsV2Tag = [0x18, 0x1d, 0xcf, 0x10]"

text \<open>The calls out of the codec: the BOC reader, the hex encoder and the struct readers.\<close>

record ('c, 's) ExtraLib =
  x_FromBOC :: "bytes \<Rightarrow> 'c res"
  hexutil_Encode :: "bytes \<Rightarrow> string"
  load_generic :: "'s \<Rightarrow> GenericExtraArgsV2 res"
  load_svm :: "'s \<Rightarrow> SVMExtraArgsV1 res"

definition DecodeExtraArgsToMap :: "('b, 'c, 's) CellLib \<Rightarrow> ('c, 's) ExtraLib \<Rightarrow> bytes \<Rightarrow> gany_map res" where
  "DecodeExtraArgsToMap L X extraArgs =
     (if length extraArgs < 4
      then Inl (Err (''extra args too short: '' @ show_nat (length extraArgs) @ '', should be at least 4 (i.e the extraArgs tag)''))
      else bindE (wrapE ''failed to decode BOC'' (x_FromBOC X extraArgs)) (\<lambda>c.
        bindE (wrapE ''failed to load tag from cell'' (LoadSlice L (BeginParse L c) 32)) (\<lambda>(tag, _).
        if hexutil_Encode X tag = hexutil_Encode X evmExtraArgsV2Tag then
          bindE (wrapE ''failed to tlb load extra args from cell'' (load_generic X (BeginParse L c))) (\<lambda>args. Inr (generic_fields args))
        else if hexutil_Encode X tag = hexutil_Encode X svmExtraArgsV1Tag then
          bindE (wrapE ''failed to tlb load extra args from cell'' (load_svm X (BeginParse L c))) (\<lambda>args. Inr (svm_fields args))
        else Inl (Err (''unknown extra args tag: '' @ show_hex tag)))))"

text \<open>\<open>binary.BigEndian.Uint32\<close> panics on fewer than four bytes and ignores those after the fourth.\<close>

definition DecodeDestExecDataToMap :: "bytes \<Rightarrow> gany_map res" where
  "DecodeDestExecDataToMap destExecData =
     (if length destExecData < 4 then Inl (Panic ''index out of range'')
      else Inr [(tvmDestExecDataKey, AU32 (of_nat (be_nat (take 4 destExecData))))])"

section \<open>Reading the maps\<close>

fun dest_gas_loop :: "gany_map \<Rightarrow> u32 res" where
  "dest_gas_loop [] = Inl (Err ''invalid token message, dest gas amount not found in the DestExecDataDecoded map'')"
| "dest_gas_loop ((fieldName, fieldValue) # input) =
     (if ToLower fieldName = ''destgasamount''
      then (case fieldValue of AU32 val \<Rightarrow> Inr val | _ \<Rightarrow> Inl (Err ''invalid type for destgasamount, expected uint32''))
      else dest_gas_loop input)"

definition extractDestGasAmountFromMap :: "(gany_map \<Rightarrow> gany_map) \<Rightarrow> gany_map \<Rightarrow> u32 res" where
  "extractDestGasAmountFromMap rng input = dest_gas_loop (rng input)"

fun gas_limit_loop :: "gany_map \<Rightarrow> int option res" where
  "gas_limit_loop [] = Inl (Err ''gas limit not found in extra data map'')"
| "gas_limit_loop ((fieldName, fieldValue) # input) =
     (if ToLower fieldName = ''gaslimit''
      then (case fieldValue of ABig val \<Rightarrow> Inr val | _ \<Rightarrow> Inl (Err (''unexpected type for gas limit: '' @ any_type fieldValue)))
      else gas_limit_loop input)"

definition parseExtraArgsMap :: "(gany_map \<Rightarrow> gany_map) \<Rightarrow> gany_map \<Rightarrow> int option res" where
  "parseExtraArgsMap rng input = gas_limit_loop (rng input)"

section \<open>Correctness\<close>

text \<open>A key that occurs once up to case is found in whatever order the map is visited.\<close>

lemma gas_limit_loop_unique:
  assumes "(k, ABig v) \<in> set m" "ToLower k = ''gaslimit''" "\<forall>(k', v') \<in> set m. ToLower k' = ''gaslimit'' \<longrightarrow> v' = ABig v"
  shows "gas_limit_loop m = Inr v"
  using assms by (induction m rule: gas_limit_loop.induct) auto

lemma dest_gas_loop_unique:
  assumes "(k, AU32 v) \<in> set m" "ToLower k = ''destgasamount''" "\<forall>(k', v') \<in> set m. ToLower k' = ''destgasamount'' \<longrightarrow> v' = AU32 v"
  shows "dest_gas_loop m = Inr v"
  using assms by (induction m rule: dest_gas_loop.induct) auto

lemma gas_limit_loop_absent: "\<forall>(k, v) \<in> set m. ToLower k \<noteq> ''gaslimit'' \<Longrightarrow> \<exists>e. gas_limit_loop m = Inl (Err e)"
  by (induction m rule: gas_limit_loop.induct) auto

lemma ToLower_names:
  "ToLower ''GasLimit'' = ''gaslimit''" "ToLower ''AllowOutOfOrderExecution'' = ''allowoutoforderexecution''"
  "ToLower ''destGasAmount'' = ''destgasamount''" "ToLower ''ComputeUnits'' = ''computeunits''"
  "ToLower ''AccountIsWritableBitmap'' = ''accountiswritablebitmap''" "ToLower ''TokenReceiver'' = ''tokenreceiver''"
  "ToLower ''Accounts'' = ''accounts''"
  by code_simp+

lemma extract_generic:
  assumes "go_range rng"
  shows "parseExtraArgsMap rng (generic_fields a) = Inr (g_GasLimit a)"
  unfolding parseExtraArgsMap_def
  by (rule gas_limit_loop_unique [where k = "''GasLimit''"])
    (auto simp: go_range.set_rng [OF assms] generic_fields_def ToLower_names)

lemma extract_dest:
  assumes "go_range rng" "4 \<le> length d"
  shows "bindE (DecodeDestExecDataToMap d) (extractDestGasAmountFromMap rng) = Inr (of_nat (be_nat (take 4 d)))"
proof -
  have "dest_gas_loop (rng [(tvmDestExecDataKey, AU32 (of_nat (be_nat (take 4 d))))]) = Inr (of_nat (be_nat (take 4 d)))"
    by (rule dest_gas_loop_unique [where k = tvmDestExecDataKey])
      (auto simp: go_range.set_rng [OF assms(1)] tvmDestExecDataKey_def ToLower_names)
  with assms(2) show ?thesis by (simp add: DecodeDestExecDataToMap_def extractDestGasAmountFromMap_def)
qed

text \<open>
  Extra arguments of the generic form: from the BOC of a cell that carries the EVM tag and
  decodes to \<open>args\<close>, the map is built and the gas limit read from it is that of \<open>args\<close>, in whatever
  order the map is visited. Arguments for Solana decode but have no gas limit, any other tag is
  rejected with an error.
\<close>

theorem extra_args_gas_limit:
  assumes "go_range rng" "inj (hexutil_Encode X)" "4 \<le> length boc" "x_FromBOC X boc = Inr c"
    and "LoadSlice L (BeginParse L c) 32 = Inr (tag, s)" "tag = evmExtraArgsV2Tag \<Longrightarrow> load_generic X (BeginParse L c) = Inr args"
    and "tag = svmExtraArgsV1Tag \<Longrightarrow> load_svm X (BeginParse L c) = Inr sargs"
  shows "if tag = evmExtraArgsV2Tag then bindE (DecodeExtraArgsToMap L X boc) (parseExtraArgsMap rng) = Inr (g_GasLimit args)
    else if tag = svmExtraArgsV1Tag then DecodeExtraArgsToMap L X boc = Inr (svm_fields sargs) \<and>
      (\<exists>e. bindE (DecodeExtraArgsToMap L X boc) (parseExtraArgsMap rng) = Inl (Err e))
    else \<exists>e. DecodeExtraArgsToMap L X boc = Inl (Err e)"
proof -
  have tag: "hexutil_Encode X a = hexutil_Encode X b \<longleftrightarrow> a = b" for a b using assms(2) by (auto dest: injD)
  have dist: "svmExtraArgsV1Tag \<noteq> evmExtraArgsV2Tag" by (simp add: svmExtraArgsV1Tag_def evmExtraArgsV2Tag_def)
  have "\<exists>e. gas_limit_loop (rng (svm_fields sargs)) = Inl (Err e)"
    by (rule gas_limit_loop_absent) (auto simp: go_range.set_rng [OF assms(1)] svm_fields_def ToLower_names)
  with assms(3-7) dist show ?thesis
    by (auto simp: DecodeExtraArgsToMap_def tag extract_generic [OF assms(1)] parseExtraArgsMap_def [of rng "svm_fields sargs"])
qed

lemma inj_bytes_string: "inj (map (\<lambda>b :: u8. char_of (unat b) :: char))"
proof (rule inj_mapI, rule injI)
  fix a b :: u8
  assume "char_of (unat a) = (char_of (unat b) :: char)"
  then have "(of_char (char_of (unat a) :: char) :: nat) = of_char (char_of (unat b) :: char)" by simp
  then show "a = b" using unsigned_less [of a, where ?'a = nat] unsigned_less [of b, where ?'a = nat]
    by (simp add: word_unat_eq_iff)
qed

theorem extra_args_gas_limit_witness:
  "bindE (DecodeExtraArgsToMap ref_lib \<lparr>x_FromBOC = (\<lambda>bs. Inr (TCell (bits_of bs) [])), hexutil_Encode = map (\<lambda>b. char_of (unat b)),
       load_generic = (\<lambda>s. Inr \<lparr>g_GasLimit = Some 7, g_AllowOutOfOrderExecution = True\<rparr>), load_svm = (\<lambda>s. Inl (Err ''magic''))\<rparr>
     evmExtraArgsV2Tag) (parseExtraArgsMap rev) = Inr (Some 7)"
proof -
  let ?X = "\<lparr>x_FromBOC = (\<lambda>bs. Inr (TCell (bits_of bs) [])), hexutil_Encode = map (\<lambda>b. char_of (unat b)),
       load_generic = (\<lambda>s. Inr \<lparr>g_GasLimit = Some 7, g_AllowOutOfOrderExecution = True\<rparr>), load_svm = (\<lambda>s. Inl (Err ''magic''))\<rparr>"
  have "LoadSlice ref_lib (BeginParse ref_lib (TCell (bits_of evmExtraArgsV2Tag) [])) 32 =
      Inr (bytes_of (take 32 (bits_of evmExtraArgsV2Tag)), ([], []))"
    by (simp add: ref_lib_def evmExtraArgsV2Tag_def)
  moreover have "take 32 (bits_of evmExtraArgsV2Tag) = bits_of evmExtraArgsV2Tag" by (simp add: evmExtraArgsV2Tag_def)
  ultimately have load: "LoadSlice ref_lib (BeginParse ref_lib (TCell (bits_of evmExtraArgsV2Tag) [])) 32 = Inr (evmExtraArgsV2Tag, ([], []))"
    by simp
  show ?thesis
    using extra_args_gas_limit [OF rng_rev.go_range_axioms, of ?X evmExtraArgsV2Tag "TCell (bits_of evmExtraArgsV2Tag) []" ref_lib evmExtraArgsV2Tag
        "([], [])" "\<lparr>g_GasLimit = Some 7, g_AllowOutOfOrderExecution = True\<rparr>"] inj_bytes_string load
    by (simp add: evmExtraArgsV2Tag_def svmExtraArgsV1Tag_def)
qed

text \<open>
  The gas amount of a token: the first four bytes, big endian, are read back in whatever order the
  map is visited; fewer than four bytes make the decoder panic.
\<close>

theorem dest_gas_amount:
  assumes "go_range rng"
  shows "bindE (DecodeDestExecDataToMap d) (extractDestGasAmountFromMap rng) =
    (if length d < 4 then Inl (Panic ''index out of range'') else Inr (of_nat (be_nat (take 4 d))))"
  using extract_dest [OF assms, of d] by (auto simp: DecodeDestExecDataToMap_def)

theorem dest_gas_amount_witness:
  "bindE (DecodeDestExecDataToMap [0, 0, 1, 2, 9]) (extractDestGasAmountFromMap rev) = Inr 258"
  using dest_gas_amount [OF rng_rev.go_range_axioms, of "[0, 0, 1, 2, 9]"] by (simp add: be_nat_def)

end
