(* ===== verification/Execute_Codec.thy ===== *)
theory Execute_Codec
  imports Snake Address_Codec Extra_Data_Codec
begin

text \<open>
  The codec of execute reports (\<open>pkg/ccip/codec/executecodec.go\<close>) between the plugin's report types
  and the structs of \<open>pkg/ccip/bindings/ocr/executereport.go\<close>. The plugin's records have the fields
  the codec reads and writes; a \<open>BigInt\<close> is an optional integer whose \<open>IsEmpty\<close> is the missing one.
  \<open>ExecLib\<close> collects the calls out of the codec: the extra data codec of the source chain, coins, the
  BOC format, and \<open>tlb.ToCell\<close> and \<open>tlb.LoadFromCell\<close> on the struct of one report. Operands that
  the plugin's own \<open>String\<close> methods print are left out of error texts.
\<close>

section \<open>Reports of the plugin\<close>

record RampTokenAmount =
  ta_SourcePoolAddress :: bytes
  ta_DestTokenAddress :: bytes
  ta_ExtraData :: bytes
  ta_Amount :: "int option"
  ta_DestExecData :: bytes

record RampMessageHeader =
  h_MessageID :: bytes
  h_SourceChainSelector :: u64
  h_DestChainSelector :: u64
  h_SequenceNumber :: u64
  h_Nonce :: u64

record Message =
  m_Header :: RampMessageHeader
  m_Sender :: bytes
  m_Data :: bytes
  m_Receiver :: bytes
  m_ExtraArgs :: bytes
  m_TokenAmounts :: "RampTokenAmount list"

record ChainReport =
  cr_SourceChainSelector :: u64
  cr_Messages :: "Message list"
  cr_OffchainTokenData :: "bytes list list"
  cr_Proofs :: "bytes list"
  cr_ProofFlagBits :: "int option"

type_synonym ExecutePluginReport = "ChainReport list"

section \<open>Reports on the chain\<close>

text \<open>The header struct has the same fields as the plugin's one.\<close>

record ('a, 'c) Any2TVMTokenTransfer =
  tt_SourcePoolAddress :: bytes
  tt_DestPoolAddress :: 'a
  tt_DestGasAmount :: u32
  tt_ExtraData :: "'c option"
  tt_Amount :: "int option"

record ('a, 'c, 'k) Any2TVMRampMessage =
  rm_Header :: RampMessageHeader
  rm_Sender :: bytes
  rm_Data :: bytes
  rm_Receiver :: 'a
  rm_GasLimit :: 'k
  rm_TokenAmounts :: "('a, 'c) Any2TVMTokenTransfer list"

record ('a, 'c, 'k) ExecuteReport =
  er_SourceChainSelector :: u64
  er_Messages :: "('a, 'c, 'k) Any2TVMRampMessage list"
  er_OffChainTokenData :: "bytes list"
  er_Proofs :: "bytes list"
  er_ProofFlagBits :: "int option"

record ('b, 'c, 's, 'a, 'k) ExecLib =
  e_cells :: "('b, 'c, 's) CellLib"
  e_addr :: "'a AddrLib"
  e_rng :: "gany_map \<Rightarrow> gany_map"
  DecodeTokenAmountDestExecData :: "bytes \<Rightarrow> u64 \<Rightarrow> gany_map res"
  DecodeExtraArgs :: "bytes \<Rightarrow> u64 \<Rightarrow> gany_map res"
  ZeroCoins :: 'k
  FromNano :: "int \<Rightarrow> 'k res"
  Nano :: "'k \<Rightarrow> int"
  args_ToCell :: "GenericExtraArgsV2 \<Rightarrow> 'c res"
  exec_ToCell :: "('a, 'c, 'k) ExecuteReport \<Rightarrow> 'c res"
  exec_LoadFromCell :: "'s \<Rightarrow> (('a, 'c, 'k) ExecuteReport \<times> 's) res"
  e_ToBOC :: "'c \<Rightarrow> bytes"
  e_FromBOC :: "bytes \<Rightarrow> 'c res"

section \<open>Encoding\<close>

definition encode_token :: "('b, 'c, 's, 'a, 'k) ExecLib \<Rightarrow> u64 \<Rightarrow> RampTokenAmount \<Rightarrow> ('a, 'c) Any2TVMTokenTransfer res option" where
  "encode_token E sel t = (case ta_Amount t of
       None \<Rightarrow> Some (Inl (Err ''empty amount for token''))
     | Some amount \<Rightarrow>
        if amount < 0 then Some (Inl (Err ''negative amount for token''))
        else if length (ta_DestTokenAddress t) \<noteq> 36 then Some (Inl (Err ''invalid destTokenAddress address''))
        else bindO (Some (wrapE ''failed to decode dest exec data'' (DecodeTokenAmountDestExecData E (ta_DestExecData t) sel))) (\<lambda>m.
             bindO (Some (wrapE ''extract dest gas amount'' (extractDestGasAmountFromMap (e_rng E) m))) (\<lambda>destGasAmount.
             bindO (map_option (wrapE ''pack extra data'') (SnakeBytes_ToCell (e_cells E) (ta_ExtraData t))) (\<lambda>extraData.
             if length (ta_DestTokenAddress t) < 36
             then Some (Inl (Err (''invalid dest token address length: '' @ show_nat (length (ta_DestTokenAddress t)))))
             else bindO (Some (AddressBytesToString (e_addr E) (ta_DestTokenAddress t))) (\<lambda>destTokenAddrStr.
             bindO (Some (wrapE (''invalid dest token address '' @ destTokenAddrStr) (ParseAddr (e_addr E) destTokenAddrStr))) (\<lambda>addr.
             Some (Inr \<lparr>tt_SourcePoolAddress = ta_SourcePoolAddress t, tt_DestPoolAddress = addr,
               tt_DestGasAmount = destGasAmount, tt_ExtraData = extraData, tt_Amount = Some amount\<rparr>)))))))"

text \<open>The gas limit of a message: nil when there are no extra arguments.\<close>

definition message_gas :: "('b, 'c, 's, 'a, 'k) ExecLib \<Rightarrow> u64 \<Rightarrow> bytes \<Rightarrow> int option res" where
  "message_gas E sel extraArgs =
     (if length extraArgs > 0
      then bindE (wrapE ''failed to decode extra args'' (DecodeExtraArgs E extraArgs sel)) (\<lambda>m.
           wrapE ''parse extra args map to get gas limit'' (parseExtraArgsMap (e_rng E) m))
      else Inr None)"

definition encode_message :: "('b, 'c, 's, 'a, 'k) ExecLib \<Rightarrow> u64 \<Rightarrow> Message \<Rightarrow> ('a, 'c, 'k) Any2TVMRampMessage res option" where
  "encode_message E sel msg =
     bindO (mapO (encode_token E sel) (m_TokenAmounts msg)) (\<lambda>tokenAmounts.
     bindO (Some (wrapE ''error convert receiver address'' (AddressBytesToString (e_addr E) (m_Receiver msg)))) (\<lambda>addrStr.
     bindO (Some (wrapE (''invalid receiver address '' @ addrStr) (ParseAddr (e_addr E) addrStr))) (\<lambda>receiver.
     bindO (Some (message_gas E sel (m_ExtraArgs msg))) (\<lambda>gasLimitBigInt.
     bindO (Some (case gasLimitBigInt of None \<Rightarrow> Inr (ZeroCoins E)
        | Some g \<Rightarrow> wrapE ''convert gas limit to TON cell'' (FromNano E g))) (\<lambda>gasLimit.
     Some (Inr \<lparr>rm_Header = m_Header msg, rm_Sender = m_Sender msg, rm_Data = m_Data msg,
       rm_Receiver = receiver, rm_GasLimit = gasLimit, rm_TokenAmounts = tokenAmounts\<rparr>))))))"

definition encode_chain :: "('b, 'c, 's, 'a, 'k) ExecLib \<Rightarrow> ChainReport \<Rightarrow> ('a, 'c, 'k) ExecuteReport res option" where
  "encode_chain E r =
     bindO (mapO (encode_message E (cr_SourceChainSelector r)) (cr_Messages r)) (\<lambda>rampMessages.
     Some (Inr \<lparr>er_SourceChainSelector = cr_SourceChainSelector r, er_Messages = rampMessages,
       er_OffChainTokenData =
         (if length (cr_Messages r) > 0 \<and> length (cr_OffchainTokenData r) > 0 then cr_OffchainTokenData r ! 0 else []),
       er_Proofs = cr_Proofs r, er_ProofFlagBits = cr_ProofFlagBits r\<rparr>))"

text \<open>\<open>ToBOC\<close> of a nil cell panics; packing never yields one.\<close>

definition Execute_Encode :: "('b, 'c, 's, 'a, 'k) ExecLib \<Rightarrow> ExecutePluginReport \<Rightarrow> bytes res option" where
  "Execute_Encode E report =
     (if length report = 0 then Some (Inr [])
      else bindO (mapO (encode_chain E) report) (\<lambda>tonReports.
           bindO (Some (wrapE ''pack execute reports'' (SnakeRef_ToCell (e_cells E) (exec_ToCell E) tonReports))) (\<lambda>chainedReports.
           Some (case chainedReports of None \<Rightarrow> Inl (Panic ''nil cell'') | Some c \<Rightarrow> Inr (e_ToBOC E c)))))"

section \<open>Decoding\<close>

definition decode_token :: "('b, 'c, 's, 'a, 'k) ExecLib \<Rightarrow> ('a, 'c) Any2TVMTokenTransfer \<Rightarrow> RampTokenAmount res option" where
  "decode_token E t = (case tt_ExtraData t of
       None \<Rightarrow> Some (Inl (Panic ''nil cell''))
     | Some cl \<Rightarrow>
        bindO (map_option (wrapE ''unpack extra data'') (SnakeBytes_LoadFromCell (e_cells E) (BeginParse (e_cells E) cl))) (\<lambda>extraData.
        bindO (Some (AddressStringToBytes (e_addr E) (Addr_String (e_addr E) (tt_DestPoolAddress t)))) (\<lambda>destTokenAddr.
        Some (Inr \<lparr>ta_SourcePoolAddress = tt_SourcePoolAddress t, ta_DestTokenAddress = destTokenAddr, ta_ExtraData = extraData,
          ta_Amount = tt_Amount t, ta_DestExecData = be_bytes 4 (unat (tt_DestGasAmount t))\<rparr>))))"

definition decode_message :: "('b, 'c, 's, 'a, 'k) ExecLib \<Rightarrow> ('a, 'c, 'k) Any2TVMRampMessage \<Rightarrow> Message res option" where
  "decode_message E msg =
     bindO (mapO (decode_token E) (rm_TokenAmounts msg)) (\<lambda>tokenAmounts.
     bindO (Some (AddressStringToBytes (e_addr E) (Addr_String (e_addr E) (rm_Receiver msg)))) (\<lambda>receiverAddr.
     bindO (Some (wrapE ''convert extra args to cell''
        (args_ToCell E \<lparr>g_GasLimit = Some (Nano E (rm_GasLimit msg)), g_AllowOutOfOrderExecution = True\<rparr>))) (\<lambda>extraArgsCell.
     bindO (Some (Bytes32 (h_MessageID (rm_Header msg)))) (\<lambda>messageID.
     Some (Inr \<lparr>m_Header = (rm_Header msg)\<lparr>h_MessageID := messageID\<rparr>, m_Sender = rm_Sender msg, m_Data = rm_Data msg,
       m_Receiver = receiverAddr, m_ExtraArgs = e_ToBOC E extraArgsCell, m_TokenAmounts = tokenAmounts\<rparr>)))))"

definition decode_chain :: "('b, 'c, 's, 'a, 'k) ExecLib \<Rightarrow> ('a, 'c, 'k) ExecuteReport \<Rightarrow> ChainReport res option" where
  "decode_chain E r =
     bindO (Some (mapE Bytes32 (er_Proofs r))) (\<lambda>proofs.
     bindO (mapO (decode_message E) (er_Messages r)) (\<lambda>messages.
     Some (Inr \<lparr>cr_SourceChainSelector = er_SourceChainSelector r, cr_Messages = messages,
       cr_OffchainTokenData = (if length (er_OffChainTokenData r) > 0 then [er_OffChainTokenData r] else []),
       cr_Proofs = proofs, cr_ProofFlagBits = er_ProofFlagBits r\<rparr>)))"

definition Execute_Decode :: "('b, 'c, 's, 'a, 'k) ExecLib \<Rightarrow> bytes \<Rightarrow> ExecutePluginReport res option" where
  "Execute_Decode E data =
     bindO (Some (wrapE ''decode BOC'' (e_FromBOC E data))) (\<lambda>c.
     bindO (map_option (wrapE ''unpack execute reports'') (SnakeRef_LoadFromCell (e_cells E) (exec_LoadFromCell E) (BeginParse (e_cells E) c)))
       (mapO (decode_chain E)))"

section \<open>What fits into the cells\<close>

text \<open>
  The values that the layouts of the structs can hold. A token transfer has its source pool address
  inline, next to an address of 267 bits, the gas amount and the token amount: of the 1023 bits
  of a cell, 468 are left for the length byte and the address, so 57 bytes.
\<close>

definition u256 :: "int option \<Rightarrow> bool" where
  "u256 i = (case i of None \<Rightarrow> False | Some n \<Rightarrow> 0 \<le> n \<and> n < 2 ^ 256)"

definition token_fits :: "('a \<Rightarrow> bool) \<Rightarrow> ('a, 'c) Any2TVMTokenTransfer \<Rightarrow> bool" where
  "token_fits std t = (1 \<le> length (tt_SourcePoolAddress t) \<and> length (tt_SourcePoolAddress t) \<le> 57 \<and>
     std (tt_DestPoolAddress t) \<and> tt_ExtraData t \<noteq> None \<and> u256 (tt_Amount t))"

definition message_fits :: "('a \<Rightarrow> bool) \<Rightarrow> ('a, 'c, 'k) Any2TVMRampMessage \<Rightarrow> bool" where
  "message_fits std m = (length (h_MessageID (rm_Header m)) = 32 \<and> 1 \<le> length (rm_Sender m) \<and> length (rm_Sender m) \<le> 64 \<and>
     std (rm_Receiver m) \<and> (\<forall>t \<in> set (rm_TokenAmounts m). token_fits std t))"

definition report_fits :: "('a \<Rightarrow> bool) \<Rightarrow> ('a, 'c, 'k) ExecuteReport \<Rightarrow> bool" where
  "report_fits std r = (u256 (er_ProofFlagBits r) \<and> (\<forall>m \<in> set (er_Messages r). message_fits std m))"

text \<open>What the codec relies on: the laws of cells and addresses, and the inverses the libraries promise.\<close>

locale exec_laws = cell_laws "e_cells E" bc cc sc depth + addr_laws "e_addr E" std
  for E :: "('b, 'c, 's, 'a, 'k) ExecLib" and bc cc sc depth std +
  assumes rng: "go_range (e_rng E)"
    and coins: "0 \<le> n \<Longrightarrow> n < 2 ^ 120 \<Longrightarrow> \<exists>k. FromNano E n = Inr k \<and> Nano E k = n"
    and zero_coins: "Nano E (ZeroCoins E) = 0"
    and args_cell: "u256 (g_GasLimit args) \<Longrightarrow> okE (args_ToCell E args)"
    and report_cell: "report_fits std r \<Longrightarrow> ref_codec (e_cells E) (exec_ToCell E) (exec_LoadFromCell E) r"
    and boc: "e_FromBOC E (e_ToBOC E c) = Inr c"

section \<open>What survives the codec\<close>

text \<open>
  The gas amount of a token and the gas limit of a message, as the source chain's codec reads them;
  the reports that can be encoded; and what decoding returns of them.
\<close>

definition token_gas :: "('b, 'c, 's, 'a, 'k) ExecLib \<Rightarrow> u64 \<Rightarrow> bytes \<Rightarrow> u32 res" where
  "token_gas E sel d = bindE (DecodeTokenAmountDestExecData E d sel) (extractDestGasAmountFromMap (e_rng E))"

definition valid_token :: "('b, 'c, 's, 'a, 'k) ExecLib \<Rightarrow> u64 \<Rightarrow> RampTokenAmount \<Rightarrow> bool" where
  "valid_token E sel t = (u256 (ta_Amount t) \<and> raw_addr (ta_DestTokenAddress t) \<and> 1 \<le> length (ta_SourcePoolAddress t) \<and>
     length (ta_SourcePoolAddress t) \<le> 57 \<and> okE (token_gas E sel (ta_DestExecData t)))"

definition valid_message :: "('b, 'c, 's, 'a, 'k) ExecLib \<Rightarrow> u64 \<Rightarrow> Message \<Rightarrow> bool" where
  "valid_message E sel m = (length (h_MessageID (m_Header m)) = 32 \<and> 1 \<le> length (m_Sender m) \<and> length (m_Sender m) \<le> 64 \<and>
     raw_addr (m_Receiver m) \<and> (case message_gas E sel (m_ExtraArgs m) of Inl e \<Rightarrow> False | Inr None \<Rightarrow> True | Inr (Some g) \<Rightarrow> 0 \<le> g \<and> g < 2 ^ 120) \<and>
     (\<forall>t \<in> set (m_TokenAmounts m). valid_token E sel t))"

definition valid_report :: "('b, 'c, 's, 'a, 'k) ExecLib \<Rightarrow> ChainReport \<Rightarrow> bool" where
  "valid_report E r = (u256 (cr_ProofFlagBits r) \<and> (\<forall>p \<in> set (cr_Proofs r). length p = 32) \<and>
     (\<forall>m \<in> set (cr_Messages r). valid_message E (cr_SourceChainSelector r) m))"

definition view_token :: "('b, 'c, 's, 'a, 'k) ExecLib \<Rightarrow> u64 \<Rightarrow> RampTokenAmount \<Rightarrow> RampTokenAmount" where
  "view_token E sel t = t\<lparr>ta_DestExecData := be_bytes 4 (unat (projr (token_gas E sel (ta_DestExecData t))))\<rparr>"

definition view_args :: "('b, 'c, 's, 'a, 'k) ExecLib \<Rightarrow> u64 \<Rightarrow> bytes \<Rightarrow> bytes" where
  "view_args E sel extraArgs =
     (let g = (case projr (message_gas E sel extraArgs) of None \<Rightarrow> 0 | Some g \<Rightarrow> g)
      in e_ToBOC E (projr (args_ToCell E \<lparr>g_GasLimit = Some g, g_AllowOutOfOrderExecution = True\<rparr>)))"

definition view_message :: "('b, 'c, 's, 'a, 'k) ExecLib \<Rightarrow> u64 \<Rightarrow> Message \<Rightarrow> Message" where
  "view_message E sel m = m\<lparr>m_ExtraArgs := view_args E sel (m_ExtraArgs m), m_TokenAmounts := map (view_token E sel) (m_TokenAmounts m)\<rparr>"

definition view_report :: "('b, 'c, 's, 'a, 'k) ExecLib \<Rightarrow> ChainReport \<Rightarrow> ChainReport" where
  "view_report E r = r\<lparr>cr_Messages := map (view_message E (cr_SourceChainSelector r)) (cr_Messages r),
     cr_OffchainTokenData := (if cr_Messages r \<noteq> [] \<and> cr_OffchainTokenData r \<noteq> [] \<and> hd (cr_OffchainTokenData r) \<noteq> []
       then [hd (cr_OffchainTokenData r)] else [])\<rparr>"

context exec_laws
begin

lemma token_roundtrip:
  assumes "valid_token E sel t"
  shows "\<exists>tt. encode_token E sel t = Some (Inr tt) \<and> token_fits std tt \<and> decode_token E tt = Some (Inr (view_token E sel t))"
proof -
  from assms obtain n where n: "ta_Amount t = Some n" "0 \<le> n" "n < 2 ^ 256" by (auto simp: valid_token_def u256_def split: option.splits)
  from assms obtain m g where g: "DecodeTokenAmountDestExecData E (ta_DestExecData t) sel = Inr m" "extractDestGasAmountFromMap (e_rng E) m = Inr g"
    by (auto simp: valid_token_def token_gas_def okE_iff)
  obtain c where c: "SnakeBytes_ToCell (e_cells E) (ta_ExtraData t) = Some (Inr (Some c))"
    "SnakeBytes_LoadFromCell (e_cells E) (BeginParse (e_cells E) c) = Some (Inr (ta_ExtraData t))" using snake_bytes by blast
  have raw: "raw_addr (ta_DestTokenAddress t)" using assms by (simp add: valid_token_def)
  from raw_addr_roundtrip [OF this] obtain s a where a: "AddressBytesToString (e_addr E) (ta_DestTokenAddress t) = Inr s"
    "ParseAddr (e_addr E) s = Inr a" "std a" "AddressStringToBytes (e_addr E) (Addr_String (e_addr E) a) = Inr (ta_DestTokenAddress t)" by blast
  let ?tt = "\<lparr>tt_SourcePoolAddress = ta_SourcePoolAddress t, tt_DestPoolAddress = a, tt_DestGasAmount = g, tt_ExtraData = Some c, tt_Amount = Some n\<rparr>"
  have "encode_token E sel t = Some (Inr ?tt)" using n g c a raw by (simp add: encode_token_def raw_addr_def)
  moreover have "token_fits std ?tt" using assms n a by (simp add: token_fits_def valid_token_def u256_def)
  moreover have "decode_token E ?tt = Some (Inr (view_token E sel t))"
    using c a n g by (simp add: decode_token_def view_token_def token_gas_def)
  ultimately show ?thesis by blast
qed

lemma gas_roundtrip:
  assumes "case message_gas E sel x of Inl e \<Rightarrow> False | Inr None \<Rightarrow> True | Inr (Some g) \<Rightarrow> 0 \<le> g \<and> g < 2 ^ 120"
  shows "\<exists>og k. message_gas E sel x = Inr og \<and> (case og of None \<Rightarrow> Inr (ZeroCoins E) | Some g \<Rightarrow> wrapE w (FromNano E g)) = Inr k \<and>
    okE (args_ToCell E \<lparr>g_GasLimit = Some (Nano E k), g_AllowOutOfOrderExecution = True\<rparr>) \<and>
    e_ToBOC E (projr (args_ToCell E \<lparr>g_GasLimit = Some (Nano E k), g_AllowOutOfOrderExecution = True\<rparr>)) = view_args E sel x"
proof -
  obtain og where og: "message_gas E sel x = Inr og" and range: "case og of None \<Rightarrow> True | Some g \<Rightarrow> 0 \<le> g \<and> g < 2 ^ 120"
    using assms by (auto split: sum.splits)
  let ?g = "case og of None \<Rightarrow> 0 | Some g \<Rightarrow> g"
  obtain k where k: "(case og of None \<Rightarrow> Inr (ZeroCoins E) | Some g \<Rightarrow> wrapE w (FromNano E g)) = Inr k" "Nano E k = ?g"
    using range coins zero_coins by (cases og) auto
  have "u256 (Some ?g)" using range by (cases og) (auto simp: u256_def)
  then have "okE (args_ToCell E \<lparr>g_GasLimit = Some ?g, g_AllowOutOfOrderExecution = True\<rparr>)" by (intro args_cell) simp
  with og k show ?thesis by (simp add: view_args_def)
qed

lemma message_roundtrip:
  assumes "valid_message E sel m"
  shows "\<exists>rm. encode_message E sel m = Some (Inr rm) \<and> message_fits std rm \<and> decode_message E rm = Some (Inr (view_message E sel m))"
proof -
  have "\<forall>t \<in> set (m_TokenAmounts m). valid_token E sel t" using assms by (simp add: valid_message_def)
  then obtain tts where tts: "mapO (encode_token E sel) (m_TokenAmounts m) = Some (Inr tts)" "\<forall>tt \<in> set tts. token_fits std tt"
    "mapO (decode_token E) tts = Some (Inr (map (view_token E sel) (m_TokenAmounts m)))"
    using mapO_roundtrip [of "m_TokenAmounts m" "encode_token E sel" "token_fits std" "decode_token E" "view_token E sel"] token_roundtrip by blast
  have "raw_addr (m_Receiver m)" using assms by (simp add: valid_message_def)
  from raw_addr_roundtrip [OF this] obtain s a where a: "AddressBytesToString (e_addr E) (m_Receiver m) = Inr s"
    "ParseAddr (e_addr E) s = Inr a" "std a" "AddressStringToBytes (e_addr E) (Addr_String (e_addr E) a) = Inr (m_Receiver m)" by blast
  have "case message_gas E sel (m_ExtraArgs m) of Inl e \<Rightarrow> False | Inr None \<Rightarrow> True | Inr (Some g) \<Rightarrow> 0 \<le> g \<and> g < 2 ^ 120"
    using assms by (simp add: valid_message_def)
  from gas_roundtrip [OF this] obtain og k where k: "message_gas E sel (m_ExtraArgs m) = Inr og"
    "(case og of None \<Rightarrow> Inr (ZeroCoins E) | Some g \<Rightarrow> wrapE ''convert gas limit to TON cell'' (FromNano E g)) = Inr k"
    "okE (args_ToCell E \<lparr>g_GasLimit = Some (Nano E k), g_AllowOutOfOrderExecution = True\<rparr>)"
    "e_ToBOC E (projr (args_ToCell E \<lparr>g_GasLimit = Some (Nano E k), g_AllowOutOfOrderExecution = True\<rparr>)) = view_args E sel (m_ExtraArgs m)"
    by blast
  let ?rm = "\<lparr>rm_Header = m_Header m, rm_Sender = m_Sender m, rm_Data = m_Data m, rm_Receiver = a, rm_GasLimit = k, rm_TokenAmounts = tts\<rparr>"
  have "encode_message E sel m = Some (Inr ?rm)" using tts(1) a k by (simp add: encode_message_def)
  moreover have "message_fits std ?rm" using assms tts(2) a(3) by (simp add: message_fits_def valid_message_def)
  moreover have "decode_message E ?rm = Some (Inr (view_message E sel m))"
    using assms tts(3) a(4) k by (auto simp: decode_message_def view_message_def valid_message_def Bytes32_def okE_iff)
  ultimately show ?thesis by blast
qed

lemma chain_roundtrip:
  assumes "valid_report E r"
  shows "\<exists>er. encode_chain E r = Some (Inr er) \<and> report_fits std er \<and> decode_chain E er = Some (Inr (view_report E r))"
proof -
  let ?sel = "cr_SourceChainSelector r"
  have "\<forall>m \<in> set (cr_Messages r). valid_message E ?sel m" using assms by (simp add: valid_report_def)
  then obtain rms where rms: "mapO (encode_message E ?sel) (cr_Messages r) = Some (Inr rms)" "\<forall>rm \<in> set rms. message_fits std rm"
    "mapO (decode_message E) rms = Some (Inr (map (view_message E ?sel) (cr_Messages r)))"
    using mapO_roundtrip [of "cr_Messages r" "encode_message E ?sel" "message_fits std" "decode_message E" "view_message E ?sel"] message_roundtrip by blast
  have proofs: "mapE Bytes32 (cr_Proofs r) = Inr (cr_Proofs r)"
    using mapE_all_Inr [of "cr_Proofs r" Bytes32 "\<lambda>p. p"] assms by (simp add: valid_report_def Bytes32_def)
  let ?off = "if length (cr_Messages r) > 0 \<and> length (cr_OffchainTokenData r) > 0 then cr_OffchainTokenData r ! 0 else []"
  let ?er = "\<lparr>er_SourceChainSelector = ?sel, er_Messages = rms, er_OffChainTokenData = ?off, er_Proofs = cr_Proofs r, er_ProofFlagBits = cr_ProofFlagBits r\<rparr>"
  have "encode_chain E r = Some (Inr ?er)" using rms(1) by (simp add: encode_chain_def)
  moreover have "report_fits std ?er" using assms rms(2) by (simp add: report_fits_def valid_report_def)
  moreover have "decode_chain E ?er = Some (Inr (view_report E r))"
    using rms(3) proofs by (simp add: decode_chain_def view_report_def hd_conv_nth)
  ultimately show ?thesis by blast
qed

lemma execute_roundtrip:
  assumes "rs \<noteq> []" "\<forall>r \<in> set rs. valid_report E r"
  shows "\<exists>bs. Execute_Encode E rs = Some (Inr bs) \<and> Execute_Decode E bs = Some (Inr (map (view_report E) rs))"
proof -
  obtain ers where ers: "mapO (encode_chain E) rs = Some (Inr ers)" "\<forall>er \<in> set ers. report_fits std er"
    "mapO (decode_chain E) ers = Some (Inr (map (view_report E) rs))"
    using mapO_roundtrip [of rs "encode_chain E" "report_fits std" "decode_chain E" "view_report E"] chain_roundtrip assms(2) by blast
  from snake_ref [of ers "exec_ToCell E" "exec_LoadFromCell E"] report_cell ers(2) obtain c where
    "SnakeRef_ToCell (e_cells E) (exec_ToCell E) ers = Inr (Some c)"
    "SnakeRef_LoadFromCell (e_cells E) (exec_LoadFromCell E) (BeginParse (e_cells E) c) = Some (Inr ers)" by blast
  with assms(1) ers(1,3) boc show ?thesis by (simp add: Execute_Encode_def Execute_Decode_def)
qed

end

section \<open>An executable instance\<close>

type_synonym ref_address = "u8 \<times> bytes"
type_synonym ref_coins = "128 word"

definition put_addr :: "ref_address \<Rightarrow> tcell" where
  "put_addr a = put_bytes (fst a # snd a)"

definition get_addr :: "tcell \<Rightarrow> ref_address" where
  "get_addr c = (hd (get_bytes c), tl (get_bytes c))"

definition put_header :: "RampMessageHeader \<Rightarrow> tcell" where
  "put_header h = TCell [] [put_bytes (h_MessageID h), put_word (h_SourceChainSelector h), put_word (h_DestChainSelector h),
     put_word (h_SequenceNumber h), put_word (h_Nonce h)]"

definition get_header :: "tcell \<Rightarrow> RampMessageHeader" where
  "get_header c = (let rs = snd (tcell_content c) in \<lparr>h_MessageID = get_bytes (rs ! 0), h_SourceChainSelector = get_word (rs ! 1),
     h_DestChainSelector = get_word (rs ! 2), h_SequenceNumber = get_word (rs ! 3), h_Nonce = get_word (rs ! 4)\<rparr>)"

definition put_token :: "(ref_address, tcell) Any2TVMTokenTransfer \<Rightarrow> tcell" where
  "put_token t = TCell [] [put_bytes (tt_SourcePoolAddress t), put_addr (tt_DestPoolAddress t), put_word (tt_DestGasAmount t),
     TCell [] (case tt_ExtraData t of None \<Rightarrow> [] | Some c \<Rightarrow> [c]), put_u256 (tt_Amount t)]"

definition get_token :: "tcell \<Rightarrow> (ref_address, tcell) Any2TVMTokenTransfer" where
  "get_token c = (let rs = snd (tcell_content c) in \<lparr>tt_SourcePoolAddress = get_bytes (rs ! 0), tt_DestPoolAddress = get_addr (rs ! 1),
     tt_DestGasAmount = get_word (rs ! 2), tt_ExtraData = (case snd (tcell_content (rs ! 3)) of [] \<Rightarrow> None | c # _ \<Rightarrow> Some c),
     tt_Amount = get_u256 (rs ! 4)\<rparr>)"

definition put_message :: "(ref_address, tcell, ref_coins) Any2TVMRampMessage \<Rightarrow> tcell" where
  "put_message m = TCell [] [put_header (rm_Header m), put_bytes (rm_Sender m), put_bytes (rm_Data m), put_addr (rm_Receiver m),
     put_word (rm_GasLimit m), put_list put_token (rm_TokenAmounts m)]"

definition get_message :: "tcell \<Rightarrow> (ref_address, tcell, ref_coins) Any2TVMRampMessage" where
  "get_message c = (let rs = snd (tcell_content c) in \<lparr>rm_Header = get_header (rs ! 0), rm_Sender = get_bytes (rs ! 1),
     rm_Data = get_bytes (rs ! 2), rm_Receiver = get_addr (rs ! 3), rm_GasLimit = get_word (rs ! 4),
     rm_TokenAmounts = get_list get_token (rs ! 5)\<rparr>)"

definition put_exec :: "(ref_address, tcell, ref_coins) ExecuteReport \<Rightarrow> tcell" where
  "put_exec r = TCell [] [put_word (er_SourceChainSelector r), put_list put_message (er_Messages r), put_list put_bytes (er_OffChainTokenData r),
     put_list put_bytes (er_Proofs r), put_u256 (er_ProofFlagBits r)]"

definition get_exec :: "tcell \<Rightarrow> (ref_address, tcell, ref_coins) ExecuteReport" where
  "get_exec c = (let rs = snd (tcell_content c) in \<lparr>er_SourceChainSelector = get_word (rs ! 0), er_Messages = get_list get_message (rs ! 1),
     er_OffChainTokenData = get_list get_bytes (rs ! 2), er_Proofs = get_list get_bytes (rs ! 3), er_ProofFlagBits = get_u256 (rs ! 4)\<rparr>)"

definition put_args :: "GenericExtraArgsV2 \<Rightarrow> tcell" where
  "put_args a = TCell (bits_of (evmExtraArgsV2Tag @ be_bytes 32 (case g_GasLimit a of None \<Rightarrow> 0 | Some n \<Rightarrow> nat n)) @ [g_AllowOutOfOrderExecution a]) []"

definition get_args :: "tcell content \<Rightarrow> GenericExtraArgsV2 res" where
  "get_args s = Inr \<lparr>g_GasLimit = Some (int (be_nat (bytes_of (take 256 (drop 32 (fst s)))))), g_AllowOutOfOrderExecution = fst s ! 288\<rparr>"

definition ref_extra :: "(tcell, tcell content) ExtraLib" where
  "ref_extra = \<lparr>x_FromBOC = ref_FromBOC, hexutil_Encode = map (\<lambda>b. char_of (unat b)), load_generic = get_args,
     load_svm = (\<lambda>s. Inl (Err ''magic is not correct''))\<rparr>"

definition ref_exec_lib :: "(tcell content, tcell, tcell content, ref_address, ref_coins) ExecLib" where
  "ref_exec_lib = \<lparr>e_cells = ref_lib, e_addr = ref_addr, e_rng = rev,
     DecodeTokenAmountDestExecData = (\<lambda>d sel. DecodeDestExecDataToMap d),
     DecodeExtraArgs = (\<lambda>x sel. DecodeExtraArgsToMap ref_lib ref_extra x),
     ZeroCoins = 0, FromNano = (\<lambda>n. if 0 \<le> n \<and> n < 2 ^ 120 then Inr (of_int n) else Inl (Err ''coins'')), Nano = uint,
     args_ToCell = (\<lambda>a. Inr (put_args a)), exec_ToCell = (\<lambda>r. Inr (put_exec r)),
     exec_LoadFromCell = (\<lambda>(xs, rs). Inr (get_exec (TCell xs rs), ([], []))),
     e_ToBOC = ref_ToBOC, e_FromBOC = ref_FromBOC\<rparr>"

lemma get_put_addr [simp]: "get_addr (put_addr a) = a"
  by (simp add: get_addr_def put_addr_def)

lemma get_put_header [simp]: "get_header (put_header h) = h"
  by (simp add: get_header_def put_header_def eval_nat_numeral)

lemma get_put_token: "token_fits std t \<Longrightarrow> get_token (put_token t) = t"
  by (auto simp: get_token_def put_token_def eval_nat_numeral token_fits_def u256_def get_put_u256 split: option.splits)

lemma get_put_message: "message_fits std m \<Longrightarrow> get_message (put_message m) = m"
  by (simp add: get_message_def put_message_def eval_nat_numeral message_fits_def get_put_list get_put_token [of std])

lemma get_put_exec: "report_fits std r \<Longrightarrow> get_exec (put_exec r) = r"
  by (simp add: get_exec_def put_exec_def eval_nat_numeral report_fits_def get_put_list get_put_message [of std] get_put_u256 u256_def split: option.splits)

lemma ref_exec_simps [simp]:
  "e_cells ref_exec_lib = ref_lib" "e_addr ref_exec_lib = ref_addr" "e_rng ref_exec_lib = rev"
  by (simp_all add: ref_exec_lib_def)

interpretation ref_exec: exec_laws ref_exec_lib "\<lambda>b. b" tcell_content "\<lambda>s. s" size "\<lambda>(w, d). length d = 32"
proof (intro exec_laws.intro exec_laws_axioms.intro, goal_cases)
  case 1
  show ?case by (simp add: ref.cell_laws_axioms)
next
  case 2
  show ?case by (simp add: ref_addr.addr_laws_axioms)
next
  case 3
  show ?case by (simp add: rng_rev.go_range_axioms)
next
  case (4 n)
  then have "uint (of_int n :: ref_coins) = n" by (simp add: unsigned_of_int take_bit_int_eq_self)
  with 4 show ?case by (simp add: ref_exec_lib_def)
next
  case 5
  show ?case by (simp add: ref_exec_lib_def)
next
  case (6 args)
  show ?case by (simp add: ref_exec_lib_def)
next
  case (7 r)
  obtain xs rs where c: "put_exec r = TCell xs rs" by (simp add: put_exec_def)
  with get_put_exec [OF 7] show ?case by (simp add: ref_codec_def ref_exec_lib_def) (simp add: ref_lib_def)
next
  case (8 c)
  show ?case by (simp add: ref_exec_lib_def)
qed

section \<open>Correctness\<close>

text \<open>
  The execute codec: a non-empty report whose chain reports are valid is encoded, and decoding
  the bytes gives back every chain report in order with all its messages, senders, receivers, data,
  token amounts and proofs. What changes is exactly \<open>view_report\<close>: the gas amount of a token is
  rewritten to four bytes, the extra arguments to the generic form with the same gas limit (0 when
  there was none), and of the offchain token data only that of the first message is kept.
\<close>

theorem Execute_roundtrip:
  assumes "exec_laws E bc cc sc depth std" "rs \<noteq> []" "\<forall>r \<in> set rs. valid_report E r"
  shows "\<exists>bs. Execute_Encode E rs = Some (Inr bs) \<and> Execute_Decode E bs = Some (Inr (map (view_report E) rs))"
  using assms by (rule exec_laws.execute_roundtrip)

definition sample_report :: ChainReport where
  "sample_report = \<lparr>cr_SourceChainSelector = 5, cr_Messages = [\<lparr>m_Header = \<lparr>h_MessageID = replicate 32 1, h_SourceChainSelector = 5,
       h_DestChainSelector = 6, h_SequenceNumber = 7, h_Nonce = 0\<rparr>, m_Sender = replicate 20 2, m_Data = replicate 200 3,
       m_Receiver = replicate 36 0, m_ExtraArgs = [],
       m_TokenAmounts = [\<lparr>ta_SourcePoolAddress = replicate 20 4, ta_DestTokenAddress = replicate 36 0, ta_ExtraData = [],
         ta_Amount = Some 1000, ta_DestExecData = [0, 0, 1, 0]\<rparr>]\<rparr>],
     cr_OffchainTokenData = [[[8], [9]]], cr_Proofs = [replicate 32 5], cr_ProofFlagBits = Some 0\<rparr>"

lemma raw_addr_zero: "raw_addr (replicate 36 0)"
  by (simp add: raw_addr_def replicate_4 be_nat_def)

lemma sample_valid: "valid_report ref_exec_lib sample_report"
proof -
  have gas: "token_gas ref_exec_lib 5 [0, 0, 1, 0] = Inr 256"
    using extract_dest [OF rng_rev.go_range_axioms, of "[0, 0, 1, 0]"] by (simp add: token_gas_def ref_exec_lib_def be_nat_def)
  show ?thesis
    by (simp add: sample_report_def valid_report_def valid_message_def valid_token_def raw_addr_zero gas u256_def message_gas_def)
qed

theorem Execute_roundtrip_witness:
  "\<exists>bs. Execute_Encode ref_exec_lib [sample_report, sample_report] = Some (Inr bs) \<and>
    Execute_Decode ref_exec_lib bs = Some (Inr (map (view_report ref_exec_lib) [sample_report, sample_report]))"
  by (rule Execute_roundtrip [OF ref_exec.exec_laws_axioms]) (simp_all add: sample_valid)

lemma encode_token_checks:
  "encode_token E sel t = Some (Inr tt) \<Longrightarrow>
     (\<exists>n \<ge> 0. ta_Amount t = Some n) \<and> length (ta_DestTokenAddress t) = 36 \<and> okE (token_gas E sel (ta_DestExecData t))"
  by (auto simp: encode_token_def token_gas_def okE_iff split: option.splits if_splits)

lemma encode_message_checks:
  assumes "encode_message E sel m = Some (Inr rm)"
  shows "length (m_Receiver m) = 36 \<and> okE (message_gas E sel (m_ExtraArgs m)) \<and> (\<forall>t \<in> set (m_TokenAmounts m). \<exists>tt. encode_token E sel t = Some (Inr tt))"
  using assms by (auto simp: encode_message_def AddressBytesToString_def okE_iff dest: mapO_okD split: if_splits)

text \<open>
  What the encoder lets through: if it returns bytes, then the report was empty and the bytes are
  none, or every token of every message had an amount, not negative, a destination of 36
  bytes and a gas amount that the source chain's codec could read, and every receiver had 36
  bytes.
\<close>

theorem Execute_Encode_checks:
  assumes "Execute_Encode E rs = Some (Inr bs)"
  shows "(rs = [] \<and> bs = []) \<or> (\<forall>r \<in> set rs. \<forall>m \<in> set (cr_Messages r). length (m_Receiver m) = 36 \<and>
    okE (message_gas E (cr_SourceChainSelector r) (m_ExtraArgs m)) \<and>
    (\<forall>t \<in> set (m_TokenAmounts m). (\<exists>n \<ge> 0. ta_Amount t = Some n) \<and> length (ta_DestTokenAddress t) = 36 \<and>
       okE (token_gas E (cr_SourceChainSelector r) (ta_DestExecData t))))"
proof (cases "rs = []")
  case True
  with assms show ?thesis by (simp add: Execute_Encode_def)
next
  case False
  with assms obtain ers where ers: "mapO (encode_chain E) rs = Some (Inr ers)" by (auto simp: Execute_Encode_def)
  have "\<exists>rm. encode_message E (cr_SourceChainSelector r) m = Some (Inr rm)" if "r \<in> set rs" "m \<in> set (cr_Messages r)" for r m
    using mapO_okD [OF ers that(1)] that(2) by (auto simp: encode_chain_def dest: mapO_okD)
  then show ?thesis by (meson encode_message_checks encode_token_checks)
qed

theorem Execute_Encode_checks_witness:
  "\<exists>bs. Execute_Encode ref_exec_lib [sample_report] = Some (Inr bs) \<and> ([sample_report] = [] \<and> bs = [] \<or>
    (\<forall>r \<in> set [sample_report]. \<forall>m \<in> set (cr_Messages r). length (m_Receiver m) = 36 \<and>
    okE (message_gas ref_exec_lib (cr_SourceChainSelector r) (m_ExtraArgs m)) \<and>
    (\<forall>t \<in> set (m_TokenAmounts m). (\<exists>n \<ge> 0. ta_Amount t = Some n) \<and> length (ta_DestTokenAddress t) = 36 \<and>
       okE (token_gas ref_exec_lib (cr_SourceChainSelector r) (ta_DestExecData t)))))"
proof -
  obtain bs where bs: "Execute_Encode ref_exec_lib [sample_report] = Some (Inr bs)"
    using ref_exec.execute_roundtrip [of "[sample_report]"] sample_valid by auto
  with Execute_Encode_checks [OF this] show ?thesis by blast
qed

text \<open>
  Reports can be encoded again: where the source chain is TON itself, so that extra arguments are
  read by the decoder of \<open>Extra_Data_Codec\<close>, the extra arguments that \<open>Decode\<close> writes are read back
  with the gas limit they were written for.
\<close>

theorem Execute_gas_stable:
  assumes "exec_laws E bc cc sc depth std" "DecodeExtraArgs E = (\<lambda>x sel. DecodeExtraArgsToMap (e_cells E) X x)"
    and "x_FromBOC X = e_FromBOC E"
    and "\<forall>args c. u256 (g_GasLimit args) \<longrightarrow> args_ToCell E args = Inr c \<longrightarrow> 4 \<le> length (e_ToBOC E c) \<and>
      load_generic X (BeginParse (e_cells E) c) = Inr args \<and> (\<exists>s. LoadSlice (e_cells E) (BeginParse (e_cells E) c) 32 = Inr (evmExtraArgsV2Tag, s))"
    and "message_gas E sel x = Inr og" "g = (case og of None \<Rightarrow> 0 | Some g \<Rightarrow> g)" "u256 (Some g)"
  shows "message_gas E sel (view_args E sel x) = Inr (Some g)"
proof -
  let ?args = "\<lparr>g_GasLimit = Some g, g_AllowOutOfOrderExecution = True\<rparr>"
  have fits: "u256 (g_GasLimit ?args)" using assms(7) by simp
  then obtain c where c: "args_ToCell E ?args = Inr c" using exec_laws.args_cell [OF assms(1), of ?args] by (auto simp: okE_iff)
  with fits assms(4) obtain s where s: "load_generic X (BeginParse (e_cells E) c) = Inr ?args"
    "LoadSlice (e_cells E) (BeginParse (e_cells E) c) 32 = Inr (evmExtraArgsV2Tag, s)" and len: "4 \<le> length (e_ToBOC E c)" by blast
  have view: "view_args E sel x = e_ToBOC E c" using assms(5,6) c by (simp add: view_args_def)
  have "DecodeExtraArgsToMap (e_cells E) X (e_ToBOC E c) = Inr (generic_fields ?args)"
    using len s exec_laws.boc [OF assms(1), of c] assms(3) by (simp add: DecodeExtraArgsToMap_def)
  with view len assms(2) extract_generic [OF exec_laws.rng [OF assms(1)], of ?args] show ?thesis by (auto simp: message_gas_def)
qed

lemma ref_args:
  assumes "u256 (g_GasLimit args)"
  shows "4 \<le> length (ref_ToBOC (put_args args)) \<and> get_args (BeginParse ref_lib (put_args args)) = Inr args \<and>
    (\<exists>s. LoadSlice ref_lib (BeginParse ref_lib (put_args args)) 32 = Inr (evmExtraArgsV2Tag, s))"
proof -
  obtain n where n: "g_GasLimit args = Some n" "0 \<le> n" "nat n < 256 ^ 32"
    using assms by (auto simp: u256_def nat_less_iff split: option.splits)
  let ?b = "be_bytes 32 (nat n)" and ?o = "[g_AllowOutOfOrderExecution args]"
  have tag: "length (bits_of evmExtraArgsV2Tag) = 32" by (simp add: evmExtraArgsV2Tag_def)
  have xs: "put_args args = TCell (bits_of evmExtraArgsV2Tag @ bits_of ?b @ ?o) []" using n by (simp add: put_args_def)
  have "take 256 (drop 32 (bits_of evmExtraArgsV2Tag @ bits_of ?b @ ?o)) = bits_of ?b" using tag by simp
  moreover have "(bits_of evmExtraArgsV2Tag @ bits_of ?b @ ?o) ! 288 = g_AllowOutOfOrderExecution args" using tag by (simp add: nth_append)
  moreover have "take 32 (bits_of evmExtraArgsV2Tag @ bits_of ?b @ ?o) = bits_of evmExtraArgsV2Tag" using tag by simp
  ultimately show ?thesis using n unfolding xs by (simp add: ref_lib_def get_args_def be_nat_bytes)
qed

theorem Execute_gas_stable_witness:
  "message_gas ref_exec_lib 5 (view_args ref_exec_lib 5 []) = Inr (Some 0)"
  by (rule Execute_gas_stable [OF ref_exec.exec_laws_axioms, where X = ref_extra and og = None])
    (use ref_args in \<open>auto simp: ref_exec_lib_def ref_extra_def message_gas_def u256_def\<close>)

end
