(* ===== verification/Ocr_Wire.thy ===== *)
theory Ocr_Wire
  imports Tlb_Layout Commit_Codec Execute_Codec
begin

text \<open>
  The wire format of the reports (\<open>pkg/ccip/bindings/ocr/commitreport.go\<close> and \<open>executereport.go\<close>): the
  layouts of their structs and the conversion between the records of the codecs and the field values
  of a layout. With it the codecs' assumption that \<open>tlb.ToCell\<close> and \<open>tlb.LoadFromCell\<close> invert each
  other on reports that fit (\<open>report_cell\<close> of \<open>commit_laws\<close> and \<open>exec_laws\<close>) is derived from the tags of the
  structs. Everything else the codecs call stays a parameter: the address package, coins, the BOC format, the order of map
  iteration and the source chain's codec of extra data are those of a library that \<open>wire_commit\<close> and \<open>wire_exec\<close> take.
  On the wire an address is its workchain and data; \<open>LoadAddr\<close> makes an address without flags of them.

  Layouts with a cross-chain address stored in the struct take the most bytes \<open>k\<close> it may have; the
  encoding does not depend on it, and the type itself allows 64.
\<close>

section \<open>Layouts\<close>

definition TokenPriceUpdate_layout :: "atom list" where
  "TokenPriceUpdate_layout = [Addr, UInt 256]"

definition GasPriceUpdate_layout :: "atom list" where
  "GasPriceUpdate_layout = [UInt 64, UInt 256]"

definition MerkleRoot_layout :: "atom list" where
  "MerkleRoot_layout = [UInt 64, XAddr 64, UInt 64, UInt 64, BitsTag 256]"

definition PriceUpdates_layout :: layout where
  "PriceUpdates_layout = [SnakeTo TokenPriceUpdate_layout, SnakeTo GasPriceUpdate_layout]"

definition MerkleRoots_layout :: layout where
  "MerkleRoots_layout = [SnakeTo MerkleRoot_layout, SnakeTo MerkleRoot_layout]"

definition CommitReport_layout :: layout where
  "CommitReport_layout = [RefTo PriceUpdates_layout, RefTo MerkleRoots_layout, BytesListTo]"

definition RampMessageHeader_layout :: layout where
  "RampMessageHeader_layout = [Plain (BitsTag 256), Plain (UInt 64), Plain (UInt 64), Plain (UInt 64), Plain (UInt 64)]"

definition Any2TVMTokenTransfer_layout :: "nat \<Rightarrow> layout" where
  "Any2TVMTokenTransfer_layout k = [Plain (XAddr k), Plain Addr, Plain (UInt 32), Plain CellRef, Plain (UInt 256)]"

definition Any2TVMRampMessage_layout :: "nat \<Rightarrow> layout" where
  "Any2TVMRampMessage_layout k = RampMessageHeader_layout @
     [RefTo [Plain (XAddr 64)], BytesTo, Plain Addr, Plain Coins, SnakeRefTo (Any2TVMTokenTransfer_layout k)]"

definition ExecuteReport_layout :: "nat \<Rightarrow> layout" where
  "ExecuteReport_layout k = [Plain (UInt 64), SnakeRefTo (Any2TVMRampMessage_layout k), BytesListTo, BytesListTo, Plain (UInt 256)]"

text \<open>The extra arguments of \<open>pkg/ccip/bindings/onramp/onramp.go\<close> that the codec rewrites a message's to.\<close>

definition GenericExtraArgsV2_layout :: layout where
  "GenericExtraArgsV2_layout = [Plain (Magic 0x181dcf10), Plain (UInt 256), Plain BoolTag]"

lemmas commit_layouts = TokenPriceUpdate_layout_def GasPriceUpdate_layout_def MerkleRoot_layout_def PriceUpdates_layout_def
  MerkleRoots_layout_def CommitReport_layout_def

lemmas exec_layouts = RampMessageHeader_layout_def Any2TVMTokenTransfer_layout_def Any2TVMRampMessage_layout_def ExecuteReport_layout_def

lemma CommitReport_wf: "layout_wf CommitReport_layout"
  by (simp add: commit_layouts layout_wf_def layout_fits_def element_wf_def)

lemma GenericExtraArgsV2_wf: "layout_wf GenericExtraArgsV2_layout"
  by (simp add: GenericExtraArgsV2_layout_def layout_wf_def layout_fits_def)

text \<open>A token transfer fits into a cell with up to 57 bytes of pool address.\<close>

lemma ExecuteReport_wf: "layout_wf (ExecuteReport_layout 57)"
  by (simp add: exec_layouts layout_wf_def layout_fits_def)

text \<open>The limit does not change the encoding.\<close>

lemma XAddr_enc: "atom_enc (XAddr k) = atom_enc (XAddr 64)"
proof
  fix v
  show "atom_enc (XAddr k) v = atom_enc (XAddr 64) v" by (cases v) simp_all
qed

lemma XAddr_dec: "atom_dec (XAddr k) = atom_dec (XAddr 64)"
  by (rule ext) simp

lemma transfer_codec:
  "map tag_enc (Any2TVMTokenTransfer_layout k) = map tag_enc (Any2TVMTokenTransfer_layout 64)"
  "map tag_dec (Any2TVMTokenTransfer_layout k) = map tag_dec (Any2TVMTokenTransfer_layout 64)"
  by (simp_all only: Any2TVMTokenTransfer_layout_def list.map tag_enc.simps tag_dec.simps XAddr_enc [of k] XAddr_dec [of k])

lemma message_codec:
  "map tag_enc (Any2TVMRampMessage_layout k) = map tag_enc (Any2TVMRampMessage_layout 64)"
  "map tag_dec (Any2TVMRampMessage_layout k) = map tag_dec (Any2TVMRampMessage_layout 64)"
  by (simp_all only: Any2TVMRampMessage_layout_def list.map map_append tag_enc.simps tag_dec.simps transfer_codec [of k])

lemma ExecuteReport_codec:
  "struct_enc (ExecuteReport_layout k) = struct_enc (ExecuteReport_layout 64)"
  "struct_dec (ExecuteReport_layout k) = struct_dec (ExecuteReport_layout 64)"
proof -
  have "map tag_enc (ExecuteReport_layout k) = map tag_enc (ExecuteReport_layout 64)"
    "map tag_dec (ExecuteReport_layout k) = map tag_dec (ExecuteReport_layout 64)"
    by (simp_all only: ExecuteReport_layout_def list.map tag_enc.simps tag_dec.simps message_codec [of k])
  then show "struct_enc (ExecuteReport_layout k) = struct_enc (ExecuteReport_layout 64)"
    "struct_dec (ExecuteReport_layout k) = struct_dec (ExecuteReport_layout 64)"
    by (simp_all add: struct_enc_def struct_dec_def fun_eq_iff)
qed

section \<open>Records and values\<close>

text \<open>The fields of loaded values; \<open>LoadFromCell\<close> only returns values of the right shape.\<close>

definition int_of :: "val \<Rightarrow> int" where
  "int_of v = (case v of IntV i \<Rightarrow> i | _ \<Rightarrow> 0)"

definition bytes_of_val :: "val \<Rightarrow> bytes" where
  "bytes_of_val v = (case v of BytesV bs \<Rightarrow> bs | _ \<Rightarrow> [])"

definition addr_val :: "'a AddrLib \<Rightarrow> 'a \<Rightarrow> val" where
  "addr_val A a = AddrV (Some (ucast (Workchain A a), Addr_Data A a))"

definition addr_of :: "'a AddrLib \<Rightarrow> val \<Rightarrow> 'a" where
  "addr_of A v = (case v of AddrV (Some (w, d)) \<Rightarrow> NewAddress A 0 w d | _ \<Rightarrow> NewAddress A 0 0 [])"

definition cell_of :: "val \<Rightarrow> tcell option" where
  "cell_of v = (case v of CellV c \<Rightarrow> Some c | _ \<Rightarrow> None)"

definition fields_of :: "val \<Rightarrow> val list" where
  "fields_of v = (case v of StructV vs \<Rightarrow> vs | _ \<Rightarrow> [])"

definition elements_of :: "val \<Rightarrow> val list list" where
  "elements_of v = (case v of ListV vss \<Rightarrow> vss | _ \<Rightarrow> [])"

lemmas val_parts = int_of_def bytes_of_val_def addr_of_def cell_of_def fields_of_def elements_of_def eval_nat_numeral

definition big_val :: "int option \<Rightarrow> val" where
  "big_val i = (case i of None \<Rightarrow> NilV | Some n \<Rightarrow> IntV n)"

definition cell_val :: "tcell option \<Rightarrow> val" where
  "cell_val c = (case c of None \<Rightarrow> NilV | Some c \<Rightarrow> CellV c)"

definition bytes_vals :: "bytes list \<Rightarrow> val" where
  "bytes_vals bss = ListV (map (\<lambda>bs. [BytesV bs]) bss)"

definition bytes_list_of :: "val \<Rightarrow> bytes list" where
  "bytes_list_of v = map (\<lambda>vs. bytes_of_val (vs ! 0)) (elements_of v)"

definition tpu_vals :: "'a AddrLib \<Rightarrow> 'a TokenPriceUpdate \<Rightarrow> val list" where
  "tpu_vals A u = [addr_val A (SourceToken u), big_val (UsdPerToken u)]"

definition tpu_of :: "'a AddrLib \<Rightarrow> val list \<Rightarrow> 'a TokenPriceUpdate" where
  "tpu_of A vs = \<lparr>SourceToken = addr_of A (vs ! 0), UsdPerToken = Some (int_of (vs ! 1))\<rparr>"

definition gpu_vals :: "GasPriceUpdate \<Rightarrow> val list" where
  "gpu_vals u = [IntV (uint (DestChainSelector u)), big_val (UsdPerUnitGas u)]"

definition gpu_of :: "val list \<Rightarrow> GasPriceUpdate" where
  "gpu_of vs = \<lparr>DestChainSelector = word_of_int (int_of (vs ! 0)), UsdPerUnitGas = Some (int_of (vs ! 1))\<rparr>"

definition root_vals :: "MerkleRoot \<Rightarrow> val list" where
  "root_vals r = [IntV (uint (SourceChainSelector r)), BytesV (OnRampAddress r), IntV (uint (MinSeqNr r)), IntV (uint (MaxSeqNr r)),
     BytesV (MerkleRoot_bits r)]"

definition root_of :: "val list \<Rightarrow> MerkleRoot" where
  "root_of vs = \<lparr>SourceChainSelector = word_of_int (int_of (vs ! 0)), OnRampAddress = bytes_of_val (vs ! 1),
     MinSeqNr = word_of_int (int_of (vs ! 2)), MaxSeqNr = word_of_int (int_of (vs ! 3)), MerkleRoot_bits = bytes_of_val (vs ! 4)\<rparr>"

definition commit_vals :: "'a AddrLib \<Rightarrow> 'a CommitReport \<Rightarrow> val list" where
  "commit_vals A r =
     [StructV [ListV (map (tpu_vals A) (TokenPriceUpdates (c_PriceUpdates r))), ListV (map gpu_vals (GasPriceUpdates (c_PriceUpdates r)))],
      StructV [ListV (map root_vals (BlessedMerkleRoots (c_MerkleRoot r))), ListV (map root_vals (UnblessedMerkleRoots (c_MerkleRoot r)))],
      bytes_vals (c_RMNSignatures r)]"

definition commit_of :: "'a AddrLib \<Rightarrow> val list \<Rightarrow> 'a CommitReport" where
  "commit_of A vs = (let p = fields_of (vs ! 0); m = fields_of (vs ! 1) in
     \<lparr>c_PriceUpdates = \<lparr>TokenPriceUpdates = map (tpu_of A) (elements_of (p ! 0)), GasPriceUpdates = map gpu_of (elements_of (p ! 1))\<rparr>,
      c_MerkleRoot = \<lparr>BlessedMerkleRoots = map root_of (elements_of (m ! 0)), UnblessedMerkleRoots = map root_of (elements_of (m ! 1))\<rparr>,
      c_RMNSignatures = bytes_list_of (vs ! 2)\<rparr>)"

definition token_vals :: "'a AddrLib \<Rightarrow> ('a, tcell) Any2TVMTokenTransfer \<Rightarrow> val list" where
  "token_vals A t = [BytesV (tt_SourcePoolAddress t), addr_val A (tt_DestPoolAddress t), IntV (uint (tt_DestGasAmount t)),
     cell_val (tt_ExtraData t), big_val (tt_Amount t)]"

definition token_of :: "'a AddrLib \<Rightarrow> val list \<Rightarrow> ('a, tcell) Any2TVMTokenTransfer" where
  "token_of A vs = \<lparr>tt_SourcePoolAddress = bytes_of_val (vs ! 0), tt_DestPoolAddress = addr_of A (vs ! 1),
     tt_DestGasAmount = word_of_int (int_of (vs ! 2)), tt_ExtraData = cell_of (vs ! 3), tt_Amount = Some (int_of (vs ! 4))\<rparr>"

definition header_vals :: "RampMessageHeader \<Rightarrow> val list" where
  "header_vals h = [BytesV (h_MessageID h), IntV (uint (h_SourceChainSelector h)), IntV (uint (h_DestChainSelector h)),
     IntV (uint (h_SequenceNumber h)), IntV (uint (h_Nonce h))]"

definition header_of :: "val list \<Rightarrow> RampMessageHeader" where
  "header_of vs = \<lparr>h_MessageID = bytes_of_val (vs ! 0), h_SourceChainSelector = word_of_int (int_of (vs ! 1)),
     h_DestChainSelector = word_of_int (int_of (vs ! 2)), h_SequenceNumber = word_of_int (int_of (vs ! 3)), h_Nonce = word_of_int (int_of (vs ! 4))\<rparr>"

text \<open>An amount of coins is stored in nano and read back from them.\<close>

type_synonym ('a, 'k) wire_lib = "(tcell content, tcell, tcell content, 'a, 'k) ExecLib"

definition coins_of :: "('a, 'k) wire_lib \<Rightarrow> val \<Rightarrow> 'k" where
  "coins_of E v = (case FromNano E (int_of v) of Inr k \<Rightarrow> k | Inl _ \<Rightarrow> ZeroCoins E)"

definition message_vals :: "('a, 'k) wire_lib \<Rightarrow> ('a, tcell, 'k) Any2TVMRampMessage \<Rightarrow> val list" where
  "message_vals E m = header_vals (rm_Header m) @ [StructV [BytesV (rm_Sender m)], BytesV (rm_Data m), addr_val (e_addr E) (rm_Receiver m),
     IntV (Nano E (rm_GasLimit m)), ListV (map (token_vals (e_addr E)) (rm_TokenAmounts m))]"

definition message_of :: "('a, 'k) wire_lib \<Rightarrow> val list \<Rightarrow> ('a, tcell, 'k) Any2TVMRampMessage" where
  "message_of E vs = \<lparr>rm_Header = header_of (take 5 vs), rm_Sender = bytes_of_val (fields_of (vs ! 5) ! 0), rm_Data = bytes_of_val (vs ! 6),
     rm_Receiver = addr_of (e_addr E) (vs ! 7), rm_GasLimit = coins_of E (vs ! 8), rm_TokenAmounts = map (token_of (e_addr E)) (elements_of (vs ! 9))\<rparr>"

definition exec_vals :: "('a, 'k) wire_lib \<Rightarrow> ('a, tcell, 'k) ExecuteReport \<Rightarrow> val list" where
  "exec_vals E r = [IntV (uint (er_SourceChainSelector r)), ListV (map (message_vals E) (er_Messages r)), bytes_vals (er_OffChainTokenData r),
     bytes_vals (er_Proofs r), big_val (er_ProofFlagBits r)]"

definition exec_of :: "('a, 'k) wire_lib \<Rightarrow> val list \<Rightarrow> ('a, tcell, 'k) ExecuteReport" where
  "exec_of E vs = \<lparr>er_SourceChainSelector = word_of_int (int_of (vs ! 0)), er_Messages = map (message_of E) (elements_of (vs ! 1)),
     er_OffChainTokenData = bytes_list_of (vs ! 2), er_Proofs = bytes_list_of (vs ! 3), er_ProofFlagBits = Some (int_of (vs ! 4))\<rparr>"

section \<open>Values are well typed and come back\<close>

lemma uint_typed: "atom_typed (UInt LENGTH('w)) (IntV (uint (w :: 'w::len word)))"
  by simp

lemma uint64_typed [simp]: "uint (w :: u64) < 18446744073709551616" and uint32_typed [simp]: "uint (g :: u32) < 4294967296"
  using uint_typed [of w] uint_typed [of g] by simp_all

lemma bytes_list_of_vals [simp]: "bytes_list_of (bytes_vals bss) = bss"
  by (simp add: bytes_list_of_def bytes_vals_def elements_of_def bytes_of_val_def comp_def)

lemma bytes_vals_typed [simp]: "tag_typed BytesListTo (bytes_vals bss)"
  by (auto simp: bytes_vals_def list_all_iff)

text \<open>An address without flags: the one that is read back from the wire.\<close>

definition unflagged :: "'a AddrLib \<Rightarrow> 'a \<Rightarrow> 'a" where
  "unflagged A a = NewAddress A 0 (ucast (Workchain A a)) (Addr_Data A a)"

abbreviation plain_addr :: "'a AddrLib \<Rightarrow> ('a \<Rightarrow> bool) \<Rightarrow> 'a \<Rightarrow> bool" where
  "plain_addr A std \<equiv> \<lambda>a. std a \<and> unflagged A a = a"

context addr_laws
begin

lemma unflagged_std: "std a \<Longrightarrow> std (unflagged A a)"
  by (simp add: unflagged_def new_std std_data)

lemma unflagged_pair: "std a \<Longrightarrow> addr_val A (unflagged A a) = addr_val A a"
  using std_workchain [of a] by (auto simp: addr_val_def unflagged_def new_workchain new_data)

lemma unflagged_twice: "std a \<Longrightarrow> unflagged A (unflagged A a) = unflagged A a"
  using unflagged_pair [of a] by (simp add: addr_val_def unflagged_def)

lemma plain_laws: "addr_laws A (plain_addr A std)"
proof (unfold_locales, goal_cases)
  case (1 d w)
  then show ?case by (simp add: new_std unflagged_def new_workchain new_data)
qed (use new_workchain new_data parse_string std_data std_workchain friendly in auto)

lemma addr_val_typed: "std a \<Longrightarrow> atom_typed Addr (addr_val A a)"
  by (simp add: addr_val_def address_typed_def std_data)

lemma addr_of_val: "addr_of A (addr_val A a) = unflagged A a"
  by (simp add: addr_of_def addr_val_def unflagged_def)

lemma commit_typed:
  assumes "commit_fits std r"
  shows "struct_typed CommitReport_layout (commit_vals A r)"
proof -
  have "atoms_typed TokenPriceUpdate_layout (tpu_vals A u)" if "std (SourceToken u)" "price_fits (UsdPerToken u)" for u
    using that addr_val_typed
    by (auto simp: atoms_typed_def TokenPriceUpdate_layout_def tpu_vals_def big_val_def price_fits_def split: option.splits)
  moreover have "atoms_typed GasPriceUpdate_layout (gpu_vals u)" if "price_fits (UsdPerUnitGas u)" for u
    using that by (auto simp: atoms_typed_def GasPriceUpdate_layout_def gpu_vals_def big_val_def price_fits_def split: option.splits)
  moreover have "atoms_typed MerkleRoot_layout (root_vals m)" if "root_fits m" for m
    using that by (simp add: atoms_typed_def MerkleRoot_layout_def root_vals_def root_fits_def)
  ultimately show ?thesis
    using assms by (simp add: struct_typed_def commit_vals_def CommitReport_layout_def PriceUpdates_layout_def MerkleRoots_layout_def
        commit_fits_def list_all_iff ball_Un bytes_vals_def)
qed

lemma commit_of_vals:
  assumes "commit_fits (plain_addr A std) r"
  shows "commit_of A (commit_vals A r) = r"
proof -
  have "tpu_of A (tpu_vals A u) = u" if "price_fits (UsdPerToken u)" "unflagged A (SourceToken u) = SourceToken u" for u
    using that addr_of_val by (auto simp: tpu_of_def tpu_vals_def big_val_def price_fits_def int_of_def split: option.splits)
  moreover have "gpu_of (gpu_vals u) = u" if "price_fits (UsdPerUnitGas u)" for u
    using that by (auto simp: gpu_of_def gpu_vals_def big_val_def price_fits_def val_parts split: option.splits)
  moreover have "root_of (root_vals m) = m" for m by (simp add: root_vals_def root_of_def val_parts)
  ultimately show ?thesis
    using assms by (simp add: commit_of_def commit_vals_def commit_fits_def fields_of_def elements_of_def map_idI eval_nat_numeral)
qed

lemma transfer_typed:
  assumes "token_fits std t" "k = 57 \<or> k = 64"
  shows "fields_typed (map tag_typed (Any2TVMTokenTransfer_layout k)) (token_vals A t)"
  using assms addr_val_typed
  by (auto simp: Any2TVMTokenTransfer_layout_def token_vals_def token_fits_def u256_def big_val_def cell_val_def split: option.splits)

lemma token_of_vals: "token_fits (plain_addr A std) t \<Longrightarrow> token_of A (token_vals A t) = t"
  using addr_of_val
  by (auto simp: token_of_def token_vals_def token_fits_def u256_def big_val_def cell_val_def int_of_def bytes_of_val_def cell_of_def
      eval_nat_numeral split: option.splits)

end

section \<open>The codecs over the wire\<close>

text \<open>
  A library of the codecs with \<open>tlb.ToCell\<close> and \<open>tlb.LoadFromCell\<close> applied to the structs of the reports and of the
  extra arguments; the rest of the library is left as it is.
\<close>

definition wire_commit ::
  "(layout \<Rightarrow> val list \<Rightarrow> tcell res) \<Rightarrow> (layout \<Rightarrow> tcell \<Rightarrow> val list res option) \<Rightarrow> (tcell, tcell, 'a) CommitLib \<Rightarrow> (tcell, tcell, 'a) CommitLib" where
  "wire_commit ToCell LoadFromCell K = K\<lparr>k_BeginParse := (\<lambda>c. c),
     commit_ToCell := (\<lambda>r. ToCell CommitReport_layout (commit_vals (k_addr K) r)),
     commit_LoadFromCell := (\<lambda>c. map_sum id (commit_of (k_addr K)) (returning (LoadFromCell CommitReport_layout c)))\<rparr>"

definition wire_exec ::
  "(layout \<Rightarrow> val list \<Rightarrow> tcell res) \<Rightarrow> (layout \<Rightarrow> tcell \<Rightarrow> val list res option) \<Rightarrow> ('a, 'k) wire_lib \<Rightarrow> ('a, 'k) wire_lib" where
  "wire_exec ToCell LoadFromCell E = E\<lparr>args_ToCell := (\<lambda>a. ToCell GenericExtraArgsV2_layout [UnitV, big_val (g_GasLimit a), BoolV (g_AllowOutOfOrderExecution a)]),
     exec_ToCell := (\<lambda>r. ToCell (ExecuteReport_layout 64) (exec_vals E r)),
     exec_LoadFromCell := (\<lambda>(xs, rs). map_sum id (\<lambda>vs. (exec_of E vs, ([], []))) (returning (LoadFromCell (ExecuteReport_layout 64) (TCell xs rs))))\<rparr>"

text \<open>
  What the codecs rely on beside the TL-B package: the laws of addresses, that \<open>ToBOC\<close> is undone by \<open>FromBOC\<close>, that map
  iteration visits every entry, and that coins are amounts in nano below \<open>2 ^ 120\<close>.
\<close>

locale commit_wire_laws = tlb_laws ToCell LoadFromCell + addr_laws "k_addr K" std
  for ToCell LoadFromCell and K :: "(tcell, tcell, 'a) CommitLib" and std +
  assumes commit_boc: "k_FromBOC K (k_ToBOC K c) = Inr c"

locale exec_wire_laws = tlb_laws ToCell LoadFromCell + cell_laws "e_cells E" "\<lambda>b. b" tcell_content "\<lambda>s. s" size +
  addr_laws "e_addr E" std
  for ToCell LoadFromCell and E :: "('a, 'k) wire_lib" and std +
  assumes exec_boc: "e_FromBOC E (e_ToBOC E c) = Inr c"
    and exec_rng: "go_range (e_rng E)"
    and from_nano: "0 \<le> n \<Longrightarrow> n < 2 ^ 120 \<Longrightarrow> \<exists>k. FromNano E n = Inr k \<and> Nano E k = n"
    and nano: "0 \<le> Nano E k \<and> Nano E k < 2 ^ 120 \<and> FromNano E (Nano E k) = Inr k"
    and nano_zero: "Nano E (ZeroCoins E) = 0"

text \<open>A commit report with its token ids reprinted without flags.\<close>

definition plain_id :: "'a AddrLib \<Rightarrow> string \<Rightarrow> string" where
  "plain_id A s = (case ParseAddr A s of Inr a \<Rightarrow> Addr_String A (unflagged A a) | Inl _ \<Rightarrow> s)"

definition view_commit :: "'a AddrLib \<Rightarrow> CommitPluginReport \<Rightarrow> CommitPluginReport" where
  "view_commit A r = r\<lparr>p_TokenPriceUpdates := map (\<lambda>t. t\<lparr>tp_TokenID := plain_id A (tp_TokenID t)\<rparr>) (p_TokenPriceUpdates r)\<rparr>"

context commit_wire_laws
begin

lemma commit_wire: "commit_laws (wire_commit ToCell LoadFromCell K) (plain_addr (k_addr K) std)"
proof (intro commit_laws.intro commit_laws_axioms.intro, goal_cases)
  case 1
  show ?case using plain_laws by (simp add: wire_commit_def)
next
  case (2 r)
  then have "commit_fits std r" by (auto simp: commit_fits_def)
  from roundtrip [OF CommitReport_wf commit_typed [OF this]] commit_of_vals [OF 2]
  show ?case by (auto simp: wire_commit_def returning_def)
next
  case (3 c)
  show ?case by (simp add: wire_commit_def commit_boc)
qed

text \<open>Flags do not reach the wire.\<close>

lemma plain_id_String: "std a \<Longrightarrow> plain_id (k_addr K) (Addr_String (k_addr K) a) = Addr_String (k_addr K) (unflagged (k_addr K) a)"
  by (simp add: plain_id_def parse_string)

lemma commit_encode_plain:
  assumes "valid_commit K std r"
  shows "Commit_Encode (wire_commit ToCell LoadFromCell K) r = Commit_Encode (wire_commit ToCell LoadFromCell K) (view_commit (k_addr K) r)"
proof -
  let ?W = "wire_commit ToCell LoadFromCell K" and ?A = "k_addr K"
  let ?enc = "\<lambda>t. \<lparr>SourceToken = projr (ParseAddr ?A (tp_TokenID t)), UsdPerToken = tp_Price t\<rparr>"
  let ?view = "\<lambda>t. t\<lparr>tp_TokenID := plain_id ?A (tp_TokenID t)\<rparr>"
  have W: "k_addr ?W = ?A" "commit_ToCell ?W = (\<lambda>r. ToCell CommitReport_layout (commit_vals ?A r))"
    by (simp_all add: wire_commit_def)
  have tok: "encode_tpu ?W t = Inr (?enc t) \<and> encode_tpu ?W (?view t) = Inr (?enc (?view t)) \<and>
      tpu_vals ?A (?enc (?view t)) = tpu_vals ?A (?enc t)" if "t \<in> set (p_TokenPriceUpdates r)" for t
  proof -
    from assms that obtain a where a: "std a" "tp_TokenID t = Addr_String ?A a" and "price_fits (tp_Price t)"
      by (auto simp: valid_commit_def)
    then obtain n where n: "tp_Price t = Some n" by (auto simp: price_fits_def split: option.splits)
    show ?thesis
      using a n unflagged_std [OF a(1)] unflagged_pair [OF a(1)]
      by (simp add: encode_tpu_def W parse_string plain_id_String tpu_vals_def)
  qed
  have "mapE (encode_tpu ?W) (p_TokenPriceUpdates r) = Inr (map ?enc (p_TokenPriceUpdates r))"
    "mapE (encode_tpu ?W) (map ?view (p_TokenPriceUpdates r)) = Inr (map (\<lambda>t. ?enc (?view t)) (p_TokenPriceUpdates r))"
    using tok by (auto simp: mapE_map intro!: mapE_all_Inr)
  moreover have "map (\<lambda>t. tpu_vals ?A (?enc (?view t))) (p_TokenPriceUpdates r) = map (\<lambda>t. tpu_vals ?A (?enc t)) (p_TokenPriceUpdates r)"
    using tok by simp
  ultimately show ?thesis
    by (simp add: Commit_Encode_def view_commit_def W commit_vals_def comp_def cong: map_cong)
qed

lemma commit_wire_roundtrip:
  assumes "valid_commit K std r"
  shows "\<exists>bs. Commit_Encode (wire_commit ToCell LoadFromCell K) r = Inr bs \<and>
    Commit_Decode (wire_commit ToCell LoadFromCell K) bs = Inr (view_commit (k_addr K) r)"
proof -
  let ?A = "k_addr K"
  have "\<exists>b. (std b \<and> unflagged ?A b = b) \<and> plain_id ?A (tp_TokenID t) = Addr_String ?A b" if "t \<in> set (p_TokenPriceUpdates r)" for t
  proof -
    from assms that obtain a where a: "std a" "tp_TokenID t = Addr_String ?A a" by (auto simp: valid_commit_def)
    then show ?thesis using plain_id_String unflagged_std unflagged_twice by (intro exI [of _ "unflagged ?A a"]) simp
  qed
  with assms have "valid_commit (wire_commit ToCell LoadFromCell K) (plain_addr ?A std) (view_commit ?A r)"
    by (auto simp: valid_commit_def view_commit_def wire_commit_def)
  from commit_laws.commit_roundtrip [OF commit_wire this] commit_encode_plain [OF assms] show ?thesis by simp
qed

end

context exec_wire_laws
begin

lemma message_typed:
  assumes "message_fits std m" "k = 57 \<or> k = 64"
  shows "fields_typed (map tag_typed (Any2TVMRampMessage_layout k)) (message_vals E m)"
proof -
  have "list_all (fields_typed (map tag_typed (Any2TVMTokenTransfer_layout k))) (map (token_vals (e_addr E)) (rm_TokenAmounts m))"
    using assms transfer_typed by (simp add: list_all_iff message_fits_def)
  moreover have "atom_typed Coins (IntV (Nano E (rm_GasLimit m)))" using nano by simp
  moreover have "atom_typed Addr (addr_val (e_addr E) (rm_Receiver m))" using assms(1) addr_val_typed by (simp add: message_fits_def)
  ultimately show ?thesis
    using assms(1) by (simp add: Any2TVMRampMessage_layout_def RampMessageHeader_layout_def message_vals_def header_vals_def message_fits_def)
qed

lemma exec_typed:
  assumes "report_fits std r" "k = 57 \<or> k = 64"
  shows "struct_typed (ExecuteReport_layout k) (exec_vals E r)"
proof -
  have "list_all (fields_typed (map tag_typed (Any2TVMRampMessage_layout k))) (map (message_vals E) (er_Messages r))"
    using assms message_typed by (simp add: list_all_iff report_fits_def)
  then show ?thesis
    using assms(1) bytes_vals_typed
    by (auto simp: struct_typed_def ExecuteReport_layout_def exec_vals_def report_fits_def big_val_def u256_def split: option.splits)
qed

lemma message_of_vals:
  assumes "message_fits (plain_addr (e_addr E) std) m"
  shows "message_of E (message_vals E m) = m"
proof -
  have "coins_of E (IntV (Nano E k)) = k" for k using nano [of k] by (simp add: coins_of_def int_of_def)
  moreover have "addr_of (e_addr E) (addr_val (e_addr E) (rm_Receiver m)) = rm_Receiver m"
    using assms addr_of_val by (simp add: message_fits_def)
  ultimately show ?thesis
    using assms token_of_vals
    by (simp add: message_of_def message_vals_def header_of_def header_vals_def bytes_of_val_def fields_of_def elements_of_def int_of_def
        eval_nat_numeral message_fits_def map_idI)
qed

lemma exec_of_vals: "report_fits (plain_addr (e_addr E) std) r \<Longrightarrow> exec_of E (exec_vals E r) = r"
  using message_of_vals
  by (auto simp: exec_of_def exec_vals_def report_fits_def u256_def big_val_def val_parts map_idI split: option.splits)

lemma exec_report_wire:
  assumes "report_fits std r"
  shows "\<exists>c. ToCell (ExecuteReport_layout 64) (exec_vals E r) = Inr c \<and> LoadFromCell (ExecuteReport_layout 64) c = Some (Inr (exec_vals E r))"
proof -
  from struct_roundtrip [OF ExecuteReport_wf exec_typed [OF assms]] obtain c where
    c: "struct_enc (ExecuteReport_layout 64) (exec_vals E r) = Inr c" "struct_dec (ExecuteReport_layout 64) c = Some (Inr (exec_vals E r))"
    by (auto simp: ExecuteReport_codec [of 57])
  have typed: "struct_typed (ExecuteReport_layout 64) (exec_vals E r)" by (rule exec_typed [OF assms]) simp
  from to_cell [OF typed c(1)] load_ok [OF typed c(1)] c(2) show ?thesis by auto
qed

lemma exec_wire: "exec_laws (wire_exec ToCell LoadFromCell E) (\<lambda>b. b) tcell_content (\<lambda>s. s) size (plain_addr (e_addr E) std)"
proof (intro exec_laws.intro exec_laws_axioms.intro, goal_cases)
  case 1
  show ?case using cell_laws_axioms by (simp add: wire_exec_def)
next
  case 2
  show ?case using plain_laws by (simp add: wire_exec_def)
next
  case 3
  show ?case by (simp add: wire_exec_def exec_rng)
next
  case (4 n)
  with from_nano show ?case by (simp add: wire_exec_def)
next
  case 5
  show ?case by (simp add: wire_exec_def nano_zero)
next
  case (6 args)
  then have "struct_typed GenericExtraArgsV2_layout [UnitV, big_val (g_GasLimit args), BoolV (g_AllowOutOfOrderExecution args)]"
    by (auto simp: struct_typed_def GenericExtraArgsV2_layout_def u256_def big_val_def split: option.splits)
  from roundtrip [OF GenericExtraArgsV2_wf this] show ?case by (auto simp: wire_exec_def okE_iff)
next
  case (7 r)
  then have "report_fits std r" by (auto simp: report_fits_def message_fits_def token_fits_def)
  from exec_report_wire [OF this] obtain xs rs where
    "ToCell (ExecuteReport_layout 64) (exec_vals E r) = Inr (TCell xs rs)" "LoadFromCell (ExecuteReport_layout 64) (TCell xs rs) = Some (Inr (exec_vals E r))"
    by (metis tcell.exhaust)
  with exec_of_vals [OF 7] begin_parse show ?case by (simp add: ref_codec_def wire_exec_def returning_def)
next
  case (8 c)
  show ?case by (simp add: wire_exec_def exec_boc)
qed

end

section \<open>Concrete libraries\<close>

text \<open>Coins as numbers of at most 15 bytes, the extra data codec of TON, and the reference formats of addresses and BOCs.\<close>

type_synonym wire_coins = "120 word"

definition sample_exec_lib :: "(ref_address, wire_coins) wire_lib" where
  "sample_exec_lib = \<lparr>e_cells = ref_lib, e_addr = ref_addr, e_rng = rev,
     DecodeTokenAmountDestExecData = (\<lambda>d sel. DecodeDestExecDataToMap d),
     DecodeExtraArgs = (\<lambda>x sel. DecodeExtraArgsToMap ref_lib ref_extra x),
     ZeroCoins = 0, FromNano = (\<lambda>n. if 0 \<le> n \<and> n < 2 ^ 120 then Inr (of_int n) else Inl (Err ''coins'')), Nano = uint,
     args_ToCell = (\<lambda>a. Inl (Err ''unset'')), exec_ToCell = (\<lambda>r. Inl (Err ''unset'')), exec_LoadFromCell = (\<lambda>s. Inl (Err ''unset'')),
     e_ToBOC = ref_ToBOC, e_FromBOC = ref_FromBOC\<rparr>"

abbreviation std_pair :: "ref_address \<Rightarrow> bool" where
  "std_pair \<equiv> \<lambda>(w, d). length d = 32"

lemma wire_coins_range: "uint (k :: wire_coins) < 2 ^ 120"
  using uint_typed [of k] by simp

lemma sample_addr_laws: "addr_laws (k_addr ref_commit_lib) std_pair" "addr_laws (e_addr sample_exec_lib) std_pair"
  by (simp_all add: ref_commit_lib_def sample_exec_lib_def ref_addr.addr_laws_axioms)

lemma sample_cell_laws: "cell_laws (e_cells sample_exec_lib) (\<lambda>b. b) tcell_content (\<lambda>s. s) size"
  by (simp add: sample_exec_lib_def ref.cell_laws_axioms)

interpretation commit_scheme: commit_wire_laws struct_enc struct_dec ref_commit_lib std_pair
proof (intro commit_wire_laws.intro commit_wire_laws_axioms.intro)
  show "tlb_laws struct_enc struct_dec" by (rule scheme.tlb_laws_axioms)
  show "addr_laws (k_addr ref_commit_lib) std_pair" by (rule sample_addr_laws)
  show "k_FromBOC ref_commit_lib (k_ToBOC ref_commit_lib c) = Inr c" for c by (simp add: ref_commit_lib_def)
qed

interpretation exec_scheme: exec_wire_laws struct_enc struct_dec sample_exec_lib std_pair
proof (intro exec_wire_laws.intro exec_wire_laws_axioms.intro, goal_cases)
  case 1
  show ?case by (rule scheme.tlb_laws_axioms)
next
  case 2
  show ?case by (rule sample_cell_laws)
next
  case 3
  show ?case by (rule sample_addr_laws)
next
  case 4
  show ?case by (simp add: sample_exec_lib_def)
next
  case 5
  show ?case by (simp add: sample_exec_lib_def rng_rev.go_range_axioms)
next
  case (6 n)
  then have "uint (of_int n :: wire_coins) = n" by (simp add: unsigned_of_int take_bit_int_eq_self)
  with 6 show ?case by (simp add: sample_exec_lib_def)
next
  case (7 k)
  show ?case using wire_coins_range [of k] by (simp add: sample_exec_lib_def)
next
  case 8
  show ?case by (simp add: sample_exec_lib_def)
qed

section \<open>Properties\<close>

text \<open>
  C7: Commit reports survive the wire format of their structs. Let the address package print and parse standard addresses,
  let \<open>FromBOC\<close> undo \<open>ToBOC\<close> and let the TL-B package follow the tags of \<open>CommitReport\<close> and its parts (prices and roots in
  the bits of chained cells, signatures as chained references). Then every report whose token ids are printed standard
  addresses, with prices below \<open>2 ^ 256\<close>, on-ramp addresses of 1 to 64 bytes and 32-byte roots and signature halves, is
  encoded, whatever its length, and decoding the bytes gives it back with the token ids reprinted without address flags:
  unchanged where they had none.
\<close>

theorem Commit_wire_roundtrip:
  fixes K :: "(tcell, tcell, 'a) CommitLib"
  assumes "tlb_laws ToCell LoadFromCell" "addr_laws (k_addr K) std" "\<And>c. k_FromBOC K (k_ToBOC K c) = Inr c" "valid_commit K std r"
  shows "\<exists>bs. Commit_Encode (wire_commit ToCell LoadFromCell K) r = Inr bs \<and>
    Commit_Decode (wire_commit ToCell LoadFromCell K) bs = Inr (view_commit (k_addr K) r) \<and>
    ((\<forall>t \<in> set (p_TokenPriceUpdates r). plain_id (k_addr K) (tp_TokenID t) = tp_TokenID t) \<longrightarrow> view_commit (k_addr K) r = r)"
proof -
  have "commit_wire_laws ToCell LoadFromCell K std"
    using assms(1-3) by (intro commit_wire_laws.intro commit_wire_laws_axioms.intro)
  from commit_wire_laws.commit_wire_roundtrip [OF this assms(4)] show ?thesis
    by (auto simp: view_commit_def map_idI)
qed

theorem Commit_wire_roundtrip_witness:
  "\<exists>bs. Commit_Encode (wire_commit struct_enc struct_dec ref_commit_lib) sample_commit = Inr bs \<and>
    Commit_Decode (wire_commit struct_enc struct_dec ref_commit_lib) bs = Inr sample_commit"
proof -
  have "plain_id (k_addr ref_commit_lib) (Addr_String ref_addr (0, replicate 32 9)) = Addr_String ref_addr (0, replicate 32 9)"
    using commit_scheme.plain_id_String [of "(0, replicate 32 9)"] by (simp add: ref_commit_lib_def unflagged_def) (simp add: ref_addr_def)
  then have "\<forall>t \<in> set (p_TokenPriceUpdates sample_commit). plain_id (k_addr ref_commit_lib) (tp_TokenID t) = tp_TokenID t"
    by (simp add: sample_commit_def)
  with Commit_wire_roundtrip [OF scheme.tlb_laws_axioms sample_addr_laws(1) commit_scheme.commit_boc sample_commit_valid] show ?thesis by auto
qed


text \<open>The sample report with extra arguments for 200000 units of gas.\<close>

definition sample_gas_args :: bytes where
  "sample_gas_args = ref_ToBOC (put_args \<lparr>g_GasLimit = Some 200000, g_AllowOutOfOrderExecution = True\<rparr>)"

definition sample_gas_report :: ChainReport where
  "sample_gas_report = sample_report\<lparr>cr_Messages := map (\<lambda>m. m\<lparr>m_ExtraArgs := sample_gas_args\<rparr>) (cr_Messages sample_report)\<rparr>"

lemma sample_gas: "message_gas sample_exec_lib 5 sample_gas_args = Inr (Some 200000)"
proof -
  let ?args = "\<lparr>g_GasLimit = Some 200000, g_AllowOutOfOrderExecution = True\<rparr>"
  from ref_args [of ?args] obtain s where a: "4 \<le> length sample_gas_args" "get_args (BeginParse ref_lib (put_args ?args)) = Inr ?args"
    "LoadSlice ref_lib (BeginParse ref_lib (put_args ?args)) 32 = Inr (evmExtraArgsV2Tag, s)"
    by (auto simp: u256_def sample_gas_args_def)
  have "DecodeExtraArgsToMap ref_lib ref_extra sample_gas_args = Inr (generic_fields ?args)"
    using a unfolding sample_gas_args_def by (simp add: DecodeExtraArgsToMap_def ref_extra_def)
  with a(1) extract_generic [OF rng_rev.go_range_axioms, of ?args] show ?thesis
    by (auto simp: message_gas_def sample_exec_lib_def)
qed

lemma sample_report_wire: "valid_report sample_exec_lib sample_gas_report" "valid_report sample_exec_lib sample_report"
proof -
  have gas: "token_gas sample_exec_lib 5 [0, 0, 1, 0] = Inr 256"
    using extract_dest [OF rng_rev.go_range_axioms, of "[0, 0, 1, 0]"] by (simp add: token_gas_def sample_exec_lib_def be_nat_def)
  show "valid_report sample_exec_lib sample_gas_report" "valid_report sample_exec_lib sample_report"
    by (simp_all add: sample_gas_report_def sample_report_def valid_report_def valid_message_def valid_token_def raw_addr_zero gas u256_def sample_gas)
      (simp add: message_gas_def)
qed


text \<open>
  C35: A flaw: a token transfer is encoded exactly when its source pool address has at most 57 bytes. \<open>CrossChainAddress\<close>
  allows 64, but with the destination address, the gas amount and the amount the struct then needs more than the
  1023 bits of a cell.
\<close>

theorem transfer_encoded_iff:
  assumes "tlb_laws ToCell LoadFromCell" "struct_typed (Any2TVMTokenTransfer_layout 64) [BytesV a, AddrV (Some d), g, c, n]"
  shows "okE (ToCell (Any2TVMTokenTransfer_layout 64) [BytesV a, AddrV (Some d), g, c, n]) \<longleftrightarrow> length a \<le> 57"
proof -
  let ?l = "Any2TVMTokenTransfer_layout 64" and ?vs = "[BytesV a, AddrV (Some d), g, c, n]"
  from assms(2) obtain gi x ni where v: "g = IntV gi" "c = CellV x" "n = IntV ni" "1 \<le> length a" "length a \<le> 64" "length (snd d) = 32"
    by (cases g; cases c; cases n) (auto simp: struct_typed_def Any2TVMTokenTransfer_layout_def address_typed_def split: prod.splits)
  from v(4,5) have "0 < length a" "length a \<le> 64" by auto
  from ref.address_cell [OF this] obtain cl where
    cl: "CrossChainAddress_ToCell ref_lib a = Inr cl" "tcell_content cl = (bits_of (of_nat (length a) # a), [])" by blast
  let ?xs = "bits_of (of_nat (length a) # a) @ address_bits (Some d) @ nat_bits 32 (nat gi) @ nat_bits 256 (nat ni)"
  have enc: "struct_enc ?l ?vs = end_cell (?xs, [x])"
    using v(1-3) cl by (simp add: struct_enc_def Any2TVMTokenTransfer_layout_def)
  have len: "length ?xs = 563 + 8 * length a" using v(6) by (cases d) (simp add: address_bits_def)
  show ?thesis
  proof (cases "length a \<le> 57")
    case True
    with enc len have "struct_enc ?l ?vs = Inr (TCell ?xs [x])" by (simp add: end_cell_def)
    with tlb_laws.to_cell [OF assms] True show ?thesis by simp
  next
    case False
    with enc len have "struct_enc ?l ?vs = Inl (Err ''not enough space'')" by (simp add: end_cell_def)
    from tlb_laws.to_cell_error [OF assms this] False show ?thesis by auto
  qed
qed

theorem transfer_encoded_iff_witness:
  "\<not> okE (struct_enc (Any2TVMTokenTransfer_layout 64)
    [BytesV (replicate 64 1), AddrV (Some (0, replicate 32 2)), IntV 100000, CellV (TCell [] []), IntV 5])"
  using transfer_encoded_iff [OF scheme.tlb_laws_axioms, of "replicate 64 1" "(0, replicate 32 2)" "IntV 100000" "CellV (TCell [] [])" "IntV 5"]
  by (simp add: struct_typed_def Any2TVMTokenTransfer_layout_def address_typed_def)

end
