(* ===== verification/Api_Client.thy ===== *)
theory Api_Client
  imports Trace Address_Codec
begin

text \<open>
  The signed API client (\<open>pkg/ton/tracetracking/signed_api_client.go\<close>) and the contract wrapper built
  on it (\<open>pkg/ton/wrappers/contract.go\<close>): sending a message and waiting for it or for its whole trace,
  deploying and opening contracts, reading getters, subscribing to the messages of a contract and
  loading compiled contracts.

  The lite client and the wallet of \<open>tonutils-go\<close> are the record \<open>ApiEnv\<close>. Of a block only its sequence
  number is read. \<open>Api_SubscribeOn\<close> gives the transactions delivered before the subscription ends, and
  \<open>Api_MasterAfter s k\<close> is the answer to the \<open>k\<close>-th call of
  \<open>WaitForBlock(s).CurrentMasterchainInfo\<close>. The TL-B encoder, the bag-of-cells reader, the file system and
  the JSON decoding of a compiled contract are arguments. A call that waits may never return, which is \<open>None\<close>.
\<close>

section \<open>Data\<close>

record ('a, 'c) WalletSend =
  ws_Mode :: u8
  ws_IHRDisabled :: bool
  ws_Bounce :: bool
  ws_DstAddr :: 'a
  ws_Amount :: int
  ws_Body :: 'c

record ('a, 'c, 'p, 'r) ApiEnv =
  Api_Equals :: "'a \<Rightarrow> 'a \<Rightarrow> bool"
  Api_String :: "'a \<Rightarrow> string"
  Api_SubscribeOn :: "'a \<Rightarrow> u64 \<Rightarrow> ('a, 'c) Transaction list"
  Wallet_SendWait :: "('a, 'c) WalletSend \<Rightarrow> (('a, 'c) Transaction \<times> u32) res"
  Wallet_DeployWait :: "int \<Rightarrow> 'c \<Rightarrow> 'c \<Rightarrow> 'c \<Rightarrow> ('a \<times> ('a, 'c) Transaction) res"
  Api_CurrentMaster :: "u32 res"
  Api_MasterAfter :: "u32 \<Rightarrow> nat \<Rightarrow> u32 res"
  Api_RunGetMethod :: "u32 \<Rightarrow> 'a \<Rightarrow> string \<Rightarrow> 'p list \<Rightarrow> 'r res"

text \<open>\<open>wallet.PayGasSeparately\<close>\<close>

definition PayGasSeparately :: u8 where
  "PayGasSeparately = 1"

section \<open>The signed client\<close>

definition SendWaitTransaction ::
  "('a, 'c, 'p, 'r) ApiEnv \<Rightarrow> 'a \<Rightarrow> ('a, 'c) WalletSend \<Rightarrow> (('a, 'c) ReceivedMessage \<times> u32) res" where
  "SendWaitTransaction env dstAddr messageToSend =
     bindE (wrapE (''deposit transaction failed for '' @ Api_String env dstAddr) (Wallet_SendWait env messageToSend)) (\<lambda>(tx, block).
     bindE (wrapE ''failed to get outgoing messages'' (MapToReceivedMessage tx)) (\<lambda>receivedMessage.
     Inr (receivedMessage, block)))"

text \<open>The first masterchain query and the loop that repeats it until two later blocks exist; the addition wraps.\<close>

partial_function (option) master_loop :: "(nat \<Rightarrow> u32 res) \<Rightarrow> u32 \<Rightarrow> nat \<Rightarrow> u32 res option" where
  "master_loop query seqNo k =
     (case wrapE ''failed to get masterchain info for funder balance check'' (query k) of
        Inl e \<Rightarrow> Some (Inl e)
      | Inr master \<Rightarrow> if master \<le> seqNo + 1 then master_loop query seqNo (Suc k) else Some (Inr master))"

text \<open>The callers of \<open>WaitForTrace\<close> drop the message when it fails.\<close>

definition Client_WaitForTrace ::
  "('a, 'c, 'p, 'r) ApiEnv \<Rightarrow> ('a, 'c) ReceivedMessage \<Rightarrow> ('a, 'c) ReceivedMessage res option" where
  "Client_WaitForTrace env m =
     map_option (\<lambda>(m', err). bindE (wrapE ''failed to wait for trace'' err) (\<lambda>_. Inr m'))
       (WaitForTrace (Api_Equals env) (Api_SubscribeOn env) m)"

definition SendAndWaitForTrace ::
  "('a, 'c, 'p, 'r) ApiEnv \<Rightarrow> 'a \<Rightarrow> ('a, 'c) WalletSend \<Rightarrow> ('a, 'c) ReceivedMessage res option" where
  "SendAndWaitForTrace env dstAddr messageToSend =
     bindO (Some (wrapE ''failed to SendWaitTransaction'' (SendWaitTransaction env dstAddr messageToSend))) (\<lambda>(sentMessage, block).
     bindO (Client_WaitForTrace env sentMessage) (\<lambda>sentMessage'.
     bindO (master_loop (Api_MasterAfter env block) block 0) (\<lambda>_. Some (Inr sentMessage'))))"

text \<open>
  The subscription delivers the account's transactions after \<open>lt\<close> and stays open: it runs with
  \<open>context.Background()\<close>, so a reader that has taken the transactions of the list blocks until more arrive.
\<close>

definition SubscribeToTransactions :: "('a, 'c, 'p, 'r) ApiEnv \<Rightarrow> 'a \<Rightarrow> u64 \<Rightarrow> ('a, 'c) Transaction list" where
  "SubscribeToTransactions env addr lt = Api_SubscribeOn env addr lt"

section \<open>Contracts\<close>

text \<open>A wrapper is the address of the contract; its client is the environment.\<close>

record 'a Contract =
  c_Address :: 'a

definition SendMessageWait ::
  "('a, 'c, 'p, 'r) ApiEnv \<Rightarrow> 'a Contract \<Rightarrow> 'c \<Rightarrow> int \<Rightarrow> ('a, 'c) ReceivedMessage res" where
  "SendMessageWait env c body amount =
     bindE (SendWaitTransaction env (c_Address c)
       \<lparr>ws_Mode = PayGasSeparately, ws_IHRDisabled = True, ws_Bounce = True, ws_DstAddr = c_Address c,
        ws_Amount = amount, ws_Body = body\<rparr>) (\<lambda>(m, _). Inr m)"

definition CallWait ::
  "('a, 'c, 'p, 'r) ApiEnv \<Rightarrow> ('m \<Rightarrow> 'c res) \<Rightarrow> 'a Contract \<Rightarrow> 'm \<Rightarrow> int \<Rightarrow> ('a, 'c) ReceivedMessage res" where
  "CallWait env ToCell c message amount =
     bindE (wrapE ''failed to store message args'' (ToCell message)) (\<lambda>body. SendMessageWait env c body amount)"

definition CallWaitRecursively ::
  "('a, 'c, 'p, 'r) ApiEnv \<Rightarrow> ('m \<Rightarrow> 'c res) \<Rightarrow> 'a Contract \<Rightarrow> 'm \<Rightarrow> int \<Rightarrow> ('a, 'c) ReceivedMessage res option" where
  "CallWaitRecursively env ToCell c message amount =
     bindO (Some (wrapE ''failed to send message'' (CallWait env ToCell c message amount))) (Client_WaitForTrace env)"

definition Contract_Get :: "('a, 'c, 'p, 'r) ApiEnv \<Rightarrow> 'a Contract \<Rightarrow> string \<Rightarrow> 'p list \<Rightarrow> 'r res" where
  "Contract_Get env c key params =
     bindE (wrapE ''failed to get current block'' (Api_CurrentMaster env)) (\<lambda>block.
     Api_RunGetMethod env block (c_Address c) key params)"

text \<open>
  The results of getters: \<open>IntAt\<close> is \<open>ExecutionResult.Int\<close>, and \<open>big.Int.Uint64\<close> keeps the low 64 bits.
\<close>

definition Uint64From :: "('r \<Rightarrow> nat \<Rightarrow> int res) \<Rightarrow> 'r res \<Rightarrow> u64 res" where
  "Uint64From IntAt res =
     bindE (wrapE ''failed to run get method'' res) (\<lambda>r.
     bindE (wrapE ''failed to extract value'' (IntAt r 0)) (\<lambda>val. Inr (word_of_int val)))"

definition Uint32From :: "('r \<Rightarrow> nat \<Rightarrow> int res) \<Rightarrow> 'r res \<Rightarrow> u32 res" where
  "Uint32From IntAt res =
     bindE (wrapE ''failed to run get method'' res) (\<lambda>r.
     bindE (wrapE ''failed to extract value'' (IntAt r 0)) (\<lambda>val.
     let u64 = word_of_int val :: u64
     in if u64 > ucast (- 1 :: u32) then Inl (Err (''value '' @ show_nat (unat u64) @ '' overflows uint32''))
        else Inr (ucast u64)))"

text \<open>
  The goroutine of \<open>SubscribeToMessages\<close>: the messages it sends on its channel and the panic that ends it,
  if one does. A transaction that cannot be mapped is reported and skipped.
\<close>

fun message_loop :: "('a, 'c) Transaction list \<Rightarrow> ('a, 'c) ReceivedMessage list \<times> gerr option" where
  "message_loop [] = ([], None)"
| "message_loop (rTX # rTXs) = (case tx_In rTX of
       None \<Rightarrow> message_loop rTXs
     | Some _ \<Rightarrow> (case MapToReceivedMessage rTX of
           Inl e \<Rightarrow> if is_panic e then ([], Some e) else message_loop rTXs
         | Inr receivedMessage \<Rightarrow> (case message_loop rTXs of (ms, e) \<Rightarrow> (receivedMessage # ms, e))))"

definition SubscribeToMessages ::
  "('a, 'c, 'p, 'r) ApiEnv \<Rightarrow> 'a Contract \<Rightarrow> u64 \<Rightarrow> ('a, 'c) ReceivedMessage list \<times> gerr option" where
  "SubscribeToMessages env c lt = message_loop (SubscribeToTransactions env (c_Address c) lt)"

definition Deploy ::
  "('a, 'c, 'p, 'r) ApiEnv \<Rightarrow> 'c \<Rightarrow> 'c \<Rightarrow> int \<Rightarrow> 'c \<Rightarrow> ('a Contract \<times> ('a, 'c) ReceivedMessage) res option" where
  "Deploy env codeCell initData amount msgBody =
     bindO (Some (wrapE ''deployment failed'' (Wallet_DeployWait env amount msgBody codeCell initData))) (\<lambda>(addr, tx).
     bindO (Some (wrapE ''failed to get outgoing messages'' (MapToReceivedMessage tx))) (\<lambda>receivedMessage.
     bindO (Client_WaitForTrace env receivedMessage) (\<lambda>m.
     if rm_ExitCode (info m) \<noteq> ExitCodeSuccess \<or> length (recvs m) \<noteq> 1
     then Some (Inl (Err (''contract deployment failed: error sending external message: exit code '' @
            show_int (sint (rm_ExitCode (info m))) @ '': '' @ Describe (rm_ExitCode (info m)))))
     else Some (Inr (\<lparr>c_Address = addr\<rparr>, m)))))"

text \<open>\<open>StateCell\<close> is the TL-B encoding of a \<open>StateInit\<close> with this code and data, \<open>Hash\<close> that of the resulting cell.\<close>

definition Open :: "'a AddrLib \<Rightarrow> ('c \<Rightarrow> 'c \<Rightarrow> 'c res) \<Rightarrow> ('c \<Rightarrow> bytes) \<Rightarrow> 'c \<Rightarrow> 'c \<Rightarrow> 'a Contract res" where
  "Open A StateCell Hash codeCell initData =
     bindE (StateCell codeCell initData) (\<lambda>stateCell. Inr \<lparr>c_Address = NewAddress A 0 0 (Hash stateCell)\<rparr>)"

section \<open>Compiled contracts\<close>

text \<open>
  \<open>base64.StdEncoding.DecodeString\<close>: line breaks are skipped and the input is padded to groups of four
  characters with at most two \<open>=\<close>.
\<close>

definition b64_std_val :: "char \<Rightarrow> nat option" where
  "b64_std_val c = (if c = CHR ''+'' then Some 62 else if c = CHR ''/'' then Some 63
     else if c = CHR ''-'' \<or> c = CHR ''_'' then None else b64_val c)"

definition std_DecodeString :: "string \<Rightarrow> bytes res" where
  "std_DecodeString s =
     (let t = filter (\<lambda>c. c \<noteq> CHR 0x0A \<and> c \<noteq> CHR 0x0D) s;
          body = takeWhile (\<lambda>c. c \<noteq> CHR ''='') t;
          pad = dropWhile (\<lambda>c. c \<noteq> CHR ''='') t
      in if pad \<noteq> replicate (length pad) (CHR ''='') \<or> length pad > 2 \<or> length t mod 4 \<noteq> 0
         then Inl (Err ''illegal base64 data'')
         else (case those (map b64_std_val body) of
                 None \<Rightarrow> Inl (Err ''illegal base64 data'')
               | Some vs \<Rightarrow> Inr (bytes_of (take (8 * (6 * length vs div 8)) (concat (map six_bits vs))))))"

definition tact_codeCell :: "(bytes \<Rightarrow> 'c res) \<Rightarrow> string \<Rightarrow> 'c res" where
  "tact_codeCell FromBOC Code =
     (if Code = [] then Inl (Err ''codeBoc64 field is empty in the JSON'')
      else bindE (wrapE ''failed to decode base64'' (std_DecodeString Code)) (\<lambda>codeBocBinary.
           wrapE ''failed to parse BOC binary'' (FromBOC codeBocBinary)))"

definition tolk_codeCell :: "(bytes \<Rightarrow> 'c res) \<Rightarrow> string \<Rightarrow> 'c res" where
  "tolk_codeCell FromBOC Hex =
     (if Hex = [] then Inl (Err ''codeBocHex field is empty in the JSON'')
      else bindE (wrapE ''failed to decode hex'' (hex_DecodeString Hex)) (\<lambda>codeBocBytes.
           wrapE ''failed to parse BOC binary'' (FromBOC codeBocBytes)))"

text \<open>
  \<open>file path\<close> is \<open>None\<close> when no file exists there and else what reading it gives; \<open>json data key\<close> is the string
  that \<open>json.Unmarshal\<close> stores in the field \<open>key\<close>.
\<close>

definition ParseCompiledContract ::
  "(bytes \<Rightarrow> 'c res) \<Rightarrow> (string \<Rightarrow> bytes res option) \<Rightarrow> (bytes \<Rightarrow> string \<Rightarrow> string res) \<Rightarrow> string \<Rightarrow> 'c res" where
  "ParseCompiledContract FromBOC file json path = (case file path of
       None \<Rightarrow> Inl (Err (''contract file not found: '' @ path))
     | Some content \<Rightarrow>
         bindE (wrapE ''failed to read compiled contract'' content) (\<lambda>jsonData.
         if suffix ''.pkg'' path
         then bindE (wrapE ''failed to parse JSON'' (json jsonData ''code'')) (tact_codeCell FromBOC)
         else if suffix ''.compiled.json'' path
         then bindE (wrapE ''failed to parse JSON'' (json jsonData ''hex'')) (tolk_codeCell FromBOC)
         else Inl (Err (''unsupported contract file format: '' @ path))))"

section \<open>Lemmas\<close>

lemma apply_description_LT [simp]: "rm_LamportTime (apply_description d i) = rm_LamportTime i"
  by (auto simp: apply_description_def Let_def split: TxDescription.splits ComputePhase.splits option.splits)

lemma MapToReceivedMessage_LT: "MapToReceivedMessage tx = Inr m \<Longrightarrow> rm_LamportTime (info m) = tx_LT tx"
  using MapToReceivedMessage_In [of tx m]
  by (auto simp: MapToReceivedMessage_eq Let_def initial_info_def split: option.splits sum.splits if_splits)

lemma MapToReceivedMessage_sents:
  "MapToReceivedMessage tx = Inr m \<Longrightarrow>
   length (sents m) = (case tx_Out tx of Some (Inr outs) \<Rightarrow> length (internal_outs outs) | _ \<Rightarrow> 0)"
  using MapToReceivedMessage_In [of tx m]
  by (auto simp: MapToReceivedMessage_eq Let_def split: option.splits sum.splits if_splits)

lemma Client_WaitForTrace_Inr [simp]:
  "Client_WaitForTrace env m = Some (Inr m') \<longleftrightarrow> WaitForTrace (Api_Equals env) (Api_SubscribeOn env) m = Some (m', Inr ())"
  by (auto simp: Client_WaitForTrace_def)

lemma Client_WaitForTrace_returns:
  "WaitForTrace (Api_Equals env) (Api_SubscribeOn env) m = Some r \<Longrightarrow> \<exists>r'. Client_WaitForTrace env m = Some r'"
  by (simp add: Client_WaitForTrace_def)

lemma master_loop_advanced:
  assumes ret: "master_loop query seqNo k = Some r" and ok: "r = Inr master"
  shows "seqNo + 1 < master \<and> (\<exists>j. query j = Inr master)"
proof -
  have "r = Inr master \<longrightarrow> seqNo + 1 < master \<and> (\<exists>j. query j = Inr master)"
  proof (rule master_loop.raw_induct [where P = "\<lambda>query seqNo k r. r = Inr master \<longrightarrow> seqNo + 1 < master \<and> (\<exists>j. query j = Inr master)", OF _ ret])
    fix f query seqNo k r
    assume IH: "\<And>query seqNo k r. f query seqNo k = Some r \<Longrightarrow> r = Inr master \<longrightarrow> seqNo + 1 < master \<and> (\<exists>j. query j = Inr master)"
      and eq: "(case wrapE ''failed to get masterchain info for funder balance check'' (query k) of
        Inl e \<Rightarrow> Some (Inl e)
      | Inr master \<Rightarrow> if master \<le> seqNo + 1 then f query seqNo (Suc k) else Some (Inr master)) = Some r"
    show "r = Inr master \<longrightarrow> seqNo + 1 < master \<and> (\<exists>j. query j = Inr master)"
      using eq by (auto split: sum.splits if_splits dest!: IH)
  qed
  with ok show ?thesis by blast
qed

lemma master_loop_ends:
  assumes "k \<le> j" "\<forall>master. query j = Inr master \<longrightarrow> seqNo + 1 < master"
  shows "\<exists>r. master_loop query seqNo k = Some r"
  using assms
proof (induction "j - k" arbitrary: k)
  case 0
  then have "k = j" by simp
  with 0(3) show ?case
    by (subst master_loop.simps) (cases "query j"; auto simp: not_le)
next
  case (Suc d)
  then have "d = j - Suc k" "Suc k \<le> j" by arith+
  with Suc(1) Suc(4) obtain r where "master_loop query seqNo (Suc k) = Some r" by blast
  then show ?case
    by (subst master_loop.simps) (cases "query k"; auto)
qed

lemma master_loop_no_error:
  assumes ret: "master_loop query seqNo k = Some r" and ok: "\<forall>j. \<exists>master. query j = Inr master"
  shows "\<exists>master. r = Inr master"
proof -
  let ?P = "\<lambda>query seqNo k r. (\<forall>j. \<exists>master. query j = Inr master) \<longrightarrow> (\<exists>master. r = Inr master)"
  have "?P query seqNo k r"
  proof (rule master_loop.raw_induct [where P = ?P, OF _ ret], intro impI)
    fix f :: "(nat \<Rightarrow> u32 res) \<Rightarrow> u32 \<Rightarrow> nat \<Rightarrow> u32 res option" and query seqNo k r
    assume IH: "\<And>query seqNo k r. f query seqNo k = Some r \<Longrightarrow> ?P query seqNo k r"
      and eq: "(case wrapE ''failed to get masterchain info for funder balance check'' (query k) of
        Inl e \<Rightarrow> Some (Inl e)
      | Inr master \<Rightarrow> if master \<le> seqNo + 1 then f query seqNo (Suc k) else Some (Inr master)) = Some r"
      and ok: "\<forall>j. \<exists>master. query j = Inr master"
    from ok obtain master where "query k = Inr master" by blast
    with eq ok show "\<exists>master. r = Inr master" using IH by (auto split: if_splits)
  qed
  with ok show ?thesis by blast
qed

section \<open>Sending and waiting\<close>

definition sample_api :: "(nat, nat, nat, int) ApiEnv" where
  "sample_api = \<lparr>Api_Equals = (=), Api_String = show_nat, Api_SubscribeOn = sample_chain,
     Wallet_SendWait = (\<lambda>m. Inr (sample_tx 1 2 10 [MsgInternal (sample_internal 2 (ws_DstAddr m) 11)], 7)),
     Wallet_DeployWait = (\<lambda>amount body code data. Inr (3, sample_tx 1 2 10 [MsgInternal (sample_internal 2 3 11)])),
     Api_CurrentMaster = Inr 7, Api_MasterAfter = (\<lambda>s k. Inr (s + of_nat k)),
     Api_RunGetMethod = (\<lambda>block a key params. Inr (int (length params)))\<rparr>"

lemma api_sample_wait:
  "\<exists>m'. MapToReceivedMessage (sample_tx 1 2 10 [MsgInternal (sample_internal 2 3 11)]) = Inr m \<longrightarrow>
     WaitForTrace (=) sample_chain m = Some (m', Inr ()) \<and> rm_ExitCode (info m') = 0 \<and> length (recvs m') = 1"
  by (auto simp: sample_wait_simps)

text \<open>
  C21: \<open>SendAndWaitForTrace\<close> returns whenever the network delivers the trace of the transaction it sent (every
  message the transaction sends is received by a transaction the subscription delivers, and so on through
  finite chains) and, after the transaction's block, the masterchain moves two blocks ahead or fails to
  answer. If moreover the delivered transactions can be read and the masterchain answers every query, it returns the
  message without an error. A message it returns without an error is that of the sent transaction, every
  message of its trace is finalized and none is missing, and two more masterchain blocks exist.
\<close>

theorem SendAndWaitForTrace_finalized:
  assumes sent: "Wallet_SendWait env msg = Inr (tx, block)" "tx_In tx \<noteq> None" "readable tx"
    and trace: "\<forall>im \<in> set (tx_internals tx). cascades (Api_Equals env) (Api_SubscribeOn env) im (tx_LT tx)"
    and ahead: "\<forall>master. Api_MasterAfter env block k = Inr master \<longrightarrow> block + 1 < master"
  shows "\<exists>r. SendAndWaitForTrace env dst msg = Some r \<and>
    ((\<forall>a lt. \<forall>rtx \<in> set (Api_SubscribeOn env a lt). readable rtx) \<longrightarrow>
     (\<forall>j. \<exists>master. Api_MasterAfter env block j = Inr master) \<longrightarrow> (\<exists>m. r = Inr m)) \<and>
    (\<forall>m. r = Inr m \<longrightarrow> rm_LamportTime (info m) = tx_LT tx \<and>
       (\<exists>j master. Api_MasterAfter env block j = Inr master \<and> block + 1 < master) \<and>
       (\<forall>n \<in> set (messages m). Status n = Finalized) \<and> no_nil m)"
proof -
  from sent(2,3) obtain m0 where m0: "MapToReceivedMessage tx = Inr m0" using readable_iff by blast
  note shape = MapToReceivedMessage_shape [OF m0]
  have send: "SendWaitTransaction env dst msg = Inr (m0, block)" by (simp add: SendWaitTransaction_def sent(1) m0)
  have "\<forall>s \<in> set (sents m0). cascades (Api_Equals env) (Api_SubscribeOn env) (sm_InternalMsg s) (rm_LamportTime (info m0))"
    using trace shape by (auto simp: NewSentMessage_def)
  with WaitForTrace_fresh_ends shape obtain m e
    where w: "WaitForTrace (Api_Equals env) (Api_SubscribeOn env) m0 = Some (m, e)" by fastforce
  obtain r1 where r1: "master_loop (Api_MasterAfter env block) block 0 = Some r1"
    using master_loop_ends [of 0 k "Api_MasterAfter env block" block, OF le0 ahead] ..
  have eq: "SendAndWaitForTrace env dst msg = Some (bindE (wrapE ''failed to wait for trace'' e) (\<lambda>_. bindE r1 (\<lambda>_. Inr m)))"
    using send w r1 by (cases e; cases r1) (simp_all add: SendAndWaitForTrace_def Client_WaitForTrace_def)
  have fine: "e = Inr ()" if "\<forall>a lt. \<forall>rtx \<in> set (Api_SubscribeOn env a lt). readable rtx"
    using WaitForTrace_readable [OF w that] shape by (cases m0) (simp add: no_nil_def)
  have answered: "\<exists>master. r1 = Inr master" if "\<forall>j. \<exists>master. Api_MasterAfter env block j = Inr master"
    using master_loop_no_error [OF r1 that] .
  have final: "rm_LamportTime (info m) = tx_LT tx \<and> (\<forall>n \<in> set (messages m). Status n = Finalized) \<and> no_nil m" if "e = Inr ()"
    using settled_Status [OF WaitForTrace_settled [of m0]] WaitForTrace_root w that shape by fastforce
  have later: "\<exists>j master. Api_MasterAfter env block j = Inr master \<and> block + 1 < master" if "r1 = Inr x" for x
    using master_loop_advanced [OF r1 that] by blast
  show ?thesis
    unfolding eq using fine answered final later by (cases e; cases r1) fastforce+
qed

theorem SendAndWaitForTrace_finalized_witness:
  "\<exists>m. SendAndWaitForTrace sample_api 3 \<lparr>ws_Mode = 1, ws_IHRDisabled = True, ws_Bounce = True, ws_DstAddr = 3, ws_Amount = 5, ws_Body = 0\<rparr> =
       Some (Inr m) \<and> rm_LamportTime (info m) = 11 \<and> (\<forall>n \<in> set (messages m). Status n = Finalized) \<and> no_nil m"
proof -
  let ?msg = "\<lparr>ws_Mode = 1, ws_IHRDisabled = True, ws_Bounce = True, ws_DstAddr = 3, ws_Amount = 5, ws_Body = 0\<rparr> :: (nat, nat) WalletSend"
  let ?tx = "sample_tx 1 2 10 [MsgInternal (sample_internal 2 3 11)]"
  have api: "Api_Equals sample_api = (=)" "Api_SubscribeOn sample_api = sample_chain"
    "Wallet_SendWait sample_api ?msg = Inr (?tx, 7)" "\<And>k. Api_MasterAfter sample_api 7 k = Inr (7 + of_nat k)"
    by (simp_all add: sample_api_def)
  have "\<forall>a lt. \<forall>tx \<in> set (sample_chain a lt). readable tx"
    by (simp add: sample_chain_def sample_tx_def readable_def has_external_in_def)
  then show ?thesis
    using SendAndWaitForTrace_finalized [of sample_api ?msg ?tx 7 2 3] sample_cascades
    by (simp add: api readable_def tx_internals_def sample_tx_def has_external_in_def) blast
qed

text \<open>
  C22: A deployment that succeeds has the address the wallet deployed to, its own message ended with exit code 0,
  the deploying transaction sent exactly one internal message, that message was received, and the whole
  trace is finalized.
\<close>

theorem Deploy_checked:
  assumes "Deploy env codeCell initData amount msgBody = Some (Inr (c, m))"
  shows "\<exists>tx outs deployed. Wallet_DeployWait env amount msgBody codeCell initData = Inr (c_Address c, tx) \<and>
    rm_LamportTime (info m) = tx_LT tx \<and> rm_ExitCode (info m) = ExitCodeSuccess \<and>
    tx_Out tx = Some (Inr outs) \<and> length (internal_outs outs) = 1 \<and> recvs m = [Some deployed] \<and>
    (\<forall>n \<in> set (messages m). Status n = Finalized)"
proof -
  from assms obtain tx m0 where dep: "Wallet_DeployWait env amount msgBody codeCell initData = Inr (c_Address c, tx)"
    and m0: "MapToReceivedMessage tx = Inr m0" and m: "WaitForTrace (Api_Equals env) (Api_SubscribeOn env) m0 = Some (m, Inr ())"
    and ok: "rm_ExitCode (info m) = ExitCodeSuccess" "length (recvs m) = 1"
    by (auto simp: Deploy_def split: if_splits)
  from m0 have "recvs m0 = []" by (rule MapToReceivedMessage_recvs)
  from settled_Status [OF WaitForTrace_settled [OF this m]]
  have fin: "\<forall>n \<in> set (messages m). Status n = Finalized" "no_nil m" by blast+
  from ok(2) obtain d where d: "recvs m = [d]" by (auto simp: length_Suc_conv)
  moreover have "m \<in> set (messages m)" by (cases m) simp
  ultimately obtain deployed where "recvs m = [Some deployed]" using fin(2) by (cases d) (auto simp: no_nil_def)
  moreover have "length (sents m0) = 1" using WaitForTrace_root [OF m] \<open>recvs m0 = []\<close> ok(2) by simp
  with MapToReceivedMessage_sents [OF m0] obtain outs where "tx_Out tx = Some (Inr outs)" "length (internal_outs outs) = 1"
    by (auto split: option.splits sum.splits)
  moreover have "rm_LamportTime (info m) = tx_LT tx"
    using WaitForTrace_root [OF m] MapToReceivedMessage_LT [OF m0] by simp
  ultimately show ?thesis using dep ok(1) fin(1) by blast
qed

theorem Deploy_checked_witness:
  "\<exists>c m deployed. Deploy sample_api 0 0 5 0 = Some (Inr (c, m)) \<and> c_Address c = 3 \<and> recvs m = [Some deployed] \<and>
     (\<forall>n \<in> set (messages m). Status n = Finalized)"
proof -
  obtain m0 where m0: "MapToReceivedMessage (sample_tx 1 2 10 [MsgInternal (sample_internal 2 3 11)]) = Inr m0"
    by (simp add: sample_simps)
  with api_sample_wait [of m0] obtain m where "WaitForTrace (=) sample_chain m0 = Some (m, Inr ())" "rm_ExitCode (info m) = 0" "length (recvs m) = 1"
    by auto
  with m0 have "Deploy sample_api 0 0 5 0 = Some (Inr (\<lparr>c_Address = 3\<rparr>, m))"
    by (simp add: Deploy_def sample_api_def Client_WaitForTrace_def)
  from Deploy_checked [OF this] this show ?thesis by auto
qed

text \<open>
  A recursive call encodes the message, hands the wallet one bounceable internal message to the contract with
  the given amount, and returns only when the whole trace is finalized.
\<close>

theorem CallWaitRecursively_settles:
  assumes "CallWaitRecursively env ToCell c message amount = Some (Inr m)"
  shows "\<exists>body tx block. ToCell message = Inr body \<and>
    Wallet_SendWait env \<lparr>ws_Mode = PayGasSeparately, ws_IHRDisabled = True, ws_Bounce = True, ws_DstAddr = c_Address c,
      ws_Amount = amount, ws_Body = body\<rparr> = Inr (tx, block) \<and>
    rm_LamportTime (info m) = tx_LT tx \<and> (\<forall>n \<in> set (messages m). Status n = Finalized) \<and> no_nil m"
proof -
  from assms obtain body tx block m0 where s: "ToCell message = Inr body"
      "Wallet_SendWait env \<lparr>ws_Mode = PayGasSeparately, ws_IHRDisabled = True, ws_Bounce = True, ws_DstAddr = c_Address c,
        ws_Amount = amount, ws_Body = body\<rparr> = Inr (tx, block)"
    and m0: "MapToReceivedMessage tx = Inr m0" and m: "WaitForTrace (Api_Equals env) (Api_SubscribeOn env) m0 = Some (m, Inr ())"
    by (auto simp: CallWaitRecursively_def CallWait_def SendMessageWait_def SendWaitTransaction_def)
  from settled_Status [OF WaitForTrace_settled [OF MapToReceivedMessage_recvs [OF m0] m]] s
    WaitForTrace_root [OF m] MapToReceivedMessage_LT [OF m0] show ?thesis by auto
qed

theorem CallWaitRecursively_settles_witness:
  "\<exists>m. CallWaitRecursively sample_api Inr \<lparr>c_Address = 3\<rparr> 0 5 = Some (Inr m) \<and>
     (\<forall>n \<in> set (messages m). Status n = Finalized) \<and> no_nil m"
proof -
  obtain m0 where m0: "MapToReceivedMessage (sample_tx 1 2 10 [MsgInternal (sample_internal 2 3 11)]) = Inr m0"
    by (simp add: sample_simps)
  with api_sample_wait [of m0] obtain m where "WaitForTrace (=) sample_chain m0 = Some (m, Inr ())" by auto
  with m0 have "CallWaitRecursively sample_api Inr \<lparr>c_Address = 3\<rparr> 0 5 = Some (Inr m)"
    by (simp add: CallWaitRecursively_def CallWait_def SendMessageWait_def SendWaitTransaction_def sample_api_def Client_WaitForTrace_def)
  from CallWaitRecursively_settles [OF this] this show ?thesis by blast
qed

section \<open>Subscriptions and getters\<close>

lemma MapToReceivedMessage_ok_iff:
  assumes "tx_In tx = Some msg" "\<forall>outs. tx_Out tx = Some (Inr outs) \<longrightarrow> \<not> has_external_in outs"
  shows "(\<exists>m. MapToReceivedMessage tx = Inr m) \<longleftrightarrow> (\<forall>e. tx_Out tx \<noteq> Some (Inl e))"
  using assms by (auto simp: MapToReceivedMessage_eq Let_def split: option.splits sum.splits)

lemma MapToReceivedMessage_no_panic:
  assumes "tx_In tx = Some msg" "\<forall>outs. tx_Out tx = Some (Inr outs) \<longrightarrow> \<not> has_external_in outs"
    "\<forall>e. tx_Out tx = Some (Inl e) \<longrightarrow> \<not> is_panic e" "MapToReceivedMessage tx = Inl e"
  shows "\<not> is_panic e"
  using assms by (auto simp: MapToReceivedMessage_eq Let_def split: option.splits sum.splits if_splits)

text \<open>
  \<open>SubscribeToMessages\<close> sends one message per delivered transaction that has an incoming message and whose
  outgoing messages can be read, in the order of delivery, and nothing else; it does not panic as
  long as no transaction lists an external incoming message among its outgoing ones.
\<close>

theorem SubscribeToMessages_exact:
  assumes "\<forall>tx \<in> set (Api_SubscribeOn env (c_Address c) lt). case tx_Out tx of
      None \<Rightarrow> True | Some (Inl e) \<Rightarrow> \<not> is_panic e | Some (Inr outs) \<Rightarrow> \<not> has_external_in outs"
  shows "\<exists>ms. SubscribeToMessages env c lt = (ms, None) \<and>
    list_all2 (\<lambda>tx m. MapToReceivedMessage tx = Inr m)
      [tx \<leftarrow> Api_SubscribeOn env (c_Address c) lt. tx_In tx \<noteq> None \<and> (\<forall>e. tx_Out tx \<noteq> Some (Inl e))] ms"
proof -
  have "\<exists>ms. message_loop txs = (ms, None) \<and>
    list_all2 (\<lambda>tx m. MapToReceivedMessage tx = Inr m) [tx \<leftarrow> txs. tx_In tx \<noteq> None \<and> (\<forall>e. tx_Out tx \<noteq> Some (Inl e))] ms"
    if "\<forall>tx \<in> set txs. case tx_Out tx of None \<Rightarrow> True | Some (Inl e) \<Rightarrow> \<not> is_panic e | Some (Inr outs) \<Rightarrow> \<not> has_external_in outs"
    for txs :: "('a, 'b) Transaction list"
    using that
  proof (induction txs)
    case (Cons tx txs)
    then obtain ms where ms: "message_loop txs = (ms, None)" "list_all2 (\<lambda>tx m. MapToReceivedMessage tx = Inr m)
      [tx \<leftarrow> txs. tx_In tx \<noteq> None \<and> (\<forall>e. tx_Out tx \<noteq> Some (Inl e))] ms" by auto
    from Cons.prems have wf: "\<forall>outs. tx_Out tx = Some (Inr outs) \<longrightarrow> \<not> has_external_in outs" "\<forall>e. tx_Out tx = Some (Inl e) \<longrightarrow> \<not> is_panic e"
      by auto
    show ?case
    proof (cases "tx_In tx")
      case None
      with ms show ?thesis by simp
    next
      case (Some msg)
      note iff = MapToReceivedMessage_ok_iff [OF Some wf(1)]
      show ?thesis
      proof (cases "MapToReceivedMessage tx")
        case (Inl e)
        with iff obtain e' where "tx_Out tx = Some (Inl e')" by auto
        with MapToReceivedMessage_no_panic [OF Some wf Inl] Inl Some ms show ?thesis by auto
      next
        case (Inr m)
        with iff have "\<forall>e. tx_Out tx \<noteq> Some (Inl e)" by blast
        with Inr Some ms show ?thesis by auto
      qed
    qed
  qed simp
  from this [OF assms] show ?thesis by (simp add: SubscribeToMessages_def SubscribeToTransactions_def)
qed

theorem SubscribeToMessages_exact_witness:
  "\<exists>a b. SubscribeToMessages sample_api \<lparr>c_Address = 3\<rparr> 0 = ([a, b], None) \<and>
     MapToReceivedMessage (sample_tx 9 3 5 []) = Inr a \<and> MapToReceivedMessage (sample_tx 2 3 11 []) = Inr b"
proof -
  have txs: "Api_SubscribeOn sample_api (c_Address \<lparr>c_Address = 3\<rparr>) 0 = [sample_tx 9 3 5 [], sample_tx 2 3 11 []]"
    by (simp add: sample_api_def sample_chain_def)
  have "\<forall>tx \<in> set (Api_SubscribeOn sample_api (c_Address \<lparr>c_Address = 3\<rparr>) 0). case tx_Out tx of
      None \<Rightarrow> True | Some (Inl e) \<Rightarrow> \<not> is_panic e | Some (Inr outs) \<Rightarrow> \<not> has_external_in outs"
    unfolding txs by (simp add: sample_tx_def has_external_in_def)
  from SubscribeToMessages_exact [OF this] show ?thesis
    unfolding txs by (auto simp: sample_tx_def list_all2_Cons1)
qed

text \<open>
  \<open>Uint32From\<close> looks at the low 64 bits of the getter's result only. Of a value below \<open>2 ^ 64\<close> it returns exactly
  the ones that fit 32 bits, unchanged, and refuses the others; above that, and below zero, the check
  does not see the high part of the value.
\<close>

theorem Uint32From_checks:
  assumes "IntAt r 0 = Inr v"
  shows "if v mod 2 ^ 64 < 2 ^ 32
    then \<exists>u. Uint32From IntAt (Inr r) = Inr u \<and> uint u = v mod 2 ^ 64 \<and> (0 \<le> v \<and> v < 2 ^ 64 \<longrightarrow> uint u = v)
    else \<exists>e. Uint32From IntAt (Inr r) = Inl (Err e)"
proof -
  let ?u = "word_of_int v :: u64"
  have u: "uint ?u = v mod 2 ^ 64" by (simp add: unsigned_of_int take_bit_eq_mod)
  have "uint (ucast (- 1 :: u32) :: u64) = 2 ^ 32 - 1" by (simp add: unsigned_ucast_eq unsigned_minus_1_eq_mask mask_eq_exp_minus_1 take_bit_eq_mod)
  then have gt: "ucast (- 1 :: u32) < ?u \<longleftrightarrow> \<not> v mod 2 ^ 64 < 2 ^ 32"
    by (simp add: word_less_def u) linarith
  have "uint (ucast ?u :: u32) = v mod 2 ^ 64" if "v mod 2 ^ 64 < 2 ^ 32"
  proof -
    have "uint (ucast ?u :: u32) = take_bit 32 (uint ?u)" by (simp add: unsigned_ucast_eq)
    also have "\<dots> = v mod 2 ^ 64" using that by (simp add: u take_bit_eq_mod mod_pos_pos_trivial)
    finally show ?thesis .
  qed
  then show ?thesis using assms gt by (auto simp: Uint32From_def Let_def)
qed

theorem Uint32From_checks_witness:
  "(\<exists>u. Uint32From (\<lambda>r i. Inr r) (Inr 5) = Inr u \<and> uint u = 5) \<and>
   (\<exists>e. Uint32From (\<lambda>r i. Inr r) (Inr (2 ^ 32)) = Inl (Err e)) \<and>
   (\<exists>u. Uint32From (\<lambda>r i. Inr r) (Inr (2 ^ 64 + 5)) = Inr u \<and> uint u = 5)"
  using Uint32From_checks [of "\<lambda>r i. Inr r" 5 5] Uint32From_checks [of "\<lambda>r i. Inr r" "2 ^ 32" "2 ^ 32"]
    Uint32From_checks [of "\<lambda>r i. Inr r" "2 ^ 64 + 5" "2 ^ 64 + 5"] by auto

section \<open>Compiled contracts: the two formats\<close>

lemma hex_value_digit: "n < 16 \<Longrightarrow> hex_value (hex_digit n) = Some n"
  by (auto simp: hex_value_def hex_digit_def Let_def)

lemma hex_DecodeString_show [simp]: "hex_DecodeString (show_hex bs) = Inr bs"
proof (induction bs)
  case (Cons b bs)
  have "unat b < 256" using unsigned_less [of b, where ?'a = nat] by simp
  then have "unat b div 16 < 16" by auto
  with Cons show ?case by (simp add: show_hex_def hex_value_digit)
qed (simp add: show_hex_def)

text \<open>The padded base64 text of a byte string.\<close>

definition b64_std_char :: "nat \<Rightarrow> char" where
  "b64_std_char n = (if n = 62 then CHR ''+'' else if n = 63 then CHR ''/'' else b64_char n)"

definition std_encode :: "bytes \<Rightarrow> string" where
  "std_encode bs = (let k = (3 - length bs mod 3) mod 3
     in map b64_std_char (sextets (bits_of bs @ replicate (2 * k) False)) @ replicate k (CHR ''=''))"

lemma b64_val_specials [simp]:
  "b64_val (CHR ''+'') = None" "b64_val (CHR ''/'') = None" "b64_val (CHR ''-'') = Some 62" "b64_val (CHR ''_'') = Some 63"
  "b64_val (CHR ''='') = None" "b64_val (CHR 0x0A) = None" "b64_val (CHR 0x0D) = None"
  by (simp_all add: b64_val_def)

lemma b64_std_val_char:
  assumes "v < 64"
  shows "b64_std_val (b64_std_char v) = Some v"
proof (cases "v < 62")
  case True
  from b64_val_char [OF assms] True have "b64_char v \<notin> {CHR ''+'', CHR ''/'', CHR ''-'', CHR ''_''}" by auto
  with b64_val_char [OF assms] True show ?thesis by (simp add: b64_std_val_def b64_std_char_def)
next
  case False
  with assms have "v = 62 \<or> v = 63" by arith
  then show ?thesis by (auto simp: b64_std_val_def b64_std_char_def)
qed

lemma b64_std_char_plain: "v < 64 \<Longrightarrow> b64_std_char v \<notin> {CHR 0x0A, CHR 0x0D, CHR ''=''}"
  using b64_std_val_char [of v] by (auto simp: b64_std_val_def)

lemma those_std_chars: "\<forall>v \<in> set vs. v < 64 \<Longrightarrow> those (map b64_std_val (map b64_std_char vs)) = Some vs"
  by (induction vs) (auto simp: b64_std_val_char)

lemma std_DecodeString_encode [simp]: "std_DecodeString (std_encode bs) = Inr bs"
proof -
  define k where "k = (3 - length bs mod 3) mod 3"
  define vs where "vs = sextets (bits_of bs @ replicate (2 * k) False)"
  have k: "k \<le> 2" "(8 * length bs + 2 * k) mod 6 = 0" "((8 * length bs + 2 * k) div 6 + k) mod 4 = 0"
  proof -
    define q where "q = length bs div 3"
    consider "length bs = 3 * q \<and> k = 0" | "length bs = 3 * q + 1 \<and> k = 2" | "length bs = 3 * q + 2 \<and> k = 1"
    proof -
      have "length bs = 3 * q + length bs mod 3" by (simp add: q_def)
      moreover have "length bs mod 3 = 0 \<or> length bs mod 3 = 1 \<or> length bs mod 3 = 2" by arith
      ultimately show ?thesis using that by (auto simp: k_def)
    qed
    then show "k \<le> 2" "(8 * length bs + 2 * k) mod 6 = 0" "((8 * length bs + 2 * k) div 6 + k) mod 4 = 0"
      by (cases; presburger)+
  qed
  have enc: "std_encode bs = map b64_std_char vs @ replicate k (CHR ''='')"
    by (simp add: std_encode_def k_def vs_def Let_def)
  have vs: "\<forall>v \<in> set vs. v < 64" unfolding vs_def using sextets_bound by blast
  have len: "length vs = (8 * length bs + 2 * k) div 6" by (simp add: vs_def length_sextets)
  have "concat (map six_bits vs) = bits_of bs @ replicate (2 * k) False"
    unfolding vs_def using k(2) by (intro concat_sextets) simp
  moreover have "6 * length vs = 8 * length bs + 2 * k"
    using div_mult_mod_eq [of "8 * length bs + 2 * k" 6] k(2) len by simp
  then have "6 * length vs div 8 = length bs" using k(1) by simp
  ultimately have bytes: "bytes_of (take (8 * (6 * length vs div 8)) (concat (map six_bits vs))) = bs" by simp
  have plain: "c \<noteq> CHR 0x0A \<and> c \<noteq> CHR 0x0D \<and> c \<noteq> CHR ''=''" if "c \<in> set (map b64_std_char vs)" for c
    using that vs b64_std_char_plain by fastforce
  have "filter (\<lambda>c. c \<noteq> CHR 0x0A \<and> c \<noteq> CHR 0x0D) (std_encode bs) = std_encode bs"
    using plain by (auto simp: enc filter_id_conv)
  moreover have "takeWhile (\<lambda>c. c \<noteq> CHR ''='') (std_encode bs) = map b64_std_char vs"
    unfolding enc using plain by (subst takeWhile_append2) (auto simp: takeWhile_replicate)
  moreover have "dropWhile (\<lambda>c. c \<noteq> CHR ''='') (std_encode bs) = replicate k (CHR ''='')"
    unfolding enc using plain by (subst dropWhile_append2) auto
  moreover have "length (std_encode bs) mod 4 = 0" using k(3) by (simp add: enc len)
  ultimately show ?thesis
    using k(1) those_std_chars [OF vs] bytes by (simp add: std_DecodeString_def Let_def)
qed

text \<open>
  The two formats of compiled contracts agree: the base64 text of a Tact package and the hexadecimal text of a
  Tolk artefact of the same non-empty bag of cells load as the same code cell, or fail with the same
  error.
\<close>

theorem codeCell_formats_agree:
  assumes "boc \<noteq> []"
  shows "tact_codeCell FromBOC (std_encode boc) = tolk_codeCell FromBOC (show_hex boc) \<and>
    tolk_codeCell FromBOC (show_hex boc) = wrapE ''failed to parse BOC binary'' (FromBOC boc)"
proof -
  obtain b bs where boc: "boc = b # bs" using assms by (cases boc) auto
  have "show_hex boc \<noteq> []" by (simp add: boc show_hex_def)
  moreover have "std_encode boc \<noteq> []" using std_DecodeString_encode [of boc] boc by (auto simp: std_DecodeString_def bytes_of.simps)
  ultimately show ?thesis by (simp add: tact_codeCell_def tolk_codeCell_def)
qed

theorem codeCell_formats_agree_witness:
  "tact_codeCell ref_FromBOC (std_encode (ref_ToBOC (TCell [True, False] []))) = Inr (TCell [True, False] []) \<and>
   tolk_codeCell ref_FromBOC (show_hex (ref_ToBOC (TCell [True, False] []))) = Inr (TCell [True, False] [])"
  using codeCell_formats_agree [of "ref_ToBOC (TCell [True, False] [])" ref_FromBOC] ref_boc [of "TCell [True, False] []"]
  by (simp del: ref_boc)

end
