(* ===== verification/Bindings.thy ===== *)
theory Bindings
  imports Governance Ocr_Wire Api_Client Event_Topics
begin

text \<open>
  Bindings of the remaining contracts: the on-ramp structs (\<open>pkg/ccip/bindings/onramp\<close>), ownership
  (\<open>pkg/ccip/bindings/common\<close>), jettons (\<open>pkg/bindings/jetton\<close>), the jetton examples
  (\<open>pkg/bindings/test/examples/jetton\<close>) and the counter (\<open>pkg/bindings/examples/counter\<close>), with the
  location of compiled contracts (\<open>pkg/bindings/directory.go\<close>). Structs are layouts, as in \<open>Tlb_Layout\<close>; the
  functions call the contract wrapper of \<open>Api_Client\<close>. \<open>InternalTransferMessage\<close>, whose payload has the
  tag \<open>either . ^\<close>, is left out, and so is the mint message that contains it.

  \<open>ToCell\<close> and \<open>LoadFromCell\<close> are \<open>tlb.ToCell\<close> and \<open>tlb.LoadFromCell\<close>. The output of \<open>git\<close>, the environment and
  the file system are arguments.
\<close>

section \<open>Ownership and the on-ramp\<close>

definition Ownable2Step_layout :: layout where
  "Ownable2Step_layout = [Plain Addr, Plain MaybeAddr]"

definition Signature_layout :: layout where
  "Signature_layout = [Plain (BitsTag 256)]"

definition TokenAmount_layout :: "atom list" where
  "TokenAmount_layout = [UInt 256, Addr]"

definition SVMExtraArgsV1_layout :: layout where
  "SVMExtraArgsV1_layout = [Plain (Magic 0x1f3b3aba), Plain (UInt 32), Plain (UInt 64), Plain BoolTag, Plain (BitsTag 256), BytesListTo]"

definition CCIPSend_layout :: layout where
  "CCIPSend_layout = [Plain (UInt 64), Plain (UInt 64), Plain (XAddr 64), SnakeTo TokenAmount_layout, Plain CellRef]"

definition CCIPMessageSent_layout :: layout where
  "CCIPMessageSent_layout = [Plain (UInt 64), Plain (UInt 64), RefTo CCIPSend_layout]"

definition DestChainConfig_layout :: layout where
  "DestChainConfig_layout = [Plain Addr, Plain (UInt 64), Plain BoolTag, Plain (Dict 267)]"

definition DynamicConfig_layout :: "atom list" where
  "DynamicConfig_layout = [Addr, Addr, Addr]"

definition onramp_Storage_layout :: layout where
  "onramp_Storage_layout = [RefTo Ownable2Step_layout, Plain (UInt 64), SnakeTo DynamicConfig_layout, Plain (Dict 64)]"

section \<open>Jettons\<close>

definition Client_layout :: layout where
  "Client_layout = [Plain Addr, Plain CellRef]"

definition MinterInitData_layout :: layout where
  "MinterInitData_layout = [Plain Coins, Plain Addr, Plain Addr, Plain CellRef, Plain CellRef]"

definition TopUpMessage_layout :: layout where
  "TopUpMessage_layout = [Plain (Magic 0xd372158c), Plain (UInt 64)]"

definition ChangeAdminMessage_layout :: layout where
  "ChangeAdminMessage_layout = [Plain (Magic 0x6501f354), Plain (UInt 64), Plain Addr]"

definition ClaimAdminMessage_layout :: layout where
  "ClaimAdminMessage_layout = [Plain (Magic 0xfb88e119), Plain (UInt 64)]"

definition DropAdminMessage_layout :: layout where
  "DropAdminMessage_layout = [Plain (Magic 0x7431f221), Plain (UInt 64)]"

definition ChangeContentMessage_layout :: layout where
  "ChangeContentMessage_layout = [Plain (Magic 0xcb862902), Plain (UInt 64), Plain CellRef]"

definition UpgradeMessage_layout :: layout where
  "UpgradeMessage_layout = [Plain (Magic 0x2508d66a), Plain (UInt 64), Plain CellRef, Plain CellRef]"

definition WalletInitData_layout :: layout where
  "WalletInitData_layout = [Plain (UInt 4), Plain Coins, Plain Addr, Plain Addr]"

definition OpcodeMinterMint :: nat where "OpcodeMinterMint = 0x642b7d07"
definition OpcodeMinterBurnNotification :: nat where "OpcodeMinterBurnNotification = 0x7bdd97de"
definition OpcodeMinterChangeAdmin :: nat where "OpcodeMinterChangeAdmin = 0x6501f354"
definition OpcodeMinterClaimAdmin :: nat where "OpcodeMinterClaimAdmin = 0xfb88e119"
definition OpcodeMinterDropAdmin :: nat where "OpcodeMinterDropAdmin = 0x7431f221"
definition OpcodeMinterChangeMetadataURL :: nat where "OpcodeMinterChangeMetadataURL = 0xcb862902"
definition OpcodeMinterUpgrade :: nat where "OpcodeMinterUpgrade = 0x2508d66a"
definition OpcodeMinterInternalTransfer :: nat where "OpcodeMinterInternalTransfer = 0x178d4519"
definition OpcodeMinterExcesses :: nat where "OpcodeMinterExcesses = 0xd53276db"

definition OpcodeWalletTransfer :: nat where "OpcodeWalletTransfer = 0x0f8a7ea5"
definition OpcodeWalletTransferNotification :: nat where "OpcodeWalletTransferNotification = 0x7362d09c"
definition OpcodeWalletInternalTransfer :: nat where "OpcodeWalletInternalTransfer = 0x178d4519"
definition OpcodeWalletExcesses :: nat where "OpcodeWalletExcesses = 0xd53276db"
definition OpcodeWalletBurn :: nat where "OpcodeWalletBurn = 0x595f07bc"
definition OpcodeWalletBurnNotification :: nat where "OpcodeWalletBurnNotification = 0x7bdd97de"

definition jetton_errors :: "(string \<times> ExitCode) list" where
  "jetton_errors = [(''ErrorInvalidOp'', 72), (''ErrorWrongOp'', 0xffff), (''ErrorNotOwner'', 73), (''ErrorNotValidWallet'', 74),
     (''ErrorWrongWorkchain'', 333)]"

section \<open>Jetton examples and the counter\<close>

definition SenderInitData_layout :: layout where
  "SenderInitData_layout = [Plain Addr, Plain CellRef]"

definition SendJettonsFastMessage_layout :: layout where
  "SendJettonsFastMessage_layout = [Plain (Magic 0x4C169F42), Plain (UInt 64), Plain Coins, Plain Addr]"

definition SendJettonsExtendedMessage_layout :: layout where
  "SendJettonsExtendedMessage_layout = [Plain (Magic 0x7FDA8110), Plain (UInt 64), Plain Coins, Plain Addr, Plain CellRef, Plain Coins, Plain CellRef]"

definition OnrampMockInitData_layout :: layout where
  "OnrampMockInitData_layout = [Plain Addr, Plain CellRef]"

definition OnrampMockFee :: nat where "OnrampMockFee = 5"
definition OnrampMockIncorrectSenderError :: ExitCode where "OnrampMockIncorrectSenderError = 100"
definition OnrampMockForwardPayloadRequiredError :: ExitCode where "OnrampMockForwardPayloadRequiredError = 101"

definition InsufficientFeeEvent_layout :: layout where
  "InsufficientFeeEvent_layout = [Plain (UInt 64), Plain Addr]"

definition AcceptedRequestEvent_layout :: layout where
  "AcceptedRequestEvent_layout = [Plain (UInt 64), Plain Addr, Plain CellRef]"

definition SimpleJettonReceiverInitData_layout :: layout where
  "SimpleJettonReceiverInitData_layout = Client_layout @ [Plain Coins, Plain MaybeRef]"

definition ContractData_layout :: layout where
  "ContractData_layout = [Plain (UInt 32), Plain (UInt 32)] @ Ownable2Step_layout"

definition SetCount_layout :: layout where
  "SetCount_layout = [Plain (Magic 0x00000004), Plain (UInt 64), Plain (UInt 32)]"

definition IncreaseCount_layout :: layout where
  "IncreaseCount_layout = [Plain (Magic 0x10000005), Plain (UInt 64)]"

definition CountSet_layout :: layout where
  "CountSet_layout = [Plain (UInt 32), Plain (UInt 32)]"

definition CountIncreased_layout :: layout where
  "CountIncreased_layout = [Plain (UInt 32), Plain (UInt 32)]"

definition TopicCountSet :: u32 where
  "TopicCountSet = CRC32 ''CountSet''"

definition TopicCountIncreased :: u32 where
  "TopicCountIncreased = CRC32 ''CountIncreased''"

text \<open>\<open>LazyLoadingContract[T]\<close> puts a bit before the struct; the constructor leaves it unset.\<close>

definition LazyLoadingContract_layout :: "layout \<Rightarrow> layout" where
  "LazyLoadingContract_layout contract = Plain BoolTag # contract"

definition LazyLoadingTactContractInitData :: "val list \<Rightarrow> val list" where
  "LazyLoadingTactContractInitData contract = BoolV False # contract"

section \<open>Paths\<close>

text \<open>Go's \<open>path.Clean\<close>: empty elements and dots vanish and two dots remove the element before them.\<close>

fun split_slash :: "string \<Rightarrow> string list" where
  "split_slash [] = [[]]"
| "split_slash (c # cs) = (if c = CHR ''/'' then [] # split_slash cs else (case split_slash cs of w # ws \<Rightarrow> (c # w) # ws | [] \<Rightarrow> [[c]]))"

definition clean_step :: "bool \<Rightarrow> string \<Rightarrow> string list \<Rightarrow> string list" where
  "clean_step rooted w out =
     (if w = [] \<or> w = ''.'' then out
      else if w = ''..'' then (if out = [] then (if rooted then [] else [w]) else if hd out = ''..'' then w # out else tl out)
      else w # out)"

fun join_slash :: "string list \<Rightarrow> string" where
  "join_slash [] = []"
| "join_slash [w] = w"
| "join_slash (w # v # ws) = w @ CHR ''/'' # join_slash (v # ws)"

definition path_Clean :: "string \<Rightarrow> string" where
  "path_Clean p = (let rooted = (p \<noteq> [] \<and> hd p = CHR ''/''); out = rev (fold (clean_step rooted) (split_slash p) [])
     in if rooted then CHR ''/'' # join_slash out else if out = [] then ''.'' else join_slash out)"

definition path_Join :: "string list \<Rightarrow> string" where
  "path_Join elem = (let es = filter (\<lambda>e. e \<noteq> []) elem in if es = [] then [] else path_Clean (join_slash es))"

definition is_space :: "char \<Rightarrow> bool" where
  "is_space c = (c \<in> {CHR '' '', CHR 0x09, CHR 0x0A, CHR 0x0B, CHR 0x0C, CHR 0x0D})"

definition TrimSpace :: "string \<Rightarrow> string" where
  "TrimSpace s = rev (dropWhile is_space (rev (dropWhile is_space s)))"

definition GetRepoRootDir :: "string res \<Rightarrow> string res" where
  "GetRepoRootDir git = (case git of Inl err \<Rightarrow> Inl (Panic ''failed to get repo root dir'') | Inr stdout \<Rightarrow> Inr (TrimSpace stdout))"

definition GetBuildsDir :: "string res \<Rightarrow> string res" where
  "GetBuildsDir git = bindE (GetRepoRootDir git) (\<lambda>repoRoot. Inr (path_Join [repoRoot, ''contracts'', ''build'']))"

definition GetBuildDir :: "string res \<Rightarrow> string \<Rightarrow> string res" where
  "GetBuildDir git contractPath = bindE (GetBuildsDir git) (\<lambda>buildsDir. Inr (path_Join [buildsDir, contractPath]))"

definition MinterContractPath :: "string \<Rightarrow> string" where
  "MinterContractPath PathToContracts = path_Join [PathToContracts, ''JettonMinter.compiled.json'']"

definition WalletContractPath :: "string \<Rightarrow> string" where
  "WalletContractPath PathToContracts = path_Join [PathToContracts, ''JettonWallet.compiled.json'']"

section \<open>Operations\<close>

text \<open>The file system with the formats of compiled contracts, as \<open>ParseCompiledContract\<close> takes them.\<close>

record Compiled =
  f_FromBOC :: "bytes \<Rightarrow> tcell res"
  f_file :: "string \<Rightarrow> bytes res option"
  f_json :: "bytes \<Rightarrow> string \<Rightarrow> string res"

definition compiled :: "Compiled \<Rightarrow> string \<Rightarrow> tcell res" where
  "compiled F path = wrapE ''failed to compile contract'' (ParseCompiledContract (f_FromBOC F) (f_file F) (f_json F) path)"

definition MinterCode :: "Compiled \<Rightarrow> string \<Rightarrow> tcell res" where
  "MinterCode F PathToContracts = compiled F (MinterContractPath PathToContracts)"

definition WalletCode :: "Compiled \<Rightarrow> string \<Rightarrow> tcell res" where
  "WalletCode F PathToContracts = compiled F (WalletContractPath PathToContracts)"

type_synonym Address = "(u8 \<times> bytes) option"

record WalletProvider =
  MinterAddress :: Address

definition NewWalletProvider :: "Address \<Rightarrow> WalletProvider" where
  "NewWalletProvider minterAddress = \<lparr>MinterAddress = minterAddress\<rparr>"

definition GetWalletInitCell :: "(layout \<Rightarrow> val list \<Rightarrow> tcell res) \<Rightarrow> WalletProvider \<Rightarrow> Address \<Rightarrow> tcell res" where
  "GetWalletInitCell ToCell p ownerAddress =
     wrapE ''failed to convert init data to cell'' (ToCell WalletInitData_layout [IntV 0, IntV 0, AddrV ownerAddress, AddrV (MinterAddress p)])"

text \<open>\<open>tlb.MustFromTON("1")\<close>, in nanotons.\<close>

definition one_TON :: int where
  "one_TON = 10 ^ 9"

definition SenderContractPath :: "string res \<Rightarrow> string res" where
  "SenderContractPath git = GetBuildDir git ''examples.jetton.JettonSender.compiled.json''"

definition OnrampMockContractPath :: "string res \<Rightarrow> string res" where
  "OnrampMockContractPath git = GetBuildDir git ''examples.jetton.OnrampMock.compiled.json''"

definition SimpleJettonReceiverContractPath :: "string res \<Rightarrow> string res" where
  "SimpleJettonReceiverContractPath git = GetBuildDir git ''examples.jetton.SimpleJettonReceiver.compiled.json''"

text \<open>The providers deploy alike, up to the text of an error; the wrapper each returns is its contract.\<close>

definition deploy_data ::
  "string \<Rightarrow> ('a, tcell, 'p, 'r) ApiEnv \<Rightarrow> Compiled \<Rightarrow> (layout \<Rightarrow> val list \<Rightarrow> tcell res) \<Rightarrow> layout \<Rightarrow> string \<Rightarrow> val list \<Rightarrow> 'a Contract res option" where
  "deploy_data failure env F ToCell initLayout contractPath initData =
     bindO (Some (wrapE failure (ToCell initLayout initData))) (\<lambda>initCell.
     bindO (Some (compiled F contractPath)) (\<lambda>compiledContract.
     let body = TCell [] []
     in bindO (Deploy env compiledContract initCell one_TON body) (\<lambda>(contract, _). Some (Inr contract))))"

definition provider_Deploy ::
  "('a, tcell, 'p, 'r) ApiEnv \<Rightarrow> Compiled \<Rightarrow> (layout \<Rightarrow> val list \<Rightarrow> tcell res) \<Rightarrow> layout \<Rightarrow> string \<Rightarrow> val list \<Rightarrow> 'a Contract res option" where
  "provider_Deploy env F ToCell initLayout contractPath initData =
     deploy_data ''failed to convert init data to cell'' env F ToCell initLayout contractPath initData"

definition Sender_Deploy where
  "Sender_Deploy env F ToCell path initData = provider_Deploy env F ToCell SenderInitData_layout path initData"

definition OnrampMock_Deploy where
  "OnrampMock_Deploy env F ToCell path initData = provider_Deploy env F ToCell OnrampMockInitData_layout path initData"

definition SimpleJettonReceiver_Deploy where
  "SimpleJettonReceiver_Deploy env F ToCell path initData = provider_Deploy env F ToCell SimpleJettonReceiverInitData_layout path initData"

text \<open>What a getter returned: \<open>ExecutionResult\<close> with \<open>Int\<close>, \<open>IsNil\<close> and \<open>Cell\<close>.\<close>

record 'r ResultLib =
  r_Int :: "'r \<Rightarrow> nat \<Rightarrow> int res"
  r_IsNil :: "'r \<Rightarrow> nat \<Rightarrow> bool res"
  r_Cell :: "'r \<Rightarrow> nat \<Rightarrow> tcell res"

definition GetAmountChecker :: "('a, tcell, 'p, 'r) ApiEnv \<Rightarrow> 'r ResultLib \<Rightarrow> (int \<Rightarrow> nat \<Rightarrow> 'k res) \<Rightarrow> 'a Contract \<Rightarrow> 'k res" where
  "GetAmountChecker env R fromNano r =
     bindE (Contract_Get env r ''amountChecker'' []) (\<lambda>result.
     bindE (r_Int R result 0) (\<lambda>amount. must ''FromNano'' (fromNano amount 9)))"

definition GetPayloadChecker :: "('a, tcell, 'p, 'r) ApiEnv \<Rightarrow> 'r ResultLib \<Rightarrow> 'a Contract \<Rightarrow> tcell option res" where
  "GetPayloadChecker env R r =
     bindE (wrapE ''failed to get payload checker'' (Contract_Get env r ''payloadChecker'' [])) (\<lambda>result.
     bindE (wrapE ''failed to check if payload checker is nil'' (r_IsNil R result 0)) (\<lambda>isPayloadCheckerNil.
     if isPayloadCheckerNil then Inr None
     else bindE (wrapE ''failed to get payload checker cell'' (r_Cell R result 0)) (\<lambda>payload. Inr (Some payload))))"

definition ParseAcceptedRequestEvent :: "(layout \<Rightarrow> tcell \<Rightarrow> val list res option) \<Rightarrow> tcell \<Rightarrow> val list res option" where
  "ParseAcceptedRequestEvent LoadFromCell c =
     map_option (wrapE ''failed to load AcceptedRequestEvent'') (LoadFromCell AcceptedRequestEvent_layout c)"

definition counter_get :: "('a, 'c, 'p, 'r) ApiEnv \<Rightarrow> ('r \<Rightarrow> nat \<Rightarrow> int res) \<Rightarrow> string \<Rightarrow> 'a \<Rightarrow> u32 res" where
  "counter_get env IntAt key addr =
     bindE (wrapE ''CurrentMasterchainInfo err'' (Api_CurrentMaster env)) (\<lambda>block.
     Uint32From IntAt (Api_RunGetMethod env block addr key []))"

definition GetValue :: "('a, 'c, 'p, 'r) ApiEnv \<Rightarrow> ('r \<Rightarrow> nat \<Rightarrow> int res) \<Rightarrow> 'a \<Rightarrow> u32 res" where
  "GetValue env IntAt addr = counter_get env IntAt ''value'' addr"

definition GetID :: "('a, 'c, 'p, 'r) ApiEnv \<Rightarrow> ('r \<Rightarrow> nat \<Rightarrow> int res) \<Rightarrow> 'a \<Rightarrow> u32 res" where
  "GetID env IntAt addr = counter_get env IntAt ''id'' addr"

section \<open>Static checks\<close>

definition onramp_structs :: "layout list" where
  "onramp_structs = [Ownable2Step_layout, Signature_layout, GenericExtraArgsV2_layout, SVMExtraArgsV1_layout, CCIPSend_layout,
     CCIPMessageSent_layout, DestChainConfig_layout, onramp_Storage_layout]"

definition jetton_structs :: "layout list" where
  "jetton_structs = [Client_layout, MinterInitData_layout, TopUpMessage_layout, ChangeAdminMessage_layout,
     ClaimAdminMessage_layout, DropAdminMessage_layout, ChangeContentMessage_layout, UpgradeMessage_layout, WalletInitData_layout]"

definition example_structs :: "layout list" where
  "example_structs = [SenderInitData_layout, SendJettonsFastMessage_layout, SendJettonsExtendedMessage_layout, OnrampMockInitData_layout,
     InsufficientFeeEvent_layout, AcceptedRequestEvent_layout, SimpleJettonReceiverInitData_layout, ContractData_layout, SetCount_layout,
     IncreaseCount_layout, CountSet_layout, CountIncreased_layout, LazyLoadingContract_layout ContractData_layout]"

lemmas onramp_layouts = Ownable2Step_layout_def Signature_layout_def GenericExtraArgsV2_layout_def SVMExtraArgsV1_layout_def CCIPSend_layout_def
  CCIPMessageSent_layout_def DestChainConfig_layout_def onramp_Storage_layout_def TokenAmount_layout_def DynamicConfig_layout_def

lemmas jetton_layouts = Client_layout_def MinterInitData_layout_def TopUpMessage_layout_def ChangeAdminMessage_layout_def
  ClaimAdminMessage_layout_def DropAdminMessage_layout_def ChangeContentMessage_layout_def UpgradeMessage_layout_def WalletInitData_layout_def

lemmas example_layouts = SenderInitData_layout_def SendJettonsFastMessage_layout_def SendJettonsExtendedMessage_layout_def
  OnrampMockInitData_layout_def InsufficientFeeEvent_layout_def AcceptedRequestEvent_layout_def SimpleJettonReceiverInitData_layout_def
  ContractData_layout_def SetCount_layout_def IncreaseCount_layout_def CountSet_layout_def CountIncreased_layout_def LazyLoadingContract_layout_def

lemma binding_wf: "list_all layout_wf (onramp_structs @ jetton_structs @ example_structs)"
  by (simp add: onramp_structs_def jetton_structs_def example_structs_def onramp_layouts jetton_layouts example_layouts
      layout_wf_def layout_fits_def element_wf_def)

section \<open>Paths of compiled contracts\<close>

lemma split_slash_neq_Nil [simp]: "split_slash s \<noteq> []"
  by (induction s) (auto split: list.splits)

lemma split_slash_name: "CHR ''/'' \<notin> set name \<Longrightarrow> split_slash name = [name]"
  by (induction name) auto

lemma join_slash_append: "ws \<noteq> [] \<Longrightarrow> \<exists>p. join_slash (vs @ ws) = p @ join_slash ws"
proof (induction vs)
  case Nil
  show ?case by (rule exI [of _ "[]"]) simp
next
  case (Cons v vs)
  then obtain p where p: "join_slash (vs @ ws) = p @ join_slash ws" by blast
  obtain u us where us: "vs @ ws = u # us" using Cons.prems by (cases "vs @ ws") auto
  with p have "join_slash ((v # vs) @ ws) = (v @ CHR ''/'' # p) @ join_slash ws" by simp
  then show ?case ..
qed

text \<open>An element of a path that \<open>path.Clean\<close> keeps.\<close>

definition plain_name :: "string \<Rightarrow> bool" where
  "plain_name name = (CHR ''/'' \<notin> set name \<and> name \<noteq> [] \<and> name \<noteq> ''.'' \<and> name \<noteq> ''..'')"

lemma split_join: "list_all plain_name ws \<Longrightarrow> ws \<noteq> [] \<Longrightarrow> split_slash (join_slash ws) = ws"
proof (induction ws rule: join_slash.induct)
  case (3 w v ws)
  have "split_slash (u @ CHR ''/'' # s) = u # split_slash s" if "CHR ''/'' \<notin> set u" for s u :: string
    using that by (induction u) auto
  with 3 show ?case by (simp add: plain_name_def)
qed (simp_all add: plain_name_def split_slash_name)

lemma split_slash_append: "split_slash (dir @ CHR ''/'' # s) = split_slash dir @ split_slash s"
proof (induction dir)
  case (Cons c dir)
  then show ?case by (cases "split_slash dir") auto
qed simp

lemma fold_clean_plain: "list_all plain_name ws \<Longrightarrow> fold (clean_step rooted) ws out = rev ws @ out"
  by (induction ws arbitrary: out) (simp_all add: plain_name_def clean_step_def)

text \<open>Names joined to a directory end its path.\<close>

lemma path_Join_names:
  assumes "list_all plain_name ws" "ws \<noteq> []"
  shows "\<exists>p. path_Join [dir, join_slash ws] = p @ join_slash ws"
proof -
  have clean: "\<exists>p. path_Clean q = p @ join_slash ws" if "split_slash q = vs @ ws" for q vs
  proof -
    from that obtain out where "fold (clean_step (q \<noteq> [] \<and> hd q = CHR ''/'')) (split_slash q) [] = rev ws @ out"
      by (simp only: that fold_append comp_apply fold_clean_plain [OF assms(1)])
    with join_slash_append [OF assms(2), of "rev out"] assms(2) show ?thesis by (auto simp: path_Clean_def Let_def)
  qed
  have "join_slash ws \<noteq> []" using split_join [OF assms] assms by (auto simp: plain_name_def)
  then show ?thesis
    using clean [of "join_slash ws" "[]"] clean [of "dir @ CHR ''/'' # join_slash ws" "split_slash dir"] split_join [OF assms]
    by (cases "dir = []") (simp_all add: path_Join_def split_slash_append)
qed

lemma path_Join_name: "plain_name name \<Longrightarrow> \<exists>p. path_Join [dir, name] = p @ name"
  using path_Join_names [of "[name]"] by simp

lemma compiled_Inr:
  assumes "compiled F (p @ name) = Inr c" "suffix ''.compiled.json'' name"
  shows "\<exists>data hex boc. f_file F (p @ name) = Some (Inr data) \<and> f_json F data ''hex'' = Inr hex \<and> hex \<noteq> [] \<and>
    hex_DecodeString hex = Inr boc \<and> f_FromBOC F boc = Inr c"
proof -
  from assms(2) obtain q where q: "name = q @ ''.compiled.json''" by (auto simp: suffix_def)
  have "suffix ''.compiled.json'' (p @ name)" by (auto simp: q suffix_def)
  moreover have "\<not> suffix ''.pkg'' (p @ name)" by (auto simp: q suffix_def append_eq_append_conv2 append_eq_Cons_conv Cons_eq_append_conv)
  ultimately show ?thesis
    using assms(1) by (auto simp: compiled_def ParseCompiledContract_def tolk_codeCell_def split: option.splits if_splits)
qed

section \<open>Properties\<close>

text \<open>
  C17: The structs of the contract bindings survive the wire: the messages, events and storage of the governance contracts and
  the structs of the on-ramp, the jettons and the examples that \<open>governance_messages\<close>, \<open>governance_storage\<close>, \<open>onramp_structs\<close>,
  \<open>jetton_structs\<close> and \<open>example_structs\<close> list. Each value of such a struct's types fits into cells (\<open>CallScheduled\<close> takes up to 992 of the
  1023 bits), with arrays in chained cells of any length (no limit on the depth of a tree of cells is modelled), and is read
  back. Not among them are the three batch messages, which do not survive, \<open>SetConfig\<close> and \<open>Init\<close>, whose arrays hold elements without tags,
  and the mint and internal transfer messages of jettons.
\<close>

theorem bindings_roundtrip:
  assumes "tlb_laws ToCell LoadFromCell" "struct_typed l vs"
    and "l \<in> set (governance_messages @ governance_storage @ onramp_structs @ jetton_structs @ example_structs)"
  shows "\<exists>c. ToCell l vs = Inr c \<and> LoadFromCell l c = Some (Inr vs)"
proof -
  from binding_wf governance_wf assms(3) have "layout_wf l" by (auto simp: list_all_iff)
  from tlb_laws.roundtrip [OF assms(1) this assms(2)] show ?thesis .
qed

theorem bindings_roundtrip_witness:
  "\<exists>c. struct_enc SetRoot_layout sample_SetRoot = Inr c \<and> struct_dec SetRoot_layout c = Some (Inr sample_SetRoot)"
  by (rule bindings_roundtrip [OF scheme.tlb_laws_axioms sample_SetRoot_typed]) (simp add: governance_messages_def mcms_messages_def)

lemma wallet_init:
  assumes "tlb_laws ToCell LoadFromCell" "address_typed a" "address_typed (MinterAddress p)"
  shows "\<exists>c. GetWalletInitCell ToCell p a = Inr c \<and> LoadFromCell WalletInitData_layout c = Some (Inr [IntV 0, IntV 0, AddrV a, AddrV (MinterAddress p)])"
proof -
  have "struct_typed WalletInitData_layout [IntV 0, IntV 0, AddrV a, AddrV (MinterAddress p)]"
    using assms(2,3) by (simp add: struct_typed_def WalletInitData_layout_def)
  moreover have "layout_wf WalletInitData_layout" by (simp add: WalletInitData_layout_def layout_wf_def layout_fits_def)
  ultimately show ?thesis using tlb_laws.roundtrip [OF assms(1)] by (fastforce simp: GetWalletInitCell_def)
qed

text \<open>
  The initial data of a jetton wallet names its owner and its minter and starts empty, and different
  owners or minters have different initial data, so that no two wallets share the address derived from it.
\<close>

theorem GetWalletInitCell_injective:
  assumes "tlb_laws ToCell LoadFromCell" "address_typed a" "address_typed (MinterAddress p)" "address_typed b" "address_typed (MinterAddress q)"
  shows "\<exists>c d. GetWalletInitCell ToCell p a = Inr c \<and> GetWalletInitCell ToCell q b = Inr d \<and>
    LoadFromCell WalletInitData_layout c = Some (Inr [IntV 0, IntV 0, AddrV a, AddrV (MinterAddress p)]) \<and>
    (c = d \<longleftrightarrow> a = b \<and> MinterAddress p = MinterAddress q)"
proof -
  from wallet_init [OF assms(1-3)] wallet_init [OF assms(1,4,5)] obtain c d where
    c: "GetWalletInitCell ToCell p a = Inr c" "LoadFromCell WalletInitData_layout c = Some (Inr [IntV 0, IntV 0, AddrV a, AddrV (MinterAddress p)])" and
    d: "GetWalletInitCell ToCell q b = Inr d" "LoadFromCell WalletInitData_layout d = Some (Inr [IntV 0, IntV 0, AddrV b, AddrV (MinterAddress q)])"
    by blast
  have "c = d \<longleftrightarrow> a = b \<and> MinterAddress p = MinterAddress q"
  proof
    assume "c = d"
    with c(2) d(2) show "a = b \<and> MinterAddress p = MinterAddress q" by simp
  next
    assume "a = b \<and> MinterAddress p = MinterAddress q"
    with c(1) d(1) show "c = d" by (simp add: GetWalletInitCell_def)
  qed
  with c d show ?thesis by blast
qed

theorem GetWalletInitCell_injective_witness:
  "\<exists>c d. GetWalletInitCell struct_enc (NewWalletProvider None) (Some (0, replicate 32 1)) = Inr c \<and>
    GetWalletInitCell struct_enc (NewWalletProvider None) (Some (0, replicate 32 2)) = Inr d \<and> c \<noteq> d"
  using GetWalletInitCell_injective [OF scheme.tlb_laws_axioms, of "Some (0, replicate 32 1)" "NewWalletProvider None"
      "Some (0, replicate 32 2)" "NewWalletProvider None"]
  by (auto simp: address_typed_def NewWalletProvider_def)

lemma GetBuildDir_name: "GetBuildDir git (join_slash ws) = Inr p \<Longrightarrow> list_all plain_name ws \<Longrightarrow> ws \<noteq> [] \<Longrightarrow> \<exists>q. p = q @ join_slash ws"
  using path_Join_names [of ws] by (auto simp: GetBuildDir_def)

lemma contract_paths:
  assumes "path \<in> {SenderContractPath git, OnrampMockContractPath git, SimpleJettonReceiverContractPath git}" "path = Inr p"
  shows "\<exists>q name. p = q @ name \<and> suffix ''.compiled.json'' name"
proof -
  have key: "\<exists>q name. p = q @ name \<and> suffix ''.compiled.json'' name"
    if "GetBuildDir git name = Inr p" "plain_name name" "suffix ''.compiled.json'' name" for name
    using GetBuildDir_name [of git "[name]" p] that by auto
  from assms consider (sender) "GetBuildDir git ''examples.jetton.JettonSender.compiled.json'' = Inr p"
    | (onramp) "GetBuildDir git ''examples.jetton.OnrampMock.compiled.json'' = Inr p"
    | (receiver) "GetBuildDir git ''examples.jetton.SimpleJettonReceiver.compiled.json'' = Inr p"
    by (auto simp: SenderContractPath_def OnrampMockContractPath_def SimpleJettonReceiverContractPath_def)
  then show ?thesis by cases (erule key, simp add: plain_name_def, simp add: suffix_def)+
qed

lemma Deploy_calls:
  "Deploy env code init amount body = Some (Inr (contract, m)) \<Longrightarrow> \<exists>tx. Wallet_DeployWait env amount body code init = Inr (c_Address contract, tx)"
  by (auto simp: Deploy_def split: if_splits)

text \<open>
  What the example providers deploy: if \<open>Deploy\<close> succeeds, the code is that of the compiled Tolk contract of
  the provider below the repository's build directory (wherever that is), the initial data is the encoded
  struct, and the wallet deployed both with one TON and an empty body to the address of the returned contract.
\<close>

theorem provider_Deploy_code:
  assumes "path \<in> {SenderContractPath git, OnrampMockContractPath git, SimpleJettonReceiverContractPath git}" "path = Inr p"
    and "provider_Deploy env F ToCell l p initData = Some (Inr contract)"
  shows "\<exists>data hex boc code init tx. f_file F p = Some (Inr data) \<and> f_json F data ''hex'' = Inr hex \<and> hex \<noteq> [] \<and>
    hex_DecodeString hex = Inr boc \<and> f_FromBOC F boc = Inr code \<and> ToCell l initData = Inr init \<and>
    Wallet_DeployWait env (10 ^ 9) (TCell [] []) code init = Inr (c_Address contract, tx)"
proof -
  from contract_paths [OF assms(1,2)] obtain q name where p: "p = q @ name" "suffix ''.compiled.json'' name" by blast
  from assms(3) obtain init code m where
    d: "ToCell l initData = Inr init" "compiled F p = Inr code" "Deploy env code init one_TON (TCell [] []) = Some (Inr (contract, m))"
    by (auto simp: provider_Deploy_def deploy_data_def)
  from compiled_Inr [of F q name code] d(2) p obtain data hex boc where
    "f_file F p = Some (Inr data)" "f_json F data ''hex'' = Inr hex" "hex \<noteq> []" "hex_DecodeString hex = Inr boc" "f_FromBOC F boc = Inr code"
    by auto
  with d(1) Deploy_calls [OF d(3)] show ?thesis by (auto simp: one_TON_def)
qed

text \<open>A chain on which a deployment succeeds: the wallet sends one message to the new contract, which receives it.\<close>

definition wire_internal :: "nat \<Rightarrow> nat \<Rightarrow> u64 \<Rightarrow> (nat, tcell) InternalMessage" where
  "wire_internal src dst lt =
     \<lparr>im_SrcAddr = src, im_DstAddr = dst, im_Amount = 100, im_FwdFee = 7, im_CreatedLT = lt, im_Bounced = False, im_Body = None\<rparr>"

definition wire_tx :: "nat \<Rightarrow> nat \<Rightarrow> u64 \<Rightarrow> (nat, tcell) Trace.Message list \<Rightarrow> (nat, tcell) Transaction" where
  "wire_tx src dst lt outs =
     \<lparr>tx_Hash = [], tx_LT = lt + 1, tx_PrevTxLT = 0, tx_PrevTxHash = [],
      tx_In = Some (MsgInternal (wire_internal src dst lt)), tx_Out = Some (Inr outs), tx_TotalFees = 60,
      tx_Description = DescOrdinary \<lparr>d_BouncePhase = None, d_ComputePhase = ComputePhaseVM True 0 30,
        d_StoragePhase = Some 5, d_ActionPhase = Some (Some 11)\<rparr>\<rparr>"

definition wire_chain :: "nat \<Rightarrow> u64 \<Rightarrow> (nat, tcell) Transaction list" where
  "wire_chain a lt = (if a = 3 then [wire_tx 2 3 11 []] else [])"

definition wire_api :: "(nat, tcell, nat, int) ApiEnv" where
  "wire_api = \<lparr>Api_Equals = (=), Api_String = show_nat, Api_SubscribeOn = wire_chain,
     Wallet_SendWait = (\<lambda>m. Inr (wire_tx 1 2 10 [MsgInternal (wire_internal 2 (ws_DstAddr m) 11)], 7)),
     Wallet_DeployWait = (\<lambda>amount body code data. Inr (3, wire_tx 1 2 10 [MsgInternal (wire_internal 2 3 11)])),
     Api_CurrentMaster = Inr 7, Api_MasterAfter = (\<lambda>s k. Inr (s + of_nat k)),
     Api_RunGetMethod = (\<lambda>block a key params. Inr 0)\<rparr>"

definition sample_files :: Compiled where
  "sample_files = \<lparr>f_FromBOC = (\<lambda>bs. Inr (put_bytes bs)), f_file = (\<lambda>path. Some (Inr [])), f_json = (\<lambda>data key. Inr ''b5ee'')\<rparr>"

lemmas wire_tx_simps = wire_internal_def wire_tx_def MapToReceivedMessage_def initial_info_def apply_description_def NewSentMessage_def
  AppendSentMessage_def Let_def

lemma wire_trace:
  assumes "MapToReceivedMessage (wire_tx 1 2 10 [MsgInternal (wire_internal 2 3 11)]) = Inr m0"
  shows "\<exists>m. WaitForTrace (=) wire_chain m0 = Some (m, Inr ()) \<and> rm_ExitCode (info m) = 0 \<and> length (recvs m) = 1"
  using assms by (auto simp: wire_tx_simps WaitForTrace_def Status_def trace_loop.simps wire_chain_def
      WaitForOutgoingMessagesToBeReceived_def MapToReceivedMessageIfMatches_def MatchesReceived_def)

lemma wire_deploys: "\<exists>m. Deploy wire_api code init amount body = Some (Inr (\<lparr>c_Address = 3\<rparr>, m))"
proof -
  obtain m0 where "MapToReceivedMessage (wire_tx 1 2 10 [MsgInternal (wire_internal 2 3 11)]) = Inr m0" by (simp add: wire_tx_simps)
  with wire_trace show ?thesis by (auto simp: Deploy_def wire_api_def Client_WaitForTrace_def)
qed

lemma sample_compiled: "suffix ''.compiled.json'' p \<Longrightarrow> \<exists>code. compiled sample_files p = Inr code"
  by (auto simp: compiled_def ParseCompiledContract_def tolk_codeCell_def sample_files_def hex_value_def suffix_def)

lemma sample_provider:
  assumes "SenderContractPath git = Inr p" "ToCell l initData = Inr init"
  shows "provider_Deploy wire_api sample_files ToCell l p initData = Some (Inr \<lparr>c_Address = 3\<rparr>)"
proof -
  from contract_paths [of "Inr p" git p] assms(1) obtain q name where "p = q @ name" "suffix ''.compiled.json'' name" by auto
  then have "suffix ''.compiled.json'' p" by (auto simp: suffix_def)
  from sample_compiled [OF this] obtain code where "compiled sample_files p = Inr code" by blast
  with assms(2) wire_deploys [of code init one_TON "TCell [] []"] show ?thesis by (auto simp: provider_Deploy_def deploy_data_def)
qed

theorem provider_Deploy_code_witness:
  "\<exists>p data code init tx. SenderContractPath (Inr ''/repo'') = Inr p \<and>
    f_file sample_files p = Some (Inr data) \<and> f_FromBOC sample_files [0xb5, 0xee] = Inr code \<and>
    struct_enc SenderInitData_layout [AddrV None, CellV (TCell [] [])] = Inr init \<and>
    Wallet_DeployWait wire_api (10 ^ 9) (TCell [] []) code init = Inr (3, tx)"
proof -
  obtain p where p: "SenderContractPath (Inr ''/repo'') = Inr p" by (simp add: SenderContractPath_def GetBuildDir_def GetBuildsDir_def GetRepoRootDir_def)
  obtain init where init: "struct_enc SenderInitData_layout [AddrV None, CellV (TCell [] [])] = Inr init"
    by (simp add: struct_enc_def SenderInitData_layout_def end_cell_def address_bits_def)
  from provider_Deploy_code [OF insertI1 p sample_provider [OF p, of struct_enc, OF init]] p init
  show ?thesis by (auto simp: sample_files_def hex_value_def)
qed

text \<open>The constants for the minter's opcodes and the tags of its messages agree.\<close>

definition minter_opcodes :: "(layout \<times> nat) list" where
  "minter_opcodes = [(ChangeAdminMessage_layout, OpcodeMinterChangeAdmin),
     (ClaimAdminMessage_layout, OpcodeMinterClaimAdmin), (DropAdminMessage_layout, OpcodeMinterDropAdmin),
     (ChangeContentMessage_layout, OpcodeMinterChangeMetadataURL), (UpgradeMessage_layout, OpcodeMinterUpgrade)]"

text \<open>
  A minter's messages carry the opcodes the bindings export for it, each its own and none that a wallet takes; the
  messages between minters and wallets have the same opcode on both sides.
\<close>

lemmas wallet_opcodes = OpcodeWalletTransfer_def OpcodeWalletTransferNotification_def OpcodeWalletInternalTransfer_def OpcodeWalletExcesses_def
  OpcodeWalletBurn_def OpcodeWalletBurnNotification_def

lemma jetton_opcodes:
  "list_all (\<lambda>(l, c). opcode l = Some c) minter_opcodes \<and>
   distinct (OpcodeMinterMint # map snd minter_opcodes @ [OpcodeWalletTransfer, OpcodeWalletTransferNotification, OpcodeWalletInternalTransfer, OpcodeWalletExcesses,
     OpcodeWalletBurn, OpcodeWalletBurnNotification]) \<and>
   OpcodeMinterInternalTransfer = OpcodeWalletInternalTransfer \<and> OpcodeMinterExcesses = OpcodeWalletExcesses \<and>
   OpcodeMinterBurnNotification = OpcodeWalletBurnNotification"
  by (simp add: wallet_opcodes OpcodeMinterInternalTransfer_def OpcodeMinterExcesses_def OpcodeMinterBurnNotification_def minter_opcodes_def jetton_layouts OpcodeMinterMint_def OpcodeMinterChangeAdmin_def OpcodeMinterClaimAdmin_def
      OpcodeMinterDropAdmin_def OpcodeMinterChangeMetadataURL_def OpcodeMinterUpgrade_def)

end
