(* ===== verification/Async_Wrappers.thy ===== *)
theory Async_Wrappers
  imports Bindings
begin

text \<open>
  The wrappers of the asynchronous example contracts, under
  \<open>integration-tests/tracetracking/async/wrappers\<close>: four packages, with a provider that deploys each contract, the
  messages it takes and its getter. They drive the contract wrapper of \<open>Api_Client\<close> over the layouts of
  \<open>Tlb_Layout\<close>, and the tests of the trace tracking run on them. A provider is the client it holds and a
  wrapper its contract, so that both are the environment and the address here. Query identifiers are random and are
  arguments, as are the paths that the packages compute when they are loaded.
\<close>

text \<open>\<open>tlb.MustFromTON("0.5")\<close>, in nanotons.\<close>

definition half_TON :: int where
  "half_TON = 5 * 10 ^ 8"

text \<open>The part the \<open>Deploy\<close> methods share.\<close>

definition async_Deploy ::
  "('a, tcell, 'p, 'r) ApiEnv \<Rightarrow> Compiled \<Rightarrow> (layout \<Rightarrow> val list \<Rightarrow> tcell res) \<Rightarrow> layout \<Rightarrow> string \<Rightarrow> val list \<Rightarrow> 'a Contract res option" where
  "async_Deploy env F ToCell initLayout contractPath initData =
     deploy_data ''failed to serialize init data'' env F ToCell initLayout contractPath initData"

section \<open>Request and reply\<close>

definition requestreply_ItemPriceContractPath :: "string res \<Rightarrow> string res" where
  "requestreply_ItemPriceContractPath git = GetBuildDir git ''examples.async-communication.request-reply.ItemPrice/tact_ItemPrice.pkg''"

definition requestreply_ItemPriceInitData_layout :: layout where
  "requestreply_ItemPriceInitData_layout = [Plain (UInt 32), Plain (UInt 64)]"

definition requestreply_ItemPrice_Deploy where
  "requestreply_ItemPrice_Deploy env F ToCell path initData = async_Deploy env F ToCell requestreply_ItemPriceInitData_layout path initData"

definition requestreply_PriceRegistryContractPath :: "string res \<Rightarrow> string res" where
  "requestreply_PriceRegistryContractPath git = GetBuildDir git ''examples.async-communication.request-reply.PriceRegistry/tact_PriceRegistry.pkg''"

definition requestreply_PriceRegistryInitData_layout :: layout where
  "requestreply_PriceRegistryInitData_layout = [Plain (UInt 32)]"

definition requestreply_PriceRegistry_Deploy where
  "requestreply_PriceRegistry_Deploy env F ToCell path initData = async_Deploy env F ToCell (LazyLoadingContract_layout requestreply_PriceRegistryInitData_layout) path (LazyLoadingTactContractInitData initData)"

definition AddPriceItemMessage_layout :: layout where
  "AddPriceItemMessage_layout = [Plain (Magic 3), Plain (UInt 64), Plain (UInt 8), Plain Addr]"

definition SendAddPriceItem ::
  "('a, tcell, 'p, 'r) ApiEnv \<Rightarrow> (layout \<Rightarrow> val list \<Rightarrow> tcell res) \<Rightarrow> u64 \<Rightarrow> 'a Contract \<Rightarrow> u8 \<Rightarrow> Address \<Rightarrow> ('a, tcell) ReceivedMessage res option" where
  "SendAddPriceItem env ToCell queryID c key addr = CallWaitRecursively env (ToCell AddPriceItemMessage_layout) c
     [UnitV, IntV (uint queryID), IntV (uint key), AddrV addr] half_TON"

definition requestreply_StorageContractPath :: "string res \<Rightarrow> string res" where
  "requestreply_StorageContractPath git = GetBuildDir git ''examples.async-communication.request-reply.Storage/tact_Storage.pkg''"

definition requestreply_StorageInitData_layout :: layout where
  "requestreply_StorageInitData_layout = [Plain (UInt 32)]"

definition requestreply_Storage_Deploy where
  "requestreply_Storage_Deploy env F ToCell path initData = async_Deploy env F ToCell (LazyLoadingContract_layout requestreply_StorageInitData_layout) path (LazyLoadingTactContractInitData initData)"

definition getPriceFromMessage_layout :: layout where
  "getPriceFromMessage_layout = [Plain (Magic 1), Plain (UInt 64), Plain Addr, Plain (UInt 8)]"

definition SendGetPriceFrom ::
  "('a, tcell, 'p, 'r) ApiEnv \<Rightarrow> (layout \<Rightarrow> val list \<Rightarrow> tcell res) \<Rightarrow> u64 \<Rightarrow> 'a Contract \<Rightarrow> Address \<Rightarrow> u8 \<Rightarrow> ('a, tcell) ReceivedMessage res option" where
  "SendGetPriceFrom env ToCell queryID c priceRegistry key = CallWaitRecursively env (ToCell getPriceFromMessage_layout) c
     [UnitV, IntV (uint queryID), AddrV priceRegistry, IntV (uint key)] half_TON"

definition requestreply_Storage_GetValue :: "('a, 'c, 'p, 'r) ApiEnv \<Rightarrow> ('r \<Rightarrow> nat \<Rightarrow> int res) \<Rightarrow> 'a Contract \<Rightarrow> u64 res" where
  "requestreply_Storage_GetValue env IntAt c = Uint64From IntAt (Contract_Get env c ''value'' [])"

section \<open>Request and reply with two dependencies\<close>

definition two_dependencies_InventoryContractPath :: "string res \<Rightarrow> string res" where
  "two_dependencies_InventoryContractPath git = GetBuildDir git ''examples.async-communication.request-reply-with-two-dependencies.Inventory/tact_Inventory.pkg''"

definition two_dependencies_InventoryInitData_layout :: layout where
  "two_dependencies_InventoryInitData_layout = [Plain (UInt 32)]"

definition two_dependencies_Inventory_Deploy where
  "two_dependencies_Inventory_Deploy env F ToCell path initData = async_Deploy env F ToCell (LazyLoadingContract_layout two_dependencies_InventoryInitData_layout) path (LazyLoadingTactContractInitData initData)"

definition AddItemMessage_layout :: layout where
  "AddItemMessage_layout = [Plain (Magic 2), Plain (UInt 64), Plain (UInt 8), Plain Addr, Plain Addr]"

definition SendAddItem ::
  "('a, tcell, 'p, 'r) ApiEnv \<Rightarrow> (layout \<Rightarrow> val list \<Rightarrow> tcell res) \<Rightarrow> u64 \<Rightarrow> 'a Contract \<Rightarrow> u8 \<Rightarrow> Address \<Rightarrow> Address \<Rightarrow> ('a, tcell) ReceivedMessage res option" where
  "SendAddItem env ToCell queryID c key priceAddr countAddr = CallWaitRecursively env (ToCell AddItemMessage_layout) c
     [UnitV, IntV (uint queryID), IntV (uint key), AddrV priceAddr, AddrV countAddr] half_TON"

definition two_dependencies_ItemCountContractPath :: "string res \<Rightarrow> string res" where
  "two_dependencies_ItemCountContractPath git = GetBuildDir git ''examples.async-communication.request-reply-with-two-dependencies.ItemCount/tact_ItemCount.pkg''"

definition two_dependencies_ItemCountInitData_layout :: layout where
  "two_dependencies_ItemCountInitData_layout = [Plain (UInt 32), Plain (UInt 64)]"

definition two_dependencies_ItemCount_Deploy where
  "two_dependencies_ItemCount_Deploy env F ToCell path initData = async_Deploy env F ToCell two_dependencies_ItemCountInitData_layout path initData"

definition two_dependencies_ItemPriceContractPath :: "string res \<Rightarrow> string res" where
  "two_dependencies_ItemPriceContractPath git = GetBuildDir git ''examples.async-communication.request-reply-with-two-dependencies.ItemPrice/tact_ItemPrice.pkg''"

definition two_dependencies_ItemPriceInitData_layout :: layout where
  "two_dependencies_ItemPriceInitData_layout = [Plain (UInt 32), Plain (UInt 64)]"

definition two_dependencies_ItemPrice_Deploy where
  "two_dependencies_ItemPrice_Deploy env F ToCell path initData = async_Deploy env F ToCell two_dependencies_ItemPriceInitData_layout path initData"

definition two_dependencies_StorageContractPath :: "string res \<Rightarrow> string res" where
  "two_dependencies_StorageContractPath git = GetBuildDir git ''examples.async-communication.request-reply.Storage/tact_Storage.pkg''"

definition two_dependencies_StorageInitData_layout :: layout where
  "two_dependencies_StorageInitData_layout = [Plain (UInt 32)]"

definition two_dependencies_Storage_Deploy where
  "two_dependencies_Storage_Deploy env F ToCell path initData = async_Deploy env F ToCell (LazyLoadingContract_layout two_dependencies_StorageInitData_layout) path (LazyLoadingTactContractInitData initData)"

definition getCapitalFromMessage_layout :: layout where
  "getCapitalFromMessage_layout = [Plain (Magic 1), Plain (UInt 64), Plain Addr, Plain (UInt 8)]"

definition SendGetCapitalFrom ::
  "('a, tcell, 'p, 'r) ApiEnv \<Rightarrow> (layout \<Rightarrow> val list \<Rightarrow> tcell res) \<Rightarrow> u64 \<Rightarrow> 'a Contract \<Rightarrow> Address \<Rightarrow> u8 \<Rightarrow> ('a, tcell) ReceivedMessage res option" where
  "SendGetCapitalFrom env ToCell queryID c priceRegistry key = CallWaitRecursively env (ToCell getCapitalFromMessage_layout) c
     [UnitV, IntV (uint queryID), AddrV priceRegistry, IntV (uint key)] half_TON"

definition two_dependencies_Storage_GetValue :: "('a, 'c, 'p, 'r) ApiEnv \<Rightarrow> ('r \<Rightarrow> nat \<Rightarrow> int res) \<Rightarrow> 'a Contract \<Rightarrow> u64 res" where
  "two_dependencies_Storage_GetValue env IntAt c = Uint64From IntAt (Contract_Get env c ''value'' [])"

section \<open>A chain of two messages\<close>

definition twomsgchain_MemoryContractPath :: "string res \<Rightarrow> string res" where
  "twomsgchain_MemoryContractPath git = GetBuildDir git ''examples.async-communication.two-msg-chain.Memory/tact_Memory.pkg''"

definition twomsgchain_MemoryInitData_layout :: layout where
  "twomsgchain_MemoryInitData_layout = [Plain (UInt 32), Plain (Magic 0)]"

definition twomsgchain_Memory_Deploy where
  "twomsgchain_Memory_Deploy env F ToCell path initData = async_Deploy env F ToCell (LazyLoadingContract_layout twomsgchain_MemoryInitData_layout) path (LazyLoadingTactContractInitData initData)"

definition twomsgchain_setValueMessage_layout :: layout where
  "twomsgchain_setValueMessage_layout = [Plain (Magic 1), Plain (UInt 64), Plain (UInt 32)]"

definition Memory_SendSetValue ::
  "('a, tcell, 'p, 'r) ApiEnv \<Rightarrow> (layout \<Rightarrow> val list \<Rightarrow> tcell res) \<Rightarrow> u64 \<Rightarrow> 'a Contract \<Rightarrow> u32 \<Rightarrow> ('a, tcell) ReceivedMessage res option" where
  "Memory_SendSetValue env ToCell queryID c i = CallWaitRecursively env (ToCell twomsgchain_setValueMessage_layout) c
     [UnitV, IntV (uint queryID), IntV (uint i)] half_TON"

definition twomsgchain_Memory_GetValue :: "('a, 'c, 'p, 'r) ApiEnv \<Rightarrow> ('r \<Rightarrow> nat \<Rightarrow> int res) \<Rightarrow> 'a Contract \<Rightarrow> u32 res" where
  "twomsgchain_Memory_GetValue env IntAt c = Uint32From IntAt (Contract_Get env c ''value'' [])"

definition twomsgchain_StorageContractPath :: "string res \<Rightarrow> string res" where
  "twomsgchain_StorageContractPath git = GetBuildDir git ''examples.async-communication.two-msg-chain.Storage/tact_Storage.pkg''"

definition twomsgchain_StorageInitData_layout :: layout where
  "twomsgchain_StorageInitData_layout = [Plain (UInt 32), Plain Addr]"

definition twomsgchain_Storage_Deploy where
  "twomsgchain_Storage_Deploy env F ToCell path initData = async_Deploy env F ToCell twomsgchain_StorageInitData_layout path initData"

definition storeMessage_layout :: layout where
  "storeMessage_layout = [Plain (Magic 1), Plain (UInt 64), Plain (UInt 32)]"

definition SendStore ::
  "('a, tcell, 'p, 'r) ApiEnv \<Rightarrow> (layout \<Rightarrow> val list \<Rightarrow> tcell res) \<Rightarrow> u64 \<Rightarrow> 'a Contract \<Rightarrow> u32 \<Rightarrow> ('a, tcell) ReceivedMessage res option" where
  "SendStore env ToCell queryID c i = CallWaitRecursively env (ToCell storeMessage_layout) c
     [UnitV, IntV (uint queryID), IntV (uint i)] half_TON"

section \<open>Two-phase commit\<close>

definition twophasecommit_CounterContractPath :: "string res \<Rightarrow> string res" where
  "twophasecommit_CounterContractPath git = GetBuildDir git ''examples.async-communication.two-phase-commit.Counter/tact_Counter.pkg''"

definition twophasecommit_CounterInitData_layout :: layout where
  "twophasecommit_CounterInitData_layout = [Plain (UInt 32), Plain (UInt 32), Plain BoolTag]"

definition twophasecommit_Counter_Deploy where
  "twophasecommit_Counter_Deploy env F ToCell path initData = async_Deploy env F ToCell (LazyLoadingContract_layout twophasecommit_CounterInitData_layout) path (LazyLoadingTactContractInitData initData)"

definition sendAckMessage_layout :: layout where
  "sendAckMessage_layout = [Plain (Magic 3), Plain (UInt 64)]"

definition SendAck ::
  "('a, tcell, 'p, 'r) ApiEnv \<Rightarrow> (layout \<Rightarrow> val list \<Rightarrow> tcell res) \<Rightarrow> u64 \<Rightarrow> 'a Contract \<Rightarrow> ('a, tcell) ReceivedMessage res option" where
  "SendAck env ToCell queryID c = CallWaitRecursively env (ToCell sendAckMessage_layout) c
     [UnitV, IntV (uint queryID)] half_TON"

definition twophasecommit_Counter_GetValue :: "('a, 'c, 'p, 'r) ApiEnv \<Rightarrow> ('r \<Rightarrow> nat \<Rightarrow> int res) \<Rightarrow> 'a Contract \<Rightarrow> u32 res" where
  "twophasecommit_Counter_GetValue env IntAt c = Uint32From IntAt (Contract_Get env c ''value'' [])"

definition twophasecommit_DBContractPath :: "string res \<Rightarrow> string res" where
  "twophasecommit_DBContractPath git = GetBuildDir git ''examples.async-communication.two-phase-commit.DB/tact_DB.pkg''"

definition twophasecommit_DBInitData_layout :: layout where
  "twophasecommit_DBInitData_layout = [Plain (UInt 32)]"

definition twophasecommit_DB_Deploy where
  "twophasecommit_DB_Deploy env F ToCell path initData = async_Deploy env F ToCell (LazyLoadingContract_layout twophasecommit_DBInitData_layout) path (LazyLoadingTactContractInitData initData)"

definition beginTransactionMessage_layout :: layout where
  "beginTransactionMessage_layout = [Plain (Magic 1), Plain (UInt 64)]"

definition SendBeginTransaction ::
  "('a, tcell, 'p, 'r) ApiEnv \<Rightarrow> (layout \<Rightarrow> val list \<Rightarrow> tcell res) \<Rightarrow> u64 \<Rightarrow> 'a Contract \<Rightarrow> ('a, tcell) ReceivedMessage res option" where
  "SendBeginTransaction env ToCell queryID c = CallWaitRecursively env (ToCell beginTransactionMessage_layout) c
     [UnitV, IntV (uint queryID)] half_TON"

definition twophasecommit_setValueMessage_layout :: layout where
  "twophasecommit_setValueMessage_layout = [Plain (Magic 2), Plain (UInt 64), Plain Addr, Plain (UInt 32)]"

definition DB_SendSetValue ::
  "('a, tcell, 'p, 'r) ApiEnv \<Rightarrow> (layout \<Rightarrow> val list \<Rightarrow> tcell res) \<Rightarrow> u64 \<Rightarrow> 'a Contract \<Rightarrow> Address \<Rightarrow> u32 \<Rightarrow> ('a, tcell) ReceivedMessage res option" where
  "DB_SendSetValue env ToCell queryID c counterAddr value = CallWaitRecursively env (ToCell twophasecommit_setValueMessage_layout) c
     [UnitV, IntV (uint queryID), AddrV counterAddr, IntV (uint value)] half_TON"

definition commitMessage_layout :: layout where
  "commitMessage_layout = [Plain (Magic 5), Plain (UInt 64)]"

definition SendCommit ::
  "('a, tcell, 'p, 'r) ApiEnv \<Rightarrow> (layout \<Rightarrow> val list \<Rightarrow> tcell res) \<Rightarrow> u64 \<Rightarrow> 'a Contract \<Rightarrow> ('a, tcell) ReceivedMessage res option" where
  "SendCommit env ToCell queryID c = CallWaitRecursively env (ToCell commitMessage_layout) c
     [UnitV, IntV (uint queryID)] half_TON"

section \<open>Structs\<close>

definition async_structs :: "layout list" where
  "async_structs = [requestreply_ItemPriceInitData_layout, LazyLoadingContract_layout requestreply_PriceRegistryInitData_layout,
     AddPriceItemMessage_layout, LazyLoadingContract_layout requestreply_StorageInitData_layout, getPriceFromMessage_layout,
     LazyLoadingContract_layout two_dependencies_InventoryInitData_layout, AddItemMessage_layout, two_dependencies_ItemCountInitData_layout,
     two_dependencies_ItemPriceInitData_layout, LazyLoadingContract_layout two_dependencies_StorageInitData_layout, getCapitalFromMessage_layout,
     LazyLoadingContract_layout twomsgchain_MemoryInitData_layout, twomsgchain_setValueMessage_layout, twomsgchain_StorageInitData_layout,
     storeMessage_layout, LazyLoadingContract_layout twophasecommit_CounterInitData_layout, sendAckMessage_layout, LazyLoadingContract_layout
     twophasecommit_DBInitData_layout, beginTransactionMessage_layout, twophasecommit_setValueMessage_layout, commitMessage_layout]"

lemmas async_layouts = requestreply_ItemPriceInitData_layout_def requestreply_PriceRegistryInitData_layout_def AddPriceItemMessage_layout_def
     requestreply_StorageInitData_layout_def getPriceFromMessage_layout_def two_dependencies_InventoryInitData_layout_def AddItemMessage_layout_def
     two_dependencies_ItemCountInitData_layout_def two_dependencies_ItemPriceInitData_layout_def two_dependencies_StorageInitData_layout_def
     getCapitalFromMessage_layout_def twomsgchain_MemoryInitData_layout_def twomsgchain_setValueMessage_layout_def
     twomsgchain_StorageInitData_layout_def storeMessage_layout_def twophasecommit_CounterInitData_layout_def sendAckMessage_layout_def
     twophasecommit_DBInitData_layout_def beginTransactionMessage_layout_def twophasecommit_setValueMessage_layout_def commitMessage_layout_def
     LazyLoadingContract_layout_def

lemma async_wf: "list_all layout_wf async_structs"
  by (simp add: async_structs_def async_layouts layout_wf_def layout_fits_def element_wf_def)

section \<open>Deploying\<close>

text \<open>The providers of the four packages: path, deployment, and the struct that becomes the initial data.\<close>

definition async_providers ::
  "('a, tcell, 'p, 'r) ApiEnv \<Rightarrow> Compiled \<Rightarrow> (layout \<Rightarrow> val list \<Rightarrow> tcell res) \<Rightarrow> string res \<Rightarrow> val list \<Rightarrow>
     (string res \<times> (string \<Rightarrow> val list \<Rightarrow> 'a Contract res option) \<times> layout \<times> val list) list" where
  "async_providers env F ToCell git data = [
     (requestreply_ItemPriceContractPath git, requestreply_ItemPrice_Deploy env F ToCell, requestreply_ItemPriceInitData_layout, data),
     (requestreply_PriceRegistryContractPath git, requestreply_PriceRegistry_Deploy env F ToCell, LazyLoadingContract_layout requestreply_PriceRegistryInitData_layout, LazyLoadingTactContractInitData data),
     (requestreply_StorageContractPath git, requestreply_Storage_Deploy env F ToCell, LazyLoadingContract_layout requestreply_StorageInitData_layout, LazyLoadingTactContractInitData data),
     (two_dependencies_InventoryContractPath git, two_dependencies_Inventory_Deploy env F ToCell, LazyLoadingContract_layout two_dependencies_InventoryInitData_layout, LazyLoadingTactContractInitData data),
     (two_dependencies_ItemCountContractPath git, two_dependencies_ItemCount_Deploy env F ToCell, two_dependencies_ItemCountInitData_layout, data),
     (two_dependencies_ItemPriceContractPath git, two_dependencies_ItemPrice_Deploy env F ToCell, two_dependencies_ItemPriceInitData_layout, data),
     (two_dependencies_StorageContractPath git, two_dependencies_Storage_Deploy env F ToCell, LazyLoadingContract_layout two_dependencies_StorageInitData_layout, LazyLoadingTactContractInitData data),
     (twomsgchain_MemoryContractPath git, twomsgchain_Memory_Deploy env F ToCell, LazyLoadingContract_layout twomsgchain_MemoryInitData_layout, LazyLoadingTactContractInitData data),
     (twomsgchain_StorageContractPath git, twomsgchain_Storage_Deploy env F ToCell, twomsgchain_StorageInitData_layout, data),
     (twophasecommit_CounterContractPath git, twophasecommit_Counter_Deploy env F ToCell, LazyLoadingContract_layout twophasecommit_CounterInitData_layout, LazyLoadingTactContractInitData data),
     (twophasecommit_DBContractPath git, twophasecommit_DB_Deploy env F ToCell, LazyLoadingContract_layout twophasecommit_DBInitData_layout, LazyLoadingTactContractInitData data)]"

lemmas async_paths = requestreply_ItemPriceContractPath_def requestreply_PriceRegistryContractPath_def requestreply_StorageContractPath_def
  two_dependencies_InventoryContractPath_def two_dependencies_ItemCountContractPath_def two_dependencies_ItemPriceContractPath_def
  two_dependencies_StorageContractPath_def twomsgchain_MemoryContractPath_def twomsgchain_StorageContractPath_def
  twophasecommit_CounterContractPath_def twophasecommit_DBContractPath_def

lemmas async_Deploys = requestreply_ItemPrice_Deploy_def requestreply_PriceRegistry_Deploy_def requestreply_Storage_Deploy_def
  two_dependencies_Inventory_Deploy_def two_dependencies_ItemCount_Deploy_def two_dependencies_ItemPrice_Deploy_def
  two_dependencies_Storage_Deploy_def twomsgchain_Memory_Deploy_def twomsgchain_Storage_Deploy_def
  twophasecommit_Counter_Deploy_def twophasecommit_DB_Deploy_def

definition async_names :: "string list list" where
  "async_names = map (\<lambda>(dir, name). [''examples.async-communication.'' @ dir @ ''.'' @ name, ''tact_'' @ name @ ''.pkg''])
     [(''request-reply'', ''ItemPrice''), (''request-reply'', ''PriceRegistry''), (''request-reply'', ''Storage''),
      (''request-reply-with-two-dependencies'', ''Inventory''), (''request-reply-with-two-dependencies'', ''ItemCount''),
      (''request-reply-with-two-dependencies'', ''ItemPrice''), (''request-reply'', ''Storage''), (''two-msg-chain'', ''Memory''),
      (''two-msg-chain'', ''Storage''), (''two-phase-commit'', ''Counter''), (''two-phase-commit'', ''DB'')]"

lemma async_names_plain: "list_all (\<lambda>ws. list_all plain_name ws \<and> ws \<noteq> [] \<and> suffix ''.pkg'' (join_slash ws)) async_names"
  by (simp add: async_names_def plain_name_def suffix_def)

lemma async_provider_paths: "map fst (async_providers env F ToCell git data) = map (\<lambda>ws. GetBuildDir git (join_slash ws)) async_names"
  by (simp add: async_providers_def async_paths async_names_def)

lemma async_provider_deploys:
  "list_all (\<lambda>(path, deploy, l, vs). \<forall>p. deploy p data = async_Deploy env F ToCell l p vs) (async_providers env F ToCell git data)"
  by (simp add: async_providers_def async_Deploys)

lemma pkg_Inr:
  assumes "compiled F p = Inr c" "suffix ''.pkg'' p"
  shows "\<exists>content code64 boc. f_file F p = Some (Inr content) \<and> f_json F content ''code'' = Inr code64 \<and> code64 \<noteq> [] \<and>
    std_DecodeString code64 = Inr boc \<and> f_FromBOC F boc = Inr c"
  using assms by (auto simp: compiled_def ParseCompiledContract_def tact_codeCell_def split: option.splits if_splits)

lemma async_provider_pkg:
  assumes "(Inr p, deploy, l, vs) \<in> set (async_providers env F ToCell git data)"
  shows "suffix ''.pkg'' p"
proof -
  from assms have "Inr p \<in> set (map fst (async_providers env F ToCell git data))" by force
  then obtain ws where ws: "ws \<in> set async_names" "GetBuildDir git (join_slash ws) = Inr p"
    unfolding async_provider_paths by auto
  from ws(1) async_names_plain have plain: "list_all plain_name ws" "ws \<noteq> []" "suffix ''.pkg'' (join_slash ws)"
    by (simp_all add: list_all_iff)
  from GetBuildDir_name [OF ws(2) plain(1,2)] plain(3) show ?thesis by (auto simp: suffix_def)
qed

text \<open>
  What the providers of the asynchronous examples deploy: if a \<open>Deploy\<close> succeeds, the code is the one in the
  compiled Tact package at the provider's path, the initial data is the encoded struct (behind an unset bit where the
  contract loads lazily), and the wallet deployed both with one TON and an empty body to the address of the returned
  contract.
\<close>

theorem async_Deploy_code:
  assumes "(Inr p, deploy, l, vs) \<in> set (async_providers env F ToCell git data)" "deploy p data = Some (Inr contract)"
  shows "\<exists>content code64 boc code init tx. f_file F p = Some (Inr content) \<and> f_json F content ''code'' = Inr code64 \<and> code64 \<noteq> [] \<and>
    std_DecodeString code64 = Inr boc \<and> f_FromBOC F boc = Inr code \<and> ToCell l vs = Inr init \<and>
    Wallet_DeployWait env (10 ^ 9) (TCell [] []) code init = Inr (c_Address contract, tx)"
proof -
  from async_provider_deploys assms(1) have "deploy p data = async_Deploy env F ToCell l p vs" by (fastforce simp: list_all_iff)
  with assms(2) obtain init code m where
    d: "ToCell l vs = Inr init" "compiled F p = Inr code" "Deploy env code init one_TON (TCell [] []) = Some (Inr (contract, m))"
    by (auto simp: async_Deploy_def deploy_data_def)
  from pkg_Inr [OF d(2) async_provider_pkg [OF assms(1)]] d(1) Deploy_calls [OF d(3)] show ?thesis
    by (auto simp: one_TON_def)
qed

definition async_files :: Compiled where
  "async_files = \<lparr>f_FromBOC = (\<lambda>bs. Inr (put_bytes bs)), f_file = (\<lambda>path. Some (Inr [])), f_json = (\<lambda>content key. Inr ''te4='')\<rparr>"

lemma async_sample_code: "std_DecodeString ''te4='' = Inr [0xb5, 0xee]"
  by code_simp

theorem async_Deploy_code_witness:
  "\<exists>p content boc code init tx. twophasecommit_CounterContractPath (Inr ''/repo'') = Inr p \<and> f_file async_files p = Some (Inr content) \<and>
    f_FromBOC async_files boc = Inr code \<and>
    struct_enc (LazyLoadingContract_layout twophasecommit_CounterInitData_layout) [BoolV False, IntV 7, IntV 0, BoolV True] = Inr init \<and>
    Wallet_DeployWait wire_api (10 ^ 9) (TCell [] []) code init = Inr (3, tx)"
proof -
  let ?data = "[IntV 7, IntV 0, BoolV True]" and ?l = "LazyLoadingContract_layout twophasecommit_CounterInitData_layout"
  obtain p where p: "twophasecommit_CounterContractPath (Inr ''/repo'') = Inr p"
    by (simp add: async_paths GetBuildDir_def GetBuildsDir_def GetRepoRootDir_def)
  then have mem: "(Inr p, twophasecommit_Counter_Deploy wire_api async_files struct_enc, ?l, LazyLoadingTactContractInitData ?data)
      \<in> set (async_providers wire_api async_files struct_enc (Inr ''/repo'') ?data)"
    by (simp add: async_providers_def)
  obtain init where init: "struct_enc ?l (LazyLoadingTactContractInitData ?data) = Inr init"
    by (simp add: struct_enc_def async_layouts LazyLoadingTactContractInitData_def end_cell_def)
  have "compiled async_files p = Inr (put_bytes [0xb5, 0xee])"
    using async_provider_pkg [OF mem]
    by (simp add: compiled_def ParseCompiledContract_def tact_codeCell_def async_files_def async_sample_code)
  with init wire_deploys [of "put_bytes [0xb5, 0xee]" init one_TON "TCell [] []"]
  have "twophasecommit_Counter_Deploy wire_api async_files struct_enc p ?data = Some (Inr \<lparr>c_Address = 3\<rparr>)"
    by (auto simp: async_Deploys async_Deploy_def deploy_data_def)
  from async_Deploy_code [OF mem this] p show ?thesis by (auto simp: LazyLoadingTactContractInitData_def)
qed

text \<open>Paths that end in names of which neither ends the other are different.\<close>

lemma GetBuildDir_distinct:
  assumes "list_all (\<lambda>ws. list_all plain_name ws \<and> ws \<noteq> []) names"
    and "sorted_wrt (\<lambda>v w. \<not> suffix (join_slash v) (join_slash w) \<and> \<not> suffix (join_slash w) (join_slash v)) names"
  shows "distinct (map (\<lambda>ws. GetBuildDir (Inr out) (join_slash ws)) names)"
  using assms
proof (induction names)
  case (Cons v names)
  have "GetBuildDir (Inr out) (join_slash v) \<noteq> GetBuildDir (Inr out) (join_slash w)" if w: "w \<in> set names" for w
  proof
    obtain p where p: "GetBuildDir (Inr out) (join_slash v) = Inr p" by (simp add: GetBuildDir_def GetBuildsDir_def GetRepoRootDir_def)
    assume "GetBuildDir (Inr out) (join_slash v) = GetBuildDir (Inr out) (join_slash w)"
    with p GetBuildDir_name [of "Inr out" v p] GetBuildDir_name [of "Inr out" w p] Cons.prems(1) w
    have "suffix (join_slash v) p" "suffix (join_slash w) p" by (auto simp: list_all_iff suffix_def)
    with suffix_same_cases Cons.prems(2) w show False by fastforce
  qed
  with Cons show ?case by auto
qed simp

text \<open>
  A flaw: the wrapper of the storage contract with two dependencies deploys the storage contract of the other example. All
  other providers have paths of their own.
\<close>

theorem async_paths_clash:
  assumes "git = Inr out"
  shows "two_dependencies_StorageContractPath git = requestreply_StorageContractPath git \<and>
    distinct [requestreply_ItemPriceContractPath git, requestreply_PriceRegistryContractPath git, requestreply_StorageContractPath git,
      two_dependencies_InventoryContractPath git, two_dependencies_ItemCountContractPath git, two_dependencies_ItemPriceContractPath git,
      twomsgchain_MemoryContractPath git, twomsgchain_StorageContractPath git, twophasecommit_CounterContractPath git, twophasecommit_DBContractPath git]"
proof -
  let ?names = "take 6 async_names @ drop 7 async_names"
  have "list_all (\<lambda>ws. list_all plain_name ws \<and> ws \<noteq> []) ?names" by (simp add: async_names_def plain_name_def)
  moreover have "sorted_wrt (\<lambda>v w. \<not> suffix (join_slash v) (join_slash w) \<and> \<not> suffix (join_slash w) (join_slash v)) ?names"
    by code_simp
  ultimately have "distinct (map (\<lambda>ws. GetBuildDir (Inr out) (join_slash ws)) ?names)" by (rule GetBuildDir_distinct)
  then show ?thesis by (simp add: assms async_names_def async_paths)
qed

theorem async_paths_clash_witness:
  "two_dependencies_StorageContractPath (Inr ''/repo'') = requestreply_StorageContractPath (Inr ''/repo'') \<and>
    requestreply_StorageContractPath (Inr ''/repo'') \<noteq> twomsgchain_StorageContractPath (Inr ''/repo'')"
  using async_paths_clash [of "Inr ''/repo''" "''/repo''"] by auto

section \<open>Sending\<close>

text \<open>The send operations with the struct and the field values each encodes.\<close>

definition async_sends ::
  "('a, tcell, 'p, 'r) ApiEnv \<Rightarrow> (layout \<Rightarrow> val list \<Rightarrow> tcell res) \<Rightarrow> u64 \<Rightarrow> 'a Contract \<Rightarrow> u8 \<Rightarrow> u32 \<Rightarrow> Address \<Rightarrow> Address \<Rightarrow>
     (('a, tcell) ReceivedMessage res option \<times> layout \<times> val list) list" where
  "async_sends env ToCell q c k n a b = [
     (SendAddPriceItem env ToCell q c k a, AddPriceItemMessage_layout, [UnitV, IntV (uint q), IntV (uint k), AddrV a]),
     (SendGetPriceFrom env ToCell q c a k, getPriceFromMessage_layout, [UnitV, IntV (uint q), AddrV a, IntV (uint k)]),
     (SendAddItem env ToCell q c k a b, AddItemMessage_layout, [UnitV, IntV (uint q), IntV (uint k), AddrV a, AddrV b]),
     (SendGetCapitalFrom env ToCell q c a k, getCapitalFromMessage_layout, [UnitV, IntV (uint q), AddrV a, IntV (uint k)]),
     (Memory_SendSetValue env ToCell q c n, twomsgchain_setValueMessage_layout, [UnitV, IntV (uint q), IntV (uint n)]),
     (SendStore env ToCell q c n, storeMessage_layout, [UnitV, IntV (uint q), IntV (uint n)]),
     (SendAck env ToCell q c, sendAckMessage_layout, [UnitV, IntV (uint q)]),
     (SendBeginTransaction env ToCell q c, beginTransactionMessage_layout, [UnitV, IntV (uint q)]),
     (DB_SendSetValue env ToCell q c a n, twophasecommit_setValueMessage_layout, [UnitV, IntV (uint q), AddrV a, IntV (uint n)]),
     (SendCommit env ToCell q c, commitMessage_layout, [UnitV, IntV (uint q)])]"

lemmas async_Sends = SendAddPriceItem_def SendGetPriceFrom_def SendAddItem_def SendGetCapitalFrom_def Memory_SendSetValue_def SendStore_def
  SendAck_def SendBeginTransaction_def DB_SendSetValue_def SendCommit_def

lemma async_sends_call:
  "list_all (\<lambda>(send, l, vs). send = CallWaitRecursively env (ToCell l) c vs half_TON) (async_sends env ToCell q c k n a b)"
  by (simp add: async_sends_def async_Sends)

lemma async_sends_typed:
  assumes "address_typed a" "address_typed b"
  shows "list_all (\<lambda>(send, l, vs). layout_wf l \<and> struct_typed l vs) (async_sends env ToCell q c k n a b)"
  using assms uint_lt2p [of k] uint_lt2p [of n] uint_lt2p [of q]
  by (simp add: async_sends_def async_layouts layout_wf_def layout_fits_def struct_typed_def)

text \<open>
  C40: What the wrappers send: if a send returns a message, the wallet sent one bounceable message with half a TON to
  the contract, whose body the receiver's struct reads back as the query identifier and the arguments, and the
  whole trace of the message is finalized with no message missing.
\<close>

theorem async_sends_decode:
  assumes "tlb_laws ToCell LoadFromCell" "address_typed a" "address_typed b"
    and "(Some (Inr m), l, vs) \<in> set (async_sends env ToCell q c k n a b)"
  shows "\<exists>body tx block. LoadFromCell l body = Some (Inr vs) \<and>
    Wallet_SendWait env \<lparr>ws_Mode = PayGasSeparately, ws_IHRDisabled = True, ws_Bounce = True, ws_DstAddr = c_Address c,
      ws_Amount = 5 * 10 ^ 8, ws_Body = body\<rparr> = Inr (tx, block) \<and>
    rm_LamportTime (info m) = tx_LT tx \<and> (\<forall>r \<in> set (messages m). Status r = Finalized) \<and> no_nil m"
proof -
  from async_sends_call assms(4) have call: "CallWaitRecursively env (ToCell l) c vs half_TON = Some (Inr m)"
    by (fastforce simp: list_all_iff)
  from async_sends_typed [OF assms(2,3)] assms(4) have "layout_wf l" "struct_typed l vs" by (fastforce simp: list_all_iff)+
  with tlb_laws.roundtrip [OF assms(1)] CallWaitRecursively_settles [OF call] show ?thesis
    by (fastforce simp: half_TON_def)
qed

theorem async_sends_decode_witness:
  "\<exists>m body tx block. Memory_SendSetValue wire_api struct_enc 7 \<lparr>c_Address = 3\<rparr> 42 = Some (Inr m) \<and>
    struct_dec twomsgchain_setValueMessage_layout body = Some (Inr [UnitV, IntV 7, IntV 42]) \<and>
    Wallet_SendWait wire_api \<lparr>ws_Mode = PayGasSeparately, ws_IHRDisabled = True, ws_Bounce = True, ws_DstAddr = 3,
      ws_Amount = 5 * 10 ^ 8, ws_Body = body\<rparr> = Inr (tx, block)"
proof -
  obtain m where m: "Memory_SendSetValue wire_api struct_enc 7 \<lparr>c_Address = 3\<rparr> 42 = Some (Inr m)"
  proof -
    let ?tx = "wire_tx 1 2 10 [MsgInternal (wire_internal 2 3 11)]"
    obtain body where body: "struct_enc twomsgchain_setValueMessage_layout [UnitV, IntV 7, IntV 42] = Inr body"
      by (simp add: struct_enc_def async_layouts end_cell_def)
    obtain m0 where m0: "MapToReceivedMessage ?tx = Inr m0" by (simp add: wire_tx_simps)
    moreover obtain m where "WaitForTrace (=) wire_chain m0 = Some (m, Inr ())" using wire_trace [OF m0] by blast
    ultimately have "Memory_SendSetValue wire_api struct_enc 7 \<lparr>c_Address = 3\<rparr> 42 = Some (Inr m)"
      using body by (simp add: async_Sends CallWaitRecursively_def CallWait_def SendMessageWait_def SendWaitTransaction_def wire_api_def Client_WaitForTrace_def)
    then show thesis by (rule that)
  qed
  have "(Some (Inr m), twomsgchain_setValueMessage_layout, [UnitV, IntV 7, IntV 42])
      \<in> set (async_sends wire_api struct_enc 7 \<lparr>c_Address = 3\<rparr> 0 42 None None)"
    by (simp add: async_sends_def m)
  from async_sends_decode [OF scheme.tlb_laws_axioms _ _ this] m show ?thesis by (auto simp: address_typed_def)
qed

end
