(* ===== verification/Event_Emitter.thy ===== *)
theory Event_Emitter
  imports Bindings
begin

text \<open>
  The event source that drives the tests of the log poller
  (\<open>integration-tests/smoke/logpoller/helper/event_emitter.go\<close>) and the parsing of the events it provokes
  (\<open>integration-tests/utils/event.go\<close>).

  A source deploys a counter contract and sends it messages, either in batches or from a goroutine
  (\<open>eventLoop\<close>) that \<open>Start\<close> spawns and that ends when the target is reached or its context is cancelled. \<open>Start\<close>,
  \<open>Stop\<close>, \<open>IsRunning\<close> and the loop share a mutex. A critical section that does not block is one step. \<open>Stop\<close>
  waits for the loop while it holds the mutex, so that it is cut in two, and \<open>es_stopping\<close> says that a call of it
  is in its wait; a step that needs the mutex is then not enabled, which is \<open>None\<close>. The ticker, the context and
  the outcome of a send are chosen by the environment.
\<close>

section \<open>Events\<close>

text \<open>The type argument is the name of the struct and its layout.\<close>

definition ParseEventFromCell :: "(layout \<Rightarrow> tcell \<Rightarrow> val list res option) \<Rightarrow> string \<times> layout \<Rightarrow> tcell option \<Rightarrow> val list res option" where
  "ParseEventFromCell LoadFromCell T c = (case c of
       None \<Rightarrow> Some (Inl (Err ''cell is nil''))
     | Some c' \<Rightarrow> map_option (wrapE (''failed to parse '' @ fst T @ '' event'')) (LoadFromCell (snd T) c'))"

definition ParseEventFromMsg :: "(layout \<Rightarrow> tcell \<Rightarrow> val list res option) \<Rightarrow> string \<times> layout \<Rightarrow> tcell option \<Rightarrow> val list res option" where
  "ParseEventFromMsg LoadFromCell T body = (case body of
       None \<Rightarrow> Some (Inl (Err ''message body is nil''))
     | Some _ \<Rightarrow> ParseEventFromCell LoadFromCell T body)"

text \<open>The field \<open>Value\<close> of a \<open>CountIncreased\<close>, an \<open>uint32\<close>.\<close>

definition event_Value :: "val list \<Rightarrow> u32" where
  "event_Value vs = (case vs of [_, IntV v] \<Rightarrow> word_of_int v | _ \<Rightarrow> 0)"

text \<open>The loop over the messages, with the map of the values seen; \<open>i\<close> is the index of the first message.\<close>

fun seen_loop :: "(layout \<Rightarrow> tcell \<Rightarrow> val list res option) \<Rightarrow> nat \<Rightarrow> tcell option list \<Rightarrow> (u32, bool) gomap \<Rightarrow> (u32, bool) gomap res option" where
  "seen_loop LoadFromCell i [] seen = Some (Inr seen)"
| "seen_loop LoadFromCell i (ext # msgs) seen =
     bindO (map_option (wrapE (''failed to parse event #'' @ show_nat i)) (ParseEventFromMsg LoadFromCell (''counter.CountIncreased'', CountIncreased_layout) ext)) (\<lambda>event.
     let v = event_Value event
     in if map_of seen v = Some True
        then Some (Inl (Err (''duplicate counter '' @ show_nat (unat v) @ '' found at index '' @ show_nat i)))
        else seen_loop LoadFromCell (Suc i) msgs (gput v True seen))"

text \<open>\<open>%v\<close> of a slice of integers.\<close>

definition show_ints :: "int list \<Rightarrow> string" where
  "show_ints is = ''['' @ concat (case map show_int is of [] \<Rightarrow> [] | s # ss \<Rightarrow> s # map (\<lambda>t. '' '' @ t) ss) @ '']''"

definition VerifyLoadedEvents :: "(layout \<Rightarrow> tcell \<Rightarrow> val list res option) \<Rightarrow> tcell option list \<Rightarrow> int \<Rightarrow> unit res option" where
  "VerifyLoadedEvents LoadFromCell msgs expectedCount =
     bindO (seen_loop LoadFromCell 0 msgs []) (\<lambda>seen.
     let missing = filter (\<lambda>i. map_of seen (word_of_int i) \<noteq> Some True) [1..expectedCount]
     in if missing \<noteq> [] then Some (Inl (Err (''not all expected counters found, missing some from 1 to '' @ show_ints missing)))
        else Some (Inr ()))"

section \<open>The source\<close>

text \<open>
  Where the goroutine of \<open>eventLoop\<close> is: about to start, at its \<open>select\<close>, before reading the counter, sending, before
  counting a sent message; \<open>NoLoop\<close> when it has not been spawned or has returned.
\<close>

datatype loop_at = NoLoop | Spawned | Selecting | Reading | Sending | Counting

text \<open>\<open>es_done\<close> is nil or says whether the channel is closed; \<open>es_target\<close> is the loop's local variable.\<close>

record 'a TestEventSource =
  es_name :: string
  es_contractAddress :: 'a
  es_id :: u32
  es_sentCounter :: u32
  es_targetCounter :: int
  es_running :: bool
  es_done :: "bool option"
  es_stopping :: bool
  es_loop :: loop_at
  es_target :: u32
  es_cancelled :: bool

text \<open>\<open>tlb.MustFromTON("0.1")\<close>, in nanotons.\<close>

definition tenth_TON :: int where
  "tenth_TON = 10 ^ 8"

definition NewTestEventSource ::
  "('a, tcell, 'p, 'r) ApiEnv \<Rightarrow> Compiled \<Rightarrow> (layout \<Rightarrow> val list \<Rightarrow> tcell res) \<Rightarrow> string res \<Rightarrow> Address \<Rightarrow> string \<Rightarrow> u32 \<Rightarrow>
     'a TestEventSource res option" where
  "NewTestEventSource env F ToCell git walletAddress name ident =
     bindO (Some (GetBuildDir git ''examples.Counter.compiled.json'')) (\<lambda>path.
     bindO (Some (wrapE ''failed to parse compiled contract'' (ParseCompiledContract (f_FromBOC F) (f_file F) (f_json F) path))) (\<lambda>codeCell.
     bindO (Some (wrapE ''failed to create initial data cell''
       (ToCell ContractData_layout [IntV (uint ident), IntV 0, AddrV walletAddress, NilV]))) (\<lambda>data.
     bindO (map_option (wrapE ''failed to deploy contract'') (Deploy env codeCell data tenth_TON (TCell [] []))) (\<lambda>(contract, _).
     Some (Inr \<lparr>es_name = name, es_contractAddress = c_Address contract, es_id = ident, es_sentCounter = 0, es_targetCounter = 0,
       es_running = False, es_done = None, es_stopping = False, es_loop = NoLoop, es_target = 0, es_cancelled = False\<rparr>)))))"

definition Name :: "'a TestEventSource \<Rightarrow> string" where
  "Name e = es_name e"

definition ContractAddress :: "'a TestEventSource \<Rightarrow> 'a" where
  "ContractAddress e = es_contractAddress e"

definition source_GetID :: "'a TestEventSource \<Rightarrow> u32" where
  "source_GetID e = es_id e"

section \<open>Starting and stopping\<close>

text \<open>A new context comes with \<open>Start\<close>. The second component is the error it returns.\<close>

definition Start :: "int \<Rightarrow> 'a TestEventSource \<Rightarrow> ('a TestEventSource \<times> gerr option) option" where
  "Start targetCounter e =
     (if es_stopping e then None
      else if es_running e then Some (e, Some (Err ''event emitter is already running''))
      else Some (e\<lparr>es_targetCounter := targetCounter, es_done := Some False, es_running := True, es_loop := Spawned, es_cancelled := False\<rparr>, None))"

text \<open>\<open>Stop\<close> up to its wait for \<open>done\<close>, and the rest of it.\<close>

definition Stop :: "'a TestEventSource \<Rightarrow> 'a TestEventSource option" where
  "Stop e = (if es_stopping e then None else if \<not> es_running e then Some e else Some (e\<lparr>es_stopping := True\<rparr>))"

definition Stop_returns :: "'a TestEventSource \<Rightarrow> 'a TestEventSource option" where
  "Stop_returns e = (if es_stopping e \<and> es_done e = Some True then Some (e\<lparr>es_running := False, es_stopping := False\<rparr>) else None)"

definition IsRunning :: "'a TestEventSource \<Rightarrow> bool option" where
  "IsRunning e = (if es_stopping e then None else Some (es_running e))"

text \<open>What the loop is given: nothing, the cancelled context or a tick at its \<open>select\<close>, or whether a send succeeded.\<close>

datatype input = Proceed | CtxDone | Tick | Sent bool

fun eventLoop :: "input \<Rightarrow> 'a TestEventSource \<Rightarrow> 'a TestEventSource option" where
  "eventLoop inp e = (case es_loop e of
       Spawned \<Rightarrow> if inp = Proceed then Some (e\<lparr>es_target := word_of_int (es_targetCounter e), es_loop := Selecting\<rparr>) else None
     | Selecting \<Rightarrow>
         if inp = CtxDone \<and> es_cancelled e then Some (e\<lparr>es_done := Some True, es_loop := NoLoop\<rparr>)
         else if inp = Tick then Some (e\<lparr>es_loop := Reading\<rparr>) else None
     | Reading \<Rightarrow>
         if inp \<noteq> Proceed \<or> es_stopping e then None
         else if es_sentCounter e \<ge> es_target e then Some (e\<lparr>es_done := Some True, es_loop := NoLoop\<rparr>)
         else Some (e\<lparr>es_loop := Sending\<rparr>)
     | Sending \<Rightarrow> (case inp of Sent ok \<Rightarrow> Some (e\<lparr>es_loop := (if ok then Counting else Selecting)\<rparr>) | _ \<Rightarrow> None)
     | Counting \<Rightarrow>
         if inp \<noteq> Proceed \<or> es_stopping e then None
         else Some (e\<lparr>es_sentCounter := es_sentCounter e + 1, es_loop := Selecting\<rparr>)
     | NoLoop \<Rightarrow> None)"

declare eventLoop.simps [simp del]

section \<open>Sending\<close>

definition increase_message :: "(layout \<Rightarrow> val list \<Rightarrow> tcell res) \<Rightarrow> 'a \<Rightarrow> u64 \<Rightarrow> ('a, tcell) WalletSend res" where
  "increase_message ToCell contractAddress queryID =
     bindE (wrapE ''failed to create cell'' (ToCell IncreaseCount_layout [UnitV, IntV (uint queryID)])) (\<lambda>body.
     Inr \<lparr>ws_Mode = 1, ws_IHRDisabled = True, ws_Bounce = True, ws_DstAddr = contractAddress, ws_Amount = tenth_TON, ws_Body = body\<rparr>)"

definition SendIncreaseCounterMsg ::
  "('a, tcell, 'p, 'r) ApiEnv \<Rightarrow> (layout \<Rightarrow> val list \<Rightarrow> tcell res) \<Rightarrow> u64 \<Rightarrow> 'a TestEventSource \<Rightarrow> (('a, tcell) Transaction \<times> u32) res" where
  "SendIncreaseCounterMsg env ToCell queryID e =
     bindE (increase_message ToCell (es_contractAddress e) queryID) (\<lambda>msg. wrapE ''failed to send message'' (Wallet_SendWait env msg))"

text \<open>\<open>SendMany\<close> is the wallet's \<open>SendManyWaitTransaction\<close>; \<open>rand i\<close> is the identifier of the message number \<open>i\<close>.\<close>

definition sendManyIncreaseCountMsgs ::
  "(('a, tcell) WalletSend list \<Rightarrow> ('t \<times> 'blk) res) \<Rightarrow> (layout \<Rightarrow> val list \<Rightarrow> tcell res) \<Rightarrow> (nat \<Rightarrow> u64) \<Rightarrow> int \<Rightarrow> 'a TestEventSource \<Rightarrow> ('t \<times> 'blk) res" where
  "sendManyIncreaseCountMsgs SendMany ToCell rand n e =
     (if n < 0 then Inl (Panic ''makeslice: len out of range'')
      else bindE (mapE (\<lambda>i. increase_message ToCell (es_contractAddress e) (rand i)) [0..<nat n]) SendMany)"

record ('t, 'blk) TestEventRes =
  tr_Tx :: 't
  tr_Block :: 'blk
  tr_BatchIdx :: nat
  tr_TxIdx :: nat

text \<open>
  One batch and the batches. \<open>send b t\<close> is the call of \<open>sendManyIncreaseCountMsgs\<close> for transaction \<open>t\<close> of batch \<open>b\<close>, and
  \<open>wait\<close> the query of the contract that waits for a block, whose number is \<open>SeqNo\<close>.
\<close>

fun send_batch :: "(nat \<Rightarrow> nat \<Rightarrow> ('t \<times> 'blk) res) \<Rightarrow> nat \<Rightarrow> nat list \<Rightarrow> ('t, 'blk) TestEventRes list \<Rightarrow> ('t, 'blk) TestEventRes list res" where
  "send_batch send b [] txs = Inr txs"
| "send_batch send b (t # ts) txs =
     bindE (wrapE (''failed to send tx '' @ show_nat t @ '' in batch '' @ show_nat b) (send b t)) (\<lambda>(tx, block).
     send_batch send b ts (txs @ [\<lparr>tr_Tx = tx, tr_Block = block, tr_BatchIdx = b, tr_TxIdx = t\<rparr>]))"

fun send_batches ::
  "(nat \<Rightarrow> nat \<Rightarrow> ('t \<times> 'blk) res) \<Rightarrow> ('blk \<Rightarrow> u32) \<Rightarrow> ('blk \<Rightarrow> unit res) \<Rightarrow> int \<Rightarrow> int \<Rightarrow> nat list \<Rightarrow> ('t, 'blk) TestEventRes list \<Rightarrow> ('t, 'blk) TestEventRes list res" where
  "send_batches send SeqNo wait batchCount txPerBatch [] txs = Inr txs"
| "send_batches send SeqNo wait batchCount txPerBatch (b # bs) txs =
     bindE (send_batch send b [0..<nat txPerBatch] txs) (\<lambda>txs'.
     if int b < batchCount - 1
     then (if txs' = [] then Inl (Panic ''index out of range [-1]'')
           else bindE (wrapE (''failed to wait for block '' @ show_nat (unat (SeqNo (tr_Block (last txs')))) @ '' confirmation'') (wait (tr_Block (last txs')))) (\<lambda>_.
                send_batches send SeqNo wait batchCount txPerBatch bs txs'))
     else send_batches send SeqNo wait batchCount txPerBatch bs txs')"

definition SendBulkTestEvents ::
  "(nat \<Rightarrow> nat \<Rightarrow> ('a, tcell) WalletSend list \<Rightarrow> ('t \<times> 'blk) res) \<Rightarrow> ('blk \<Rightarrow> u32) \<Rightarrow> ('blk \<Rightarrow> unit res) \<Rightarrow> (layout \<Rightarrow> val list \<Rightarrow> tcell res) \<Rightarrow>
     (nat \<Rightarrow> nat \<Rightarrow> nat \<Rightarrow> u64) \<Rightarrow> int \<Rightarrow> int \<Rightarrow> int \<Rightarrow> 'a TestEventSource \<Rightarrow> ('t, 'blk) TestEventRes list res" where
  "SendBulkTestEvents SendMany SeqNo wait ToCell rand batchCount txPerBatch msgPerTx e =
     send_batches (\<lambda>b t. sendManyIncreaseCountMsgs (SendMany b t) ToCell (rand b t) msgPerTx e) SeqNo wait batchCount txPerBatch
       [0..<nat batchCount] []"

section \<open>Getters\<close>

definition GetCounterID :: "('a, tcell, 'p, 'r) ApiEnv \<Rightarrow> ('r \<Rightarrow> nat \<Rightarrow> int res) \<Rightarrow> u32 \<Rightarrow> 'a TestEventSource \<Rightarrow> int res" where
  "GetCounterID env IntAt block e =
     bindE (wrapE (''failed to run get method '' @ [CHR 0x27] @ ''id'' @ [CHR 0x27]) (Api_RunGetMethod env block (ContractAddress e) ''id'' [])) (\<lambda>res.
     wrapE ''failed to extract id value'' (IntAt res 0))"

definition GetCounterValue :: "('a, tcell, 'p, 'r) ApiEnv \<Rightarrow> ('r \<Rightarrow> nat \<Rightarrow> int res) \<Rightarrow> u32 \<Rightarrow> 'a TestEventSource \<Rightarrow> int res" where
  "GetCounterValue env IntAt block e =
     bindE (wrapE (''failed to run get method '' @ [CHR 0x27] @ ''value'' @ [CHR 0x27]) (Api_RunGetMethod env block (ContractAddress e) ''value'' [])) (\<lambda>res.
     wrapE ''failed to extract value value'' (IntAt res 0))"

section \<open>Runs of the source\<close>

text \<open>
  Calls of \<open>Start\<close> and \<open>Stop\<close>, the return of a waiting \<open>Stop\<close>, the cancellation of the context and the steps
  of the loop, in any order.
\<close>

inductive emitter_step :: "'a TestEventSource \<Rightarrow> 'a TestEventSource \<Rightarrow> bool" where
  start: "Start targetCounter e = Some (e', err) \<Longrightarrow> emitter_step e e'"
| stop: "Stop e = Some e' \<Longrightarrow> emitter_step e e'"
| stopped: "Stop_returns e = Some e' \<Longrightarrow> emitter_step e e'"
| cancel: "emitter_step e (e\<lparr>es_cancelled := True\<rparr>)"
| loop: "eventLoop inp e = Some e' \<Longrightarrow> emitter_step e e'"

inductive_cases emitter_stepE: "emitter_step e e'"

definition fresh_source :: "'a TestEventSource \<Rightarrow> bool" where
  "fresh_source e = (es_sentCounter e = 0 \<and> \<not> es_running e \<and> es_done e = None \<and> \<not> es_stopping e \<and> es_loop e = NoLoop)"

inductive emitter_reach :: "'a TestEventSource \<Rightarrow> bool" where
  new: "fresh_source e \<Longrightarrow> emitter_reach e"
| step: "emitter_reach e \<Longrightarrow> emitter_step e e' \<Longrightarrow> emitter_reach e'"

lemma NewTestEventSource_fresh: "NewTestEventSource env F ToCell git a name ident = Some (Inr e) \<Longrightarrow> fresh_source e"
  by (auto simp: NewTestEventSource_def fresh_source_def)

definition emitter_ok :: "'a TestEventSource \<Rightarrow> bool" where
  "emitter_ok e = ((es_loop e \<noteq> NoLoop \<longrightarrow> es_running e \<and> es_done e = Some False) \<and>
     (es_running e \<longrightarrow> es_loop e = NoLoop \<longrightarrow> es_done e = Some True) \<and> (es_stopping e \<longrightarrow> es_running e) \<and>
     (es_loop e \<in> {Sending, Counting} \<longrightarrow> es_sentCounter e < es_target e) \<and>
     (es_loop e \<notin> {NoLoop, Spawned} \<longrightarrow> es_target e = word_of_int (es_targetCounter e)))"

lemma eventLoop_ok: "eventLoop inp e = Some e' \<Longrightarrow> emitter_ok e \<Longrightarrow> emitter_ok e'"
  by (auto simp: eventLoop.simps emitter_ok_def not_le split: loop_at.splits input.splits if_splits)

lemma emitter_step_ok: "emitter_step e e' \<Longrightarrow> emitter_ok e \<Longrightarrow> emitter_ok e'"
proof (induction rule: emitter_step.induct)
  case (loop inp e e')
  then show ?case by (rule eventLoop_ok)
qed (auto simp: Start_def Stop_def Stop_returns_def emitter_ok_def split: if_splits)

lemma emitter_reach_ok: "emitter_reach e \<Longrightarrow> emitter_ok e"
proof (induction rule: emitter_reach.induct)
  case (new e)
  then show ?case by (simp add: fresh_source_def emitter_ok_def)
next
  case (step e e')
  then show ?case by (simp add: emitter_step_ok)
qed

text \<open>The mutex is held by a \<open>Stop\<close> that waits for a loop that waits for the mutex.\<close>

definition locked :: "loop_at \<Rightarrow> 'a TestEventSource \<Rightarrow> bool" where
  "locked l e = (es_stopping e \<and> es_loop e = l \<and> es_done e = Some False)"

lemma locked_step:
  assumes "emitter_step e e'" "l \<in> {Reading, Counting}" "locked l e"
  shows "locked l e'"
  using assms(1)
proof cases
  case (loop inp)
  with assms(2,3) show ?thesis by (auto simp: eventLoop.simps locked_def)
qed (use assms(3) in \<open>auto simp: Start_def Stop_def Stop_returns_def locked_def\<close>)

lemma locked_steps: "emitter_step\<^sup>*\<^sup>* e e' \<Longrightarrow> l \<in> {Reading, Counting} \<Longrightarrow> locked l e \<Longrightarrow> locked l e'"
  by (induction rule: rtranclp_induct) (auto intro: locked_step)

text \<open>Away from these two places, a cancelled context lets the loop return.\<close>

definition stoppable :: "'a TestEventSource \<Rightarrow> bool" where
  "stoppable e = (\<exists>e'. emitter_step\<^sup>*\<^sup>* e e' \<and> \<not> es_stopping e' \<and> \<not> es_running e')"

lemma stoppable_step: "emitter_step e e' \<Longrightarrow> stoppable e' \<Longrightarrow> stoppable e"
  unfolding stoppable_def by (meson converse_rtranclp_into_rtranclp)

lemma stoppable_returns: "es_stopping e \<Longrightarrow> es_done e = Some True \<Longrightarrow> stoppable e"
  unfolding stoppable_def
  by (intro exI [of _ "e\<lparr>es_running := False, es_stopping := False\<rparr>"] conjI r_into_rtranclp emitter_step.stopped) (simp_all add: Stop_returns_def)

lemma stoppable_Selecting: "es_stopping e \<Longrightarrow> es_loop e = Selecting \<Longrightarrow> stoppable e"
proof (rule stoppable_step [OF emitter_step.cancel])
  let ?e = "e\<lparr>es_cancelled := True, es_done := Some True, es_loop := NoLoop\<rparr>"
  assume "es_stopping e" "es_loop e = Selecting"
  then have "eventLoop CtxDone (e\<lparr>es_cancelled := True\<rparr>) = Some ?e" "stoppable ?e" by (simp_all add: eventLoop.simps stoppable_returns)
  then show "stoppable (e\<lparr>es_cancelled := True\<rparr>)" using stoppable_step emitter_step.loop by blast
qed

lemma stoppable_cases:
  assumes "emitter_ok e" "es_stopping e" "es_loop e \<notin> {Reading, Counting}"
  shows "stoppable e"
proof (cases "es_loop e")
  case NoLoop
  with assms show ?thesis by (auto simp: emitter_ok_def intro: stoppable_returns)
next
  case Spawned
  then have "eventLoop Proceed e = Some (e\<lparr>es_target := word_of_int (es_targetCounter e), es_loop := Selecting\<rparr>)" by (simp add: eventLoop.simps)
  from stoppable_step [OF emitter_step.loop [OF this]] assms(2) show ?thesis by (simp add: stoppable_Selecting)
next
  case Sending
  then have "eventLoop (Sent False) e = Some (e\<lparr>es_loop := Selecting\<rparr>)" by (simp add: eventLoop.simps)
  from stoppable_step [OF emitter_step.loop [OF this]] assms(2) show ?thesis by (simp add: stoppable_Selecting)
qed (use assms stoppable_Selecting in auto)

section \<open>Properties\<close>

text \<open>
  The event source, in every reachable state, whatever the calls and however they interleave with the loop. At most one
  loop runs, on an open channel, so that \<open>done\<close> is never closed twice; a \<open>Start\<close> that succeeds finds no loop; the
  loop sends only while the counter is below the target it was started with; and counting a sent message adds one to the
  counter without wrapping, up to the target.
\<close>

theorem emitter_invariant:
  assumes "emitter_reach e"
  shows "(es_loop e \<noteq> NoLoop \<longrightarrow> es_running e \<and> es_done e = Some False) \<and>
    (Start t e = Some (e', None) \<longrightarrow> es_loop e = NoLoop) \<and>
    (es_loop e = Sending \<longrightarrow> es_sentCounter e < word_of_int (es_targetCounter e)) \<and>
    (es_loop e = Counting \<longrightarrow> eventLoop Proceed e = Some e'' \<longrightarrow>
       unat (es_sentCounter e'') = Suc (unat (es_sentCounter e)) \<and> es_sentCounter e'' \<le> word_of_int (es_targetCounter e))"
proof -
  from emitter_reach_ok [OF assms] have ok: "emitter_ok e" .
  have "unat (es_sentCounter e'') = Suc (unat (es_sentCounter e)) \<and> es_sentCounter e'' \<le> es_target e"
    if "es_loop e = Counting" "eventLoop Proceed e = Some e''"
  proof -
    from that ok have less: "es_sentCounter e < es_target e" and e'': "es_sentCounter e'' = es_sentCounter e + 1"
      by (auto simp: emitter_ok_def eventLoop.simps split: if_splits)
    from less have "es_sentCounter e \<noteq> - 1" using word_order.extremum_strict by fastforce
    then have "1 + es_sentCounter e \<noteq> 0" by (metis add.commute eq_neg_iff_add_eq_0)
    from unatSuc [OF this] inc_le [OF less] e'' show ?thesis by (simp add: add.commute)
  qed
  with ok show ?thesis by (auto simp: emitter_ok_def Start_def split: if_splits)
qed

text \<open>
  C37: A flaw: \<open>Stop\<close> can hang forever. It waits for the loop while it holds the mutex. When the loop is about to read or to
  update the counter, neither can go on: whatever happens, the context's cancellation included, the call never
  returns and every other call blocks. In every other reachable state a waiting \<open>Stop\<close> can still return.
\<close>

theorem emitter_Stop_hangs:
  assumes "emitter_reach e" "es_stopping e"
  shows "if es_loop e \<in> {Reading, Counting}
    then (\<forall>e'. emitter_step\<^sup>*\<^sup>* e e' \<longrightarrow> es_stopping e' \<and> es_loop e' = es_loop e \<and> Start t e' = None \<and> Stop e' = None \<and> IsRunning e' = None)
    else (\<exists>e'. emitter_step\<^sup>*\<^sup>* e e' \<and> \<not> es_stopping e' \<and> \<not> es_running e')"
proof (cases "es_loop e \<in> {Reading, Counting}")
  case True
  with emitter_reach_ok [OF assms(1)] assms(2) have "locked (es_loop e) e" by (auto simp: emitter_ok_def locked_def)
  with locked_steps [OF _ True] True show ?thesis by (auto simp: locked_def Start_def Stop_def IsRunning_def)
next
  case False
  with stoppable_cases [OF emitter_reach_ok [OF assms(1)] assms(2)] show ?thesis by (simp add: stoppable_def)
qed

definition sample_source :: "nat TestEventSource" where
  "sample_source = \<lparr>es_name = ''emitter'', es_contractAddress = 3, es_id = 7, es_sentCounter = 0, es_targetCounter = 5, es_running = True,
     es_done = Some False, es_stopping = False, es_loop = Reading, es_target = 5, es_cancelled = False\<rparr>"

lemma sample_source_reach: "emitter_reach sample_source"
proof -
  let ?e0 = "sample_source\<lparr>es_targetCounter := 0, es_running := False, es_done := None, es_loop := NoLoop, es_target := 0\<rparr>"
  let ?e1 = "sample_source\<lparr>es_loop := Spawned, es_target := 0\<rparr>" and ?e2 = "sample_source\<lparr>es_loop := Selecting\<rparr>"
  have "emitter_reach ?e0" by (rule emitter_reach.new) (simp add: fresh_source_def sample_source_def)
  moreover have "emitter_step ?e0 ?e1" by (rule emitter_step.start [of 5 _ _ None]) (simp add: Start_def sample_source_def)
  moreover have "emitter_step ?e1 ?e2" by (rule emitter_step.loop [of Proceed]) (simp add: eventLoop.simps sample_source_def)
  moreover have "emitter_step ?e2 sample_source" by (rule emitter_step.loop [of Tick]) (simp add: eventLoop.simps sample_source_def)
  ultimately show ?thesis by (meson emitter_reach.step)
qed

theorem emitter_invariant_witness:
  "\<exists>(e :: nat TestEventSource) e'. es_loop e = Counting \<and> eventLoop Proceed e = Some e' \<and> unat (es_sentCounter e') = 1"
proof -
  let ?e = "sample_source\<lparr>es_loop := Counting\<rparr>"
  have "emitter_step sample_source (sample_source\<lparr>es_loop := Sending\<rparr>)"
    by (rule emitter_step.loop [of Proceed]) (simp add: eventLoop.simps sample_source_def)
  moreover have "emitter_step (sample_source\<lparr>es_loop := Sending\<rparr>) ?e"
    by (rule emitter_step.loop [of "Sent True"]) (simp add: eventLoop.simps sample_source_def)
  ultimately have "emitter_reach ?e" using sample_source_reach by (meson emitter_reach.step)
  moreover obtain e' where e': "eventLoop Proceed ?e = Some e'" by (simp add: eventLoop.simps sample_source_def)
  moreover have "es_loop ?e = Counting" "es_sentCounter ?e = 0" by (simp_all add: sample_source_def)
  ultimately have "unat (es_sentCounter e') = 1" using emitter_invariant [of ?e 0 ?e e'] by simp
  with e' \<open>es_loop ?e = Counting\<close> show ?thesis by blast
qed

theorem emitter_Stop_hangs_witness:
  "\<exists>e :: nat TestEventSource. emitter_reach e \<and> es_stopping e \<and> (\<forall>e'. emitter_step\<^sup>*\<^sup>* e e' \<longrightarrow> es_stopping e' \<and> IsRunning e' = None)"
proof -
  let ?e = "sample_source\<lparr>es_stopping := True\<rparr>"
  have "emitter_step sample_source ?e" by (rule emitter_step.stop) (simp add: Stop_def sample_source_def)
  with sample_source_reach have r: "emitter_reach ?e" by (rule emitter_reach.step)
  have "es_loop ?e \<in> {Reading, Counting}" "es_stopping ?e" by (simp_all add: sample_source_def)
  with emitter_Stop_hangs [OF r, of 0] have "\<forall>e'. emitter_step\<^sup>*\<^sup>* ?e e' \<longrightarrow> es_stopping e' \<and> IsRunning e' = None" by presburger
  with r \<open>es_stopping ?e\<close> show ?thesis by (intro exI conjI)
qed

section \<open>Events and batches\<close>

text \<open>The loop over parsed events: the values must be new, and are then marked.\<close>

lemma seen_loop_spec:
  assumes "map (LoadFromCell CountIncreased_layout) cells = map (\<lambda>(i, v). Some (Inr [IntV (uint i), IntV (uint v)])) (events :: (u32 \<times> u32) list)"
  shows "if distinct (map snd events) \<and> (\<forall>v \<in> set (map snd events). map_of seen v \<noteq> Some True)
    then \<exists>seen'. seen_loop LoadFromCell k (map Some cells) seen = Some (Inr seen') \<and>
      (\<forall>v. map_of seen' v = Some True \<longleftrightarrow> v \<in> set (map snd events) \<or> map_of seen v = Some True)
    else \<exists>err. seen_loop LoadFromCell k (map Some cells) seen = Some (Inl err)"
  using assms
proof (induction events arbitrary: cells k seen)
  case Nil
  then show ?case by simp
next
  case (Cons ev events)
  obtain i v where ev: "ev = (i, v)" by (cases ev)
  from Cons.prems ev obtain c cells' where cells: "cells = c # cells'" "LoadFromCell CountIncreased_layout c = Some (Inr [IntV (uint i), IntV (uint v)])"
    and rest: "map (LoadFromCell CountIncreased_layout) cells' = map (\<lambda>(i, v). Some (Inr [IntV (uint i), IntV (uint v)])) events"
    by (cases cells) auto
  have step: "seen_loop LoadFromCell k (map Some cells) seen =
      (if map_of seen v = Some True then Some (Inl (Err (''duplicate counter '' @ show_nat (unat v) @ '' found at index '' @ show_nat k)))
       else seen_loop LoadFromCell (Suc k) (map Some cells') (gput v True seen))"
    by (simp add: cells ParseEventFromMsg_def ParseEventFromCell_def event_Value_def Let_def)
  show ?case
  proof (cases "map_of seen v = Some True")
    case True
    then show ?thesis using step by (simp add: ev)
  next
    case False
    with Cons.IH [OF rest, of "gput v True seen" "Suc k"] step show ?thesis
      by (auto simp: ev update_conv' split: if_splits)
  qed
qed

text \<open>
  The check of loaded events is exact. On messages that carry the events of a counter it returns, and reports success
  exactly when no value occurs twice and every number from one to the expected count is among them.
\<close>

theorem VerifyLoadedEvents_iff:
  assumes "map (LoadFromCell CountIncreased_layout) cells = map (\<lambda>(i, v). Some (Inr [IntV (uint i), IntV (uint v)])) (events :: (u32 \<times> u32) list)"
    and "n < 2 ^ 32"
  shows "\<exists>r. VerifyLoadedEvents LoadFromCell (map Some cells) n = Some r \<and>
    (r = Inr () \<longleftrightarrow> distinct (map snd events) \<and> {1..n} \<subseteq> uint ` snd ` set events)"
proof (cases "distinct (map snd events)")
  note spec = seen_loop_spec [where LoadFromCell = LoadFromCell and cells = cells and events = events and seen = "[]" and k = 0, OF assms(1)]
  case True
  with spec obtain seen where seen: "seen_loop LoadFromCell 0 (map Some cells) [] = Some (Inr seen)"
    "\<And>v. map_of seen v = Some True \<longleftrightarrow> v \<in> set (map snd events)" by auto
  have mem: "map_of seen (word_of_int k) \<noteq> Some True \<longleftrightarrow> k \<notin> uint ` snd ` set events" if "k \<in> {1..n}" for k
  proof -
    have k: "uint (word_of_int k :: u32) = k" using that assms(2) by (simp add: uint_word_of_int)
    have "word_of_int k \<in> snd ` set events \<longleftrightarrow> k \<in> uint ` snd ` set events"
    proof
      assume "word_of_int k \<in> snd ` set events"
      then have "uint (word_of_int k :: u32) \<in> uint ` snd ` set events" by blast
      with k show "k \<in> uint ` snd ` set events" by simp
    next
      assume "k \<in> uint ` snd ` set events"
      then obtain v where "v \<in> snd ` set events" "k = uint v" by blast
      then show "word_of_int k \<in> snd ` set events" by simp
    qed
    with seen(2) show ?thesis by auto
  qed
  then have "filter (\<lambda>i. map_of seen (word_of_int i) \<noteq> Some True) [1..n] = [] \<longleftrightarrow> {1..n} \<subseteq> uint ` snd ` set events"
    by (auto simp: filter_empty_conv)
  with seen(1) True show ?thesis by (auto simp: VerifyLoadedEvents_def Let_def)
next
  note spec = seen_loop_spec [where LoadFromCell = LoadFromCell and cells = cells and events = events and seen = "[]" and k = 0, OF assms(1)]
  case False
  with spec show ?thesis by (auto simp: VerifyLoadedEvents_def)
qed

theorem VerifyLoadedEvents_iff_witness:
  "(\<exists>cs. mapE (struct_enc CountIncreased_layout) [[IntV 7, IntV 2], [IntV 7, IntV 1]] = Inr cs \<and>
     VerifyLoadedEvents struct_dec (map Some cs) 2 = Some (Inr ())) \<and>
   (\<exists>err. VerifyLoadedEvents struct_dec (map Some []) 1 = Some (Inl err))"
proof -
  have "layout_wf CountIncreased_layout" "struct_typed CountIncreased_layout [IntV 7, IntV 2]" "struct_typed CountIncreased_layout [IntV 7, IntV 1]"
    by (simp_all add: CountIncreased_layout_def layout_wf_def layout_fits_def struct_typed_def)
  from scheme.roundtrip [OF this(1,2)] scheme.roundtrip [OF this(1,3)] obtain c d where
    cd: "struct_enc CountIncreased_layout [IntV 7, IntV 2] = Inr c" "struct_dec CountIncreased_layout c = Some (Inr [IntV 7, IntV 2])"
      "struct_enc CountIncreased_layout [IntV 7, IntV 1] = Inr d" "struct_dec CountIncreased_layout d = Some (Inr [IntV 7, IntV 1])" by blast
  have "{1..2} = {1, 2 :: int}" by auto
  with VerifyLoadedEvents_iff [of struct_dec "[c, d]" "[(7, 2), (7, 1)]" 2] cd(2,4)
  have "VerifyLoadedEvents struct_dec (map Some [c, d]) 2 = Some (Inr ())" by auto
  moreover have "\<exists>err. VerifyLoadedEvents struct_dec (map Some []) 1 = Some (Inl err)"
  proof -
    from VerifyLoadedEvents_iff [of struct_dec "[]" "[]" 1] obtain r where "VerifyLoadedEvents struct_dec (map Some []) 1 = Some r" "r \<noteq> Inr ()"
      by auto
    then show ?thesis by (cases r) auto
  qed
  ultimately show ?thesis using cd(1,3) by (intro conjI exI [of _ "[c, d]"]) simp_all
qed

lemma send_batch_Inr:
  assumes "\<And>t. send b t = Inr (r b t)"
  shows "send_batch send b ts txs =
    Inr (txs @ map (\<lambda>t. \<lparr>tr_Tx = fst (r b t), tr_Block = snd (r b t), tr_BatchIdx = b, tr_TxIdx = t\<rparr>) ts)"
  by (induction ts arbitrary: txs) (simp_all add: assms case_prod_unfold)

lemma send_batches_Inr:
  assumes "\<And>b t. send b t = Inr (r b t)" "\<And>blk. wait blk = Inr ()" "0 < txPerBatch"
  shows "send_batches send SeqNo wait batchCount txPerBatch bs txs =
    Inr (txs @ concat (map (\<lambda>b. map (\<lambda>t. \<lparr>tr_Tx = fst (r b t), tr_Block = snd (r b t), tr_BatchIdx = b, tr_TxIdx = t\<rparr>) [0..<nat txPerBatch]) bs))"
  using assms(3) by (induction bs arbitrary: txs) (simp_all add: send_batch_Inr [of send _ r, OF assms(1)] assms(2))

text \<open>
  Sending in bulk: when every send and every wait succeeds, the results are those of all transactions of all
  batches, in order. Without transactions in a batch it panics as soon as there are two batches, since the wait
  between them looks at the last result.
\<close>

theorem SendBulkTestEvents_order:
  assumes "\<And>b t. sendManyIncreaseCountMsgs (SendMany b t) ToCell (rand b t) msgPerTx e = Inr (r b t)" "\<And>blk. wait blk = Inr ()"
  shows "SendBulkTestEvents SendMany SeqNo wait ToCell rand batchCount txPerBatch msgPerTx e =
    (if txPerBatch \<le> 0 \<and> 1 < batchCount then Inl (Panic ''index out of range [-1]'')
     else Inr (concat (map (\<lambda>b. map (\<lambda>t. \<lparr>tr_Tx = fst (r b t), tr_Block = snd (r b t), tr_BatchIdx = b, tr_TxIdx = t\<rparr>)
       [0..<nat txPerBatch]) [0..<nat batchCount])))"
proof (cases "0 < txPerBatch")
  case True
  with send_batches_Inr [of "\<lambda>b t. sendManyIncreaseCountMsgs (SendMany b t) ToCell (rand b t) msgPerTx e" r wait txPerBatch SeqNo, OF assms True]
  show ?thesis by (simp add: SendBulkTestEvents_def)
next
  case False
  consider "batchCount \<le> 0" | "batchCount = 1" | "1 < batchCount" by linarith
  then show ?thesis
  proof cases
    case 3
    then have "[0..<nat batchCount] = 0 # [1..<nat batchCount]" by (simp add: upt_conv_Cons)
    with False 3 show ?thesis by (simp add: SendBulkTestEvents_def)
  qed (use False in \<open>simp_all add: SendBulkTestEvents_def\<close>)
qed

text \<open>A transaction of a bulk send carries the given number of messages to the contract, each with a tenth of a TON.\<close>

lemma sendMany_messages:
  assumes "tlb_laws ToCell LoadFromCell" "0 \<le> n"
  shows "\<exists>msgs. sendManyIncreaseCountMsgs SendMany ToCell rand n e = SendMany msgs \<and> length msgs = nat n \<and>
    (\<forall>i < nat n. ws_DstAddr (msgs ! i) = es_contractAddress e \<and> ws_Amount (msgs ! i) = 10 ^ 8 \<and>
      LoadFromCell IncreaseCount_layout (ws_Body (msgs ! i)) = Some (Inr [UnitV, IntV (uint (rand i))]))"
proof -
  have wf: "layout_wf IncreaseCount_layout" by (simp add: IncreaseCount_layout_def layout_wf_def layout_fits_def)
  have "\<exists>msg. increase_message ToCell (es_contractAddress e) (rand i) = Inr msg \<and> ws_DstAddr msg = es_contractAddress e \<and>
      ws_Amount msg = 10 ^ 8 \<and> LoadFromCell IncreaseCount_layout (ws_Body msg) = Some (Inr [UnitV, IntV (uint (rand i))])" for i
  proof -
    have "struct_typed IncreaseCount_layout [UnitV, IntV (uint (rand i))]"
      using uint_lt2p [of "rand i"] by (simp add: struct_typed_def IncreaseCount_layout_def)
    from tlb_laws.roundtrip [OF assms(1) wf this] show ?thesis by (auto simp: increase_message_def tenth_TON_def)
  qed
  then obtain msg where msg: "\<And>i. increase_message ToCell (es_contractAddress e) (rand i) = Inr (msg i)"
      "\<And>i. ws_DstAddr (msg i) = es_contractAddress e" "\<And>i. ws_Amount (msg i) = 10 ^ 8"
      "\<And>i. LoadFromCell IncreaseCount_layout (ws_Body (msg i)) = Some (Inr [UnitV, IntV (uint (rand i))])"
    by metis
  have "mapE (\<lambda>i. increase_message ToCell (es_contractAddress e) (rand i)) is = Inr (map msg is)" for "is"
    by (induction "is") (simp_all add: msg(1))
  with assms(2) msg(2-4) show ?thesis by (intro exI [of _ "map msg [0..<nat n]"]) (simp add: sendManyIncreaseCountMsgs_def)
qed

end
