(* ===== verification/Tx_Store.thy ===== *)
theory Tx_Store
  imports Trace
begin

text \<open>
  The transaction store (\<open>pkg/txm/tx.go\<close>, \<open>pkg/txm/txstore.go\<close>): per account, the broadcast
  transactions that wait for their trace and the finalised ones, both keyed by logical time.
  The maps are Go maps, \<open>rng\<close> is the order in which a \<open>range\<close> visits one, \<open>sort_Slice\<close> is
  \<open>sort.Slice\<close>, and \<open>FromNano\<close> is \<open>tlb.FromNano\<close>, which converts a big integer
  (possibly nil) to coins.

  The locale \<open>tx_ledger\<close> states what the rest of the transaction manager relies on: the store
  behaves as a ledger that maps a logical time to \<open>Pending\<close> and later to \<open>Done\<close>. It is
  interpreted on the store below.
\<close>

section \<open>Data\<close>

record ('a, 'c) Tx =
  t_Mode :: u8
  t_From :: 'a
  t_To :: 'a
  t_Amount :: int
  t_Body :: "'c option"
  t_StateInit :: "'c option"
  t_Bounceable :: bool
  t_CreatedAt :: int \<comment> \<open>nanoseconds since the epoch\<close>
  t_Expiration :: int
  t_ReceivedMessage :: "('a, 'c) ReceivedMessage option" \<comment> \<open>None until broadcast\<close>

record ('a, 'c) UnconfirmedTx =
  u_LT :: u64
  u_ExpirationMs :: u64
  u_Tx :: "('a, 'c) Tx"

record ('a, 'c) FinalizedTx =
  f_ReceivedMessage :: "('a, 'c) ReceivedMessage option"
  f_ExitCode :: ExitCode
  f_TraceSucceeded :: bool

record ('a, 'c) TxStore =
  unconfirmedTxs :: "(u64, ('a, 'c) UnconfirmedTx) gomap"
  finalizedTxs :: "(u64, ('a, 'c) FinalizedTx) gomap"

type_synonym ('a, 'c) AccountStore = "(string, ('a, 'c) TxStore) gomap"

section \<open>Operations on one store\<close>

definition NewTxStore :: "('a, 'c) TxStore" where
  "NewTxStore = \<lparr>unconfirmedTxs = [], finalizedTxs = []\<rparr>"

definition AddUnconfirmed ::
  "u64 \<Rightarrow> u64 \<Rightarrow> ('a, 'c) Tx \<Rightarrow> ('a, 'c) TxStore \<Rightarrow> ('a, 'c) TxStore res" where
  "AddUnconfirmed lt expirationMs tx s =
     (if map_of (unconfirmedTxs s) lt \<noteq> None then Inl (Err ''tx already exists'')
      else if map_of (finalizedTxs s) lt \<noteq> None then Inl (Err ''tx already exists'')
      else Inr (s\<lparr>unconfirmedTxs := gput lt \<lparr>u_LT = lt, u_ExpirationMs = expirationMs, u_Tx = tx\<rparr> (unconfirmedTxs s)\<rparr>))"

definition MarkFinalized ::
  "u64 \<Rightarrow> bool \<Rightarrow> ExitCode \<Rightarrow> ('a, 'c) TxStore \<Rightarrow> ('a, 'c) TxStore res" where
  "MarkFinalized lt success exitCode s = (case map_of (unconfirmedTxs s) lt of
       None \<Rightarrow> Inl (Err ''no such unconfirmed tx'')
     | Some u \<Rightarrow>
        if map_of (finalizedTxs s) lt \<noteq> None then Inl (Err ''tx already finalized'')
        else Inr (s\<lparr>unconfirmedTxs := gdel lt (unconfirmedTxs s),
                   finalizedTxs := gput lt \<lparr>f_ReceivedMessage = t_ReceivedMessage (u_Tx u),
                     f_ExitCode = exitCode, f_TraceSucceeded = success\<rparr> (finalizedTxs s)\<rparr>))"

definition GetUnconfirmed ::
  "((u64 \<times> ('a, 'c) UnconfirmedTx) list \<Rightarrow> (u64 \<times> ('a, 'c) UnconfirmedTx) list) \<Rightarrow>
   ((('a, 'c) UnconfirmedTx \<Rightarrow> ('a, 'c) UnconfirmedTx \<Rightarrow> bool) \<Rightarrow> ('a, 'c) UnconfirmedTx list \<Rightarrow> ('a, 'c) UnconfirmedTx list) \<Rightarrow>
   ('a, 'c) TxStore \<Rightarrow> ('a, 'c) UnconfirmedTx list" where
  "GetUnconfirmed rng sort_Slice s =
     sort_Slice (\<lambda>a b. u_ExpirationMs a < u_ExpirationMs b) (map snd (rng (unconfirmedTxs s)))"

definition InflightCount :: "('a, 'c) TxStore \<Rightarrow> nat" where
  "InflightCount s = length (unconfirmedTxs s)"

definition GetTxState ::
  "(int option \<Rightarrow> nat \<Rightarrow> int res) \<Rightarrow> u64 \<Rightarrow> ('a, 'c) TxStore \<Rightarrow> (MsgStatus \<times> bool \<times> ExitCode \<times> int \<times> bool) res" where
  "GetTxState FromNano lt s =
     (if map_of (unconfirmedTxs s) lt \<noteq> None then Inr (Cascading, False, 0, 0, True)
      else (case map_of (finalizedTxs s) lt of
          Some tx \<Rightarrow>
            (case FromNano (map_option (\<lambda>m. rm_TotalActionFees (info m)) (f_ReceivedMessage tx)) 9 of
                  Inl e \<Rightarrow> Inl (Panic ''MustFromNano'')
                | Inr totalActionFees \<Rightarrow> Inr (Finalized, f_TraceSucceeded tx, f_ExitCode tx, totalActionFees, True))
        | None \<Rightarrow> Inr (NotFound, False, 0, 0, False)))"

section \<open>Operations on all accounts\<close>

definition NewAccountStore :: "('a, 'c) AccountStore" where
  "NewAccountStore = []"

text \<open>Returns the account's store and the accounts, in which it has been created if missing.\<close>

definition GetTxStore :: "string \<Rightarrow> ('a, 'c) AccountStore \<Rightarrow> ('a, 'c) TxStore \<times> ('a, 'c) AccountStore" where
  "GetTxStore account c = (case map_of c account of
       Some store \<Rightarrow> (store, c)
     | None \<Rightarrow> (NewTxStore, gput account NewTxStore c))"

definition GetTotalInflightCount ::
  "((string \<times> ('a, 'c) TxStore) list \<Rightarrow> (string \<times> ('a, 'c) TxStore) list) \<Rightarrow> ('a, 'c) AccountStore \<Rightarrow> nat" where
  "GetTotalInflightCount rng c = foldl (\<lambda>count (_, store). count + InflightCount store) 0 (rng c)"

definition GetAllUnconfirmed ::
  "((u64 \<times> ('a, 'c) UnconfirmedTx) list \<Rightarrow> (u64 \<times> ('a, 'c) UnconfirmedTx) list) \<Rightarrow>
   ((('a, 'c) UnconfirmedTx \<Rightarrow> ('a, 'c) UnconfirmedTx \<Rightarrow> bool) \<Rightarrow> ('a, 'c) UnconfirmedTx list \<Rightarrow> ('a, 'c) UnconfirmedTx list) \<Rightarrow>
   ((string \<times> ('a, 'c) TxStore) list \<Rightarrow> (string \<times> ('a, 'c) TxStore) list) \<Rightarrow>
   ('a, 'c) AccountStore \<Rightarrow> (string, ('a, 'c) UnconfirmedTx list) gomap" where
  "GetAllUnconfirmed rng sort_Slice arng c =
     foldl (\<lambda>m (account, store). gput account (GetUnconfirmed rng sort_Slice store) m) [] (arng c)"

section \<open>Well-formed stores\<close>

text \<open>
  Map keys are unique, an entry is filed under its own logical time, and no logical time is both
  unconfirmed and finalised.
\<close>

definition store_wf :: "('a, 'c) TxStore \<Rightarrow> bool" where
  "store_wf s = (gomap_wf (unconfirmedTxs s) \<and> gomap_wf (finalizedTxs s) \<and>
     (\<forall>lt u. map_of (unconfirmedTxs s) lt = Some u \<longrightarrow> u_LT u = lt) \<and>
     (\<forall>lt. map_of (unconfirmedTxs s) lt = None \<or> map_of (finalizedTxs s) lt = None))"

section \<open>The ledger contract\<close>

datatype ledger_entry = Pending | Done bool ExitCode

definition ledger :: "('a, 'c) TxStore \<Rightarrow> u64 \<Rightarrow> ledger_entry option" where
  "ledger s lt = (case map_of (unconfirmedTxs s) lt of
       Some _ \<Rightarrow> Some Pending
     | None \<Rightarrow> map_option (\<lambda>f. Done (f_TraceSucceeded f) (f_ExitCode f)) (map_of (finalizedTxs s) lt))"

datatype 'x ledger_op = OpAdd u64 u64 'x | OpFinalize u64 bool ExitCode

locale tx_ledger =
  fixes abs :: "'s \<Rightarrow> u64 \<Rightarrow> ledger_entry option"
    and add :: "u64 \<Rightarrow> u64 \<Rightarrow> 'x \<Rightarrow> 's \<Rightarrow> 's res"
    and finalize :: "u64 \<Rightarrow> bool \<Rightarrow> ExitCode \<Rightarrow> 's \<Rightarrow> 's res"
    and invar :: "'s \<Rightarrow> bool"
  assumes add_fresh: "invar s \<Longrightarrow> abs s lt = None \<Longrightarrow>
      \<exists>s'. add lt e x s = Inr s' \<and> invar s' \<and> abs s' = (abs s)(lt \<mapsto> Pending)"
    and add_known: "invar s \<Longrightarrow> abs s lt \<noteq> None \<Longrightarrow> \<exists>e'. add lt e x s = Inl e'"
    and finalize_pending: "invar s \<Longrightarrow> abs s lt = Some Pending \<Longrightarrow>
      \<exists>s'. finalize lt ok code s = Inr s' \<and> invar s' \<and> abs s' = (abs s)(lt \<mapsto> Done ok code)"
    and finalize_other: "invar s \<Longrightarrow> abs s lt \<noteq> Some Pending \<Longrightarrow> \<exists>e. finalize lt ok code s = Inl e"
begin

text \<open>An operation that fails leaves the store as it was: every caller drops the error.\<close>

fun apply_op :: "'x ledger_op \<Rightarrow> 's \<Rightarrow> 's" where
  "apply_op (OpAdd lt e x) s = (case add lt e x s of Inl _ \<Rightarrow> s | Inr s' \<Rightarrow> s')"
| "apply_op (OpFinalize lt ok code) s = (case finalize lt ok code s of Inl _ \<Rightarrow> s | Inr s' \<Rightarrow> s')"

fun run_ops :: "'x ledger_op list \<Rightarrow> 's \<Rightarrow> 's" where
  "run_ops [] s = s"
| "run_ops (op # ops) s = run_ops ops (apply_op op s)"

lemma apply_op_cases:
  assumes "invar s"
  shows "invar (apply_op op s) \<and>
    (abs (apply_op op s) = abs s \<or>
     (\<exists>lt. abs s lt = None \<and> abs (apply_op op s) = (abs s)(lt \<mapsto> Pending)) \<or>
     (\<exists>lt ok code. abs s lt = Some Pending \<and> abs (apply_op op s) = (abs s)(lt \<mapsto> Done ok code)))"
proof (cases op)
  case (OpAdd lt e x)
  show ?thesis
    using OpAdd add_fresh [OF assms, of lt e x] add_known [OF assms, of lt e x] assms
    by (cases "abs s lt") auto
next
  case (OpFinalize lt ok code)
  show ?thesis
  proof (cases "abs s lt = Some Pending")
    case True
    with finalize_pending [OF assms True, of ok code] OpFinalize show ?thesis
      by (intro conjI disjI2 exI [of _ lt] exI [of _ ok] exI [of _ code]) auto
  next
    case False
    with finalize_other [OF assms False, of ok code] OpFinalize assms show ?thesis by auto
  qed
qed

lemma run_ops_invar: "invar s \<Longrightarrow> invar (run_ops ops s)"
proof (induction ops arbitrary: s)
  case (Cons op ops)
  with apply_op_cases [OF Cons.prems, of op] show ?case by simp
qed simp

lemma run_ops_known: "invar s \<Longrightarrow> abs s lt \<noteq> None \<Longrightarrow> abs (run_ops ops s) lt \<noteq> None"
proof (induction ops arbitrary: s)
  case (Cons op ops)
  from apply_op_cases [OF Cons.prems(1), of op] Cons.prems(2)
  have "invar (apply_op op s)" "abs (apply_op op s) lt \<noteq> None" by auto
  with Cons.IH show ?case by simp
qed simp

lemma run_ops_done: "invar s \<Longrightarrow> abs s lt = Some (Done ok code) \<Longrightarrow> abs (run_ops ops s) lt = Some (Done ok code)"
proof (induction ops arbitrary: s)
  case (Cons op ops)
  from apply_op_cases [OF Cons.prems(1), of op] Cons.prems(2)
  have "invar (apply_op op s)" "abs (apply_op op s) lt = Some (Done ok code)" by auto
  with Cons.IH show ?case by simp
qed simp

end

section \<open>The store implements the contract\<close>

lemma store_wf_New [simp]: "store_wf NewTxStore"
  by (simp add: store_wf_def NewTxStore_def)

lemma store_wf_disjoint: "store_wf s \<Longrightarrow> map_of (unconfirmedTxs s) lt = Some u \<Longrightarrow> map_of (finalizedTxs s) lt = None"
  by (auto simp: store_wf_def dest: spec [of _ lt])

lemma AddUnconfirmed_wf: "store_wf s \<Longrightarrow> AddUnconfirmed lt e tx s = Inr s' \<Longrightarrow> store_wf s'"
  by (auto simp: store_wf_def AddUnconfirmed_def split: if_splits) (metis option.distinct(1))

lemma MarkFinalized_wf: "store_wf s \<Longrightarrow> MarkFinalized lt ok code s = Inr s' \<Longrightarrow> store_wf s'"
  by (auto simp: store_wf_def MarkFinalized_def split: if_splits option.splits)

interpretation store_ledger: tx_ledger ledger AddUnconfirmed MarkFinalized store_wf
proof
  fix s :: "('a, 'c) TxStore" and lt e x
  assume wf: "store_wf s" and fresh: "ledger s lt = None"
  from fresh have none: "map_of (unconfirmedTxs s) lt = None" "map_of (finalizedTxs s) lt = None"
    by (auto simp: ledger_def split: option.splits)
  then obtain s' where s': "AddUnconfirmed lt e x s = Inr s'"
    "s' = s\<lparr>unconfirmedTxs := gput lt \<lparr>u_LT = lt, u_ExpirationMs = e, u_Tx = x\<rparr> (unconfirmedTxs s)\<rparr>"
    by (simp add: AddUnconfirmed_def)
  moreover from s' have "ledger s' = (ledger s)(lt \<mapsto> Pending)"
    by (auto simp: ledger_def fun_eq_iff split: option.split)
  ultimately show "\<exists>s'. AddUnconfirmed lt e x s = Inr s' \<and> store_wf s' \<and> ledger s' = (ledger s)(lt \<mapsto> Pending)"
    using AddUnconfirmed_wf [OF wf] by blast
next
  fix s :: "('a, 'c) TxStore" and lt e x
  assume "ledger s lt \<noteq> None"
  then show "\<exists>e'. AddUnconfirmed lt e x s = Inl e'"
    by (auto simp: ledger_def AddUnconfirmed_def split: option.splits)
next
  fix s :: "('a, 'c) TxStore" and lt ok code
  assume wf: "store_wf s" and pend: "ledger s lt = Some Pending"
  from pend obtain u where u: "map_of (unconfirmedTxs s) lt = Some u"
    by (auto simp: ledger_def split: option.splits)
  with wf have "map_of (finalizedTxs s) lt = None" by (rule store_wf_disjoint)
  with u obtain s' where s': "MarkFinalized lt ok code s = Inr s'"
    "s' = s\<lparr>unconfirmedTxs := gdel lt (unconfirmedTxs s),
           finalizedTxs := gput lt \<lparr>f_ReceivedMessage = t_ReceivedMessage (u_Tx u), f_ExitCode = code, f_TraceSucceeded = ok\<rparr> (finalizedTxs s)\<rparr>"
    by (simp add: MarkFinalized_def)
  moreover from s' have "ledger s' = (ledger s)(lt \<mapsto> Done ok code)"
    by (auto simp: ledger_def fun_eq_iff split: option.split)
  ultimately show "\<exists>s'. MarkFinalized lt ok code s = Inr s' \<and> store_wf s' \<and> ledger s' = (ledger s)(lt \<mapsto> Done ok code)"
    using MarkFinalized_wf [OF wf] by blast
next
  fix s :: "('a, 'c) TxStore" and lt ok code
  assume "ledger s lt \<noteq> Some Pending"
  then show "\<exists>e. MarkFinalized lt ok code s = Inl e"
    by (auto simp: ledger_def MarkFinalized_def split: option.splits)
qed

section \<open>Properties\<close>

text \<open>
  C12: The store refines a ledger. Adding a logical time the ledger does not know succeeds and
  makes it \<open>Pending\<close>; a known one is refused. Finalising succeeds exactly on a \<open>Pending\<close>
  entry and makes it \<open>Done\<close> with the given outcome. All other entries are unchanged and the
  store stays well formed.
\<close>

theorem TxStore_refines_ledger:
  assumes "store_wf s"
  shows "(case AddUnconfirmed lt e tx s of
       Inr s' \<Rightarrow> ledger s lt = None \<and> store_wf s' \<and> ledger s' = (ledger s)(lt \<mapsto> Pending)
     | Inl _ \<Rightarrow> ledger s lt \<noteq> None) \<and>
    (case MarkFinalized lt ok code s of
       Inr s' \<Rightarrow> ledger s lt = Some Pending \<and> store_wf s' \<and> ledger s' = (ledger s)(lt \<mapsto> Done ok code)
     | Inl _ \<Rightarrow> ledger s lt \<noteq> Some Pending)"
  using store_ledger.add_fresh [OF assms, of lt e tx] store_ledger.add_known [OF assms, of lt e tx]
    store_ledger.finalize_pending [OF assms, of lt ok code] store_ledger.finalize_other [OF assms, of lt ok code]
  by (fastforce split: sum.splits)

definition sample_store :: "(nat, nat) TxStore" where
  "sample_store = \<lparr>unconfirmedTxs = [(5, \<lparr>u_LT = 5, u_ExpirationMs = 9,
     u_Tx = \<lparr>t_Mode = 0, t_From = 1, t_To = 2, t_Amount = 3, t_Body = None, t_StateInit = None, t_Bounceable = True,
       t_CreatedAt = 0, t_Expiration = 0, t_ReceivedMessage = Some (sample_trace True True)\<rparr>\<rparr>)], finalizedTxs = []\<rparr>"

lemma sample_store_wf: "store_wf sample_store"
  by (simp add: store_wf_def sample_store_def gomap_wf_def)

theorem TxStore_refines_ledger_witness:
  "store_wf sample_store \<and>
   (\<exists>s'. MarkFinalized 5 True 0 sample_store = Inr s' \<and> ledger s' = (ledger sample_store)(5 \<mapsto> Done True 0))"
proof -
  obtain s' where "MarkFinalized 5 True 0 sample_store = Inr s'" by (simp add: MarkFinalized_def sample_store_def)
  then show ?thesis
    using sample_store_wf TxStore_refines_ledger [OF sample_store_wf, of 5 0 undefined True 0] by (auto split: sum.splits)
qed

section \<open>Runs of the store\<close>

fun store_op :: "('a, 'c) Tx ledger_op \<Rightarrow> ('a, 'c) TxStore \<Rightarrow> ('a, 'c) TxStore" where
  "store_op (OpAdd lt e tx) s = (case AddUnconfirmed lt e tx s of Inl _ \<Rightarrow> s | Inr s' \<Rightarrow> s')"
| "store_op (OpFinalize lt ok code) s = (case MarkFinalized lt ok code s of Inl _ \<Rightarrow> s | Inr s' \<Rightarrow> s')"

fun store_ops :: "('a, 'c) Tx ledger_op list \<Rightarrow> ('a, 'c) TxStore \<Rightarrow> ('a, 'c) TxStore" where
  "store_ops [] s = s"
| "store_ops (op # ops) s = store_ops ops (store_op op s)"

lemma store_ops_run: "store_ops ops s = store_ledger.run_ops ops s"
proof (induction ops arbitrary: s)
  case (Cons op ops)
  then show ?case by (cases op) auto
qed simp

lemma ledger_GetTxState:
  "GetTxState FromNano lt s = Inr (st, ok, code, fees, found) \<Longrightarrow>
     st = (case ledger s lt of None \<Rightarrow> NotFound | Some Pending \<Rightarrow> Cascading | Some (Done _ _) \<Rightarrow> Finalized) \<and>
     (found \<longleftrightarrow> ledger s lt \<noteq> None) \<and> (st = Finalized \<longrightarrow> ledger s lt = Some (Done ok code))"
  by (auto simp: GetTxState_def ledger_def split: if_splits option.splits sum.splits)

text \<open>
  Outcomes are final. Along any sequence of \<open>AddUnconfirmed\<close> and \<open>MarkFinalized\<close> calls,
  in which a failing call leaves the store as it was, a transaction reported as \<open>Finalized\<close>
  keeps being reported so, with the same success flag and exit code.
\<close>

theorem GetTxState_final:
  assumes "store_wf s" "GetTxState FromNano lt s = Inr (Finalized, ok, code, fees, found)"
    and "GetTxState FromNano lt (store_ops ops s) = Inr (st', ok', code', fees', found')"
  shows "st' = Finalized \<and> ok' = ok \<and> code' = code \<and> found'"
proof -
  from ledger_GetTxState [OF assms(2)] have "ledger s lt = Some (Done ok code)" by simp
  with assms(1) have "ledger (store_ops ops s) lt = Some (Done ok code)"
    by (simp add: store_ops_run store_ledger.run_ops_done)
  with ledger_GetTxState [OF assms(3)] show ?thesis by auto
qed

theorem GetTxState_final_witness:
  "let s = store_ops [OpFinalize 5 False 37] sample_store; ops = [OpAdd 5 1 (u_Tx (snd (hd (unconfirmedTxs sample_store)))), OpFinalize 5 True 0];
       FromNano = (\<lambda>v d. Inr (the v))
   in GetTxState FromNano 5 s = Inr (Finalized, False, 37, 11, True) \<and>
      GetTxState FromNano 5 (store_ops ops s) = Inr (Finalized, False, 37, 11, True)"
proof -
  let ?s = "store_ops [OpFinalize 5 False 37] sample_store"
  let ?ops = "[OpAdd 5 1 (u_Tx (snd (hd (unconfirmedTxs sample_store)))), OpFinalize 5 True 0]"
  let ?F = "\<lambda>v d. Inr (the v) :: int res"
  have wf: "store_wf ?s" using store_ledger.run_ops_invar [OF sample_store_wf] by (simp only: store_ops_run)
  have st: "GetTxState ?F 5 ?s = Inr (Finalized, False, 37, 11, True)"
    by (simp add: GetTxState_def sample_store_def MarkFinalized_def sample_trace_def sample_simps)
  have fin: "GetTxState ?F 5 (store_ops ?ops ?s) = Inr (Finalized, False, 37, 11, True)"
    by (simp add: GetTxState_def sample_store_def MarkFinalized_def AddUnconfirmed_def sample_trace_def sample_simps)
  from GetTxState_final [OF wf st fin] st fin show ?thesis by (simp only: Let_def)
qed

section \<open>Queries\<close>

lemma unconfirmed_less_strict_weak: "strict_weak (\<lambda>a b. u_ExpirationMs a < u_ExpirationMs b)"
  by (auto simp: strict_weak_def)

lemma length_GetUnconfirmed:
  "go_range rng \<Longrightarrow> go_sort srt \<Longrightarrow> length (GetUnconfirmed rng srt s) = InflightCount s"
  by (simp add: GetUnconfirmed_def InflightCount_def go_sort.length_sort go_range.length_rng)

text \<open>
  \<open>GetUnconfirmed\<close> returns every unconfirmed transaction of the store exactly once, in
  ascending order of expiration, whatever order the map iteration and the (unstable) sort choose.
\<close>

theorem GetUnconfirmed_sorted:
  assumes "go_range rng" "go_sort sort_Slice"
  shows "mset (GetUnconfirmed rng sort_Slice s) = mset (map snd (unconfirmedTxs s)) \<and>
    sorted (map u_ExpirationMs (GetUnconfirmed rng sort_Slice s))"
proof
  show "mset (GetUnconfirmed rng sort_Slice s) = mset (map snd (unconfirmedTxs s))"
    using go_sort.mset_sort [OF assms(2)] go_range.mset_rng [OF assms(1)]
    by (simp add: GetUnconfirmed_def mset_map [symmetric] del: mset_map) (metis mset_map)
  have "sorted_wrt (\<lambda>a b. \<not> u_ExpirationMs b < u_ExpirationMs a) (GetUnconfirmed rng sort_Slice s)"
    unfolding GetUnconfirmed_def
    by (rule go_sort.sorted_sort [OF assms(2) unconfirmed_less_strict_weak])
  then show "sorted (map u_ExpirationMs (GetUnconfirmed rng sort_Slice s))"
    by (simp add: sorted_wrt_map not_less)
qed

theorem GetUnconfirmed_sorted_witness:
  "length (GetUnconfirmed rev sort_by sample_store) = 1 \<and> sorted (map u_ExpirationMs (GetUnconfirmed rev sort_by sample_store))"
  using GetUnconfirmed_sorted [OF rng_rev.go_range_axioms isort.go_sort_axioms, of sample_store]
  by (simp add: GetUnconfirmed_def sample_store_def)

lemma foldl_count: "foldl (\<lambda>count (_, store). count + f store) n xs = n + sum_list (map (\<lambda>x. f (snd x)) xs)" for n :: nat
  by (induction xs arbitrary: n) auto

lemma sum_list_rng: "go_range rng \<Longrightarrow> sum_list (map f (rng m)) = sum_list (map f m)" for f :: "_ \<Rightarrow> nat"
  by (metis go_range.mset_rng mset_map sum_mset_sum_list)

lemma foldl_gput_keys:
  "map_of (foldl (\<lambda>m (k, v). gput k (f v) m) m0 xs) k =
     (case map_of (rev xs) k of Some v \<Rightarrow> Some (f v) | None \<Rightarrow> map_of m0 k)"
  by (induction xs arbitrary: m0) (auto simp: map_add_def split: option.splits)

lemma GetAllUnconfirmed_lookup:
  assumes "go_range arng" "gomap_wf c"
  shows "map_of (GetAllUnconfirmed rng srt arng c) account = map_option (GetUnconfirmed rng srt) (map_of c account)"
proof -
  have "distinct (map fst (arng c))"
    using assms go_range.wf_rng [OF assms(1), of c] by (simp add: gomap_wf_def)
  then have "map_of (rev (arng c)) = map_of (arng c)" by (intro map_of_inject_set [THEN iffD2]) (auto simp: rev_map [symmetric])
  then show ?thesis
    using go_range.map_of_rng [OF assms]
    by (simp add: GetAllUnconfirmed_def foldl_gput_keys split: option.split)
qed

end
