(* ===== verification/Txm.thy ===== *)
theory Txm
  imports Tx_Store
begin

text \<open>
  The transaction manager (\<open>pkg/txm/txm.go\<close>, \<open>pkg/txm/config.go\<close>, \<open>pkg/ton/key/key.go\<close>):
  a bounded broadcast channel, the broadcast loop with its retries and the confirmation loop,
  over the account store.

  What is not in the repository is an argument: the keystore, the wallet of the client, the
  parser of a \<open>StateInit\<close> cell and the client calls \<open>SendWaitTransaction\<close> and
  \<open>SubscribeOnTransactions\<close>. Time is an argument too (nanoseconds since the epoch), and so
  is whether the \<open>Stop\<close> channel is closed during a retry delay. The two loops and the callers
  run concurrently; every access to a store holds its lock, so the steps of \<open>txm_step\<close> are the
  bodies of the loops with single locked accesses, in any interleaving.
\<close>

section \<open>Data\<close>

record TxmConfig =
  BroadcastChanSize :: nat
  ConfirmPollSecs :: nat
  SendRetryDelay :: nat \<comment> \<open>a time.Duration, in nanoseconds\<close>
  MaxSendRetryAttempts :: nat
  TxExpirationMins :: nat
  StickyNodeContextEnabled :: bool

definition DefaultTxmConfig :: TxmConfig where
  "DefaultTxmConfig = \<lparr>BroadcastChanSize = 100, ConfirmPollSecs = 5, SendRetryDelay = 3 * 10 ^ 9,
     MaxSendRetryAttempts = 5, TxExpirationMins = 5, StickyNodeContextEnabled = True\<rparr>"

datatype pubkey = Ed25519 bytes | OtherKey

record ('a, 'c, 'w) Request =
  r_Mode :: u8
  r_FromWallet :: 'w
  r_ContractAddress :: 'a
  r_Body :: "'c option"
  r_Amount :: int
  r_Bounce :: bool
  r_StateInit :: "'c option"

record ('a, 'c, 'st) WalletMessage =
  wm_Mode :: u8
  wm_SrcAddr :: 'a
  wm_DstAddr :: 'a
  wm_Bounce :: bool
  wm_IHRDisabled :: bool
  wm_Amount :: int
  wm_StateInit :: "'st option" \<comment> \<open>None is the zero StateInit\<close>
  wm_Body :: "'c option"
  wm_CreatedAt :: u32

text \<open>The collaborators outside the repository.\<close>

record ('a, 'c, 'w, 'st) TxmEnv =
  Keystore_Sign :: "string \<Rightarrow> bytes \<Rightarrow> bytes res"
  wallet_Public :: "'w \<Rightarrow> pubkey"
  wallet_Address :: "'w \<Rightarrow> 'a"
  addr_String :: "'a \<Rightarrow> string"
  addr_Equals :: "'a \<Rightarrow> 'a \<Rightarrow> bool"
  Client_Wallet :: 'w
  LoadStateInit :: "'c \<Rightarrow> 'st res"
  SubscribeOn :: "'a \<Rightarrow> u64 \<Rightarrow> ('a, 'c) Transaction list"

record ('a, 'c) TxmState =
  BroadcastChan :: "('a, 'c) Tx list"
  Accounts :: "('a, 'c) AccountStore"

datatype TransactionStatus = TS_Unknown | TS_Pending | TS_Unconfirmed | TS_Finalized | TS_Failed

section \<open>Keys\<close>

definition PublicKeyHex :: "pubkey \<Rightarrow> string res" where
  "PublicKeyHex k = (case k of Ed25519 bs \<Rightarrow> Inr (show_hex bs) | OtherKey \<Rightarrow> Inl (Err ''unsupported key type''))"

section \<open>Operations\<close>

definition NewTxm :: "('a, 'c) TxmState" where
  "NewTxm = \<lparr>BroadcastChan = [], Accounts = NewAccountStore\<rparr>"

definition Txm_InflightCount ::
  "((string \<times> ('a, 'c) TxStore) list \<Rightarrow> (string \<times> ('a, 'c) TxStore) list) \<Rightarrow> ('a, 'c) TxmState \<Rightarrow> nat \<times> nat" where
  "Txm_InflightCount rng t = (length (BroadcastChan t), GetTotalInflightCount rng (Accounts t))"

text \<open>
  \<open>now1\<close> and \<open>now2\<close> are the two readings of the clock, in nanoseconds. The lifetime of a transaction is a
  \<open>time.Duration\<close>, a signed 64-bit number of nanoseconds, and its product wraps.
\<close>

definition Enqueue ::
  "TxmConfig \<Rightarrow> ('a, 'c, 'w, 'st) TxmEnv \<Rightarrow> int \<Rightarrow> int \<Rightarrow> ('a, 'c, 'w) Request \<Rightarrow> ('a, 'c) TxmState \<Rightarrow>
   ('a, 'c) TxmState res" where
  "Enqueue cfg env now1 now2 request t =
     bindE (wrapE ''failed to convert public key to hex'' (PublicKeyHex (wallet_Public env (r_FromWallet request)))) (\<lambda>pubKeyHex.
     bindE (wrapE ''failed to sign'' (Keystore_Sign env pubKeyHex [])) (\<lambda>_.
     let tx = \<lparr>t_Mode = r_Mode request, t_From = wallet_Address env (r_FromWallet request),
               t_To = r_ContractAddress request, t_Amount = r_Amount request, t_Body = r_Body request,
               t_StateInit = r_StateInit request, t_Bounceable = r_Bounce request, t_CreatedAt = now1,
               t_Expiration = now2 + sint (word_of_nat (TxExpirationMins cfg) * 60000000000 :: u64), t_ReceivedMessage = None\<rparr>
     in if length (BroadcastChan t) < BroadcastChanSize cfg
        then Inr (t\<lparr>BroadcastChan := BroadcastChan t @ [tx]\<rparr>)
        else Inl (Err ''broadcast channel full, could not enqueue transaction'')))"

text \<open>
  The send loop: \<open>send attempt\<close> is the outcome of the attempt, \<open>stopped attempt\<close> whether the
  manager is stopped in the delay that follows a failed attempt. \<open>lastErr\<close> is the variable \<open>err\<close>.
\<close>

function send_loop ::
  "nat \<Rightarrow> (nat \<Rightarrow> ('a, 'c) ReceivedMessage res) \<Rightarrow> (nat \<Rightarrow> bool) \<Rightarrow> nat \<Rightarrow> gerr option \<Rightarrow> ('a, 'c) ReceivedMessage res" where
  "send_loop maxAttempts send stopped attempt lastErr =
     (if attempt \<le> maxAttempts then
        (case send attempt of
           Inr m \<Rightarrow> Inr m
         | Inl e \<Rightarrow> if is_panic e then Inl e
                   else if stopped attempt then Inl (Err ''broadcast aborted'')
                   else send_loop maxAttempts send stopped (Suc attempt) (Some e))
      else (case lastErr of Some e \<Rightarrow> Inl e | None \<Rightarrow> Inl (Panic ''nil pointer dereference'')))"
  by pat_completeness auto
termination
  by (relation "measure (\<lambda>(maxAttempts, _, _, attempt, _). Suc maxAttempts - attempt)") auto

declare send_loop.simps [simp del]

definition broadcastWithRetry ::
  "TxmConfig \<Rightarrow> ('a, 'c, 'w, 'st) TxmEnv \<Rightarrow> (nat \<Rightarrow> ('a, 'c) ReceivedMessage res) \<Rightarrow> (nat \<Rightarrow> bool) \<Rightarrow>
   ('a, 'c) Tx \<Rightarrow> ('a, 'c) AccountStore \<Rightarrow> ('a, 'c) AccountStore \<times> unit res" where
  "broadcastWithRetry cfg env send stopped tx accounts =
     (case send_loop (MaxSendRetryAttempts cfg) send stopped 1 None of
        Inl e \<Rightarrow> (accounts, Inl e)
      | Inr m \<Rightarrow>
         let tx' = tx\<lparr>t_ReceivedMessage := Some m\<rparr>;
             lamportTime = rm_LamportTime (info m);
             expirationTimestampSecs = lamportTime div 1000 + of_nat (SendRetryDelay cfg div 10 ^ 9);
             sender = addr_String env (wallet_Address env (Client_Wallet env));
             (txStore, accounts') = GetTxStore sender accounts
         in (case AddUnconfirmed lamportTime expirationTimestampSecs tx' txStore of
               Inl e \<Rightarrow> (accounts', Inl e)
             | Inr txStore' \<Rightarrow> (gput sender txStore' accounts', Inr ())))"

definition wallet_message :: "('a, 'c) Tx \<Rightarrow> 'st option \<Rightarrow> ('a, 'c, 'st) WalletMessage" where
  "wallet_message tx st =
     \<lparr>wm_Mode = t_Mode tx, wm_SrcAddr = t_From tx, wm_DstAddr = t_To tx, wm_Bounce = t_Bounceable tx,
      wm_IHRDisabled = True, wm_Amount = t_Amount tx, wm_StateInit = st, wm_Body = t_Body tx,
      wm_CreatedAt = word_of_int (t_CreatedAt tx div 10 ^ 9)\<rparr>"

text \<open>One iteration of \<open>broadcastLoop\<close> that takes a transaction from the channel.\<close>

definition broadcast_iteration ::
  "TxmConfig \<Rightarrow> ('a, 'c, 'w, 'st) TxmEnv \<Rightarrow>
   ('a \<Rightarrow> ('a, 'c, 'st) WalletMessage \<Rightarrow> nat \<Rightarrow> ('a, 'c) ReceivedMessage res) \<Rightarrow> (nat \<Rightarrow> bool) \<Rightarrow>
   ('a, 'c) TxmState \<Rightarrow> ('a, 'c) TxmState res" where
  "broadcast_iteration cfg env SendWaitTransaction stopped t = (case BroadcastChan t of
       [] \<Rightarrow> Inr t
     | tx # rest \<Rightarrow>
        let t' = t\<lparr>BroadcastChan := rest\<rparr>;
            loaded = (case t_StateInit tx of None \<Rightarrow> Inr None | Some c \<Rightarrow> map_sum id Some (LoadStateInit env c))
        in (case loaded of
              Inl e \<Rightarrow> if is_panic e then Inl e else Inr t'
            | Inr st \<Rightarrow>
               (case broadcastWithRetry cfg env (SendWaitTransaction (t_To tx) (wallet_message tx st)) stopped tx (Accounts t') of
                  (accounts, Inl e) \<Rightarrow> if is_panic e then Inl e else Inr (t'\<lparr>Accounts := accounts\<rparr>)
                | (accounts, Inr _) \<Rightarrow> Inr (t'\<lparr>Accounts := accounts\<rparr>))))"

text \<open>
  The body of the inner loop of \<open>checkUnconfirmed\<close>; the outer \<open>None\<close> is a wait that never
  returns. \<open>receivedMessage := tx.ReceivedMessage\<close> copies the stored message, so what a failed wait leaves of the
  copy is lost and the stored transaction keeps all its outgoing messages for the next round. The zero
  \<open>ReceivedMessage\<close> (never broadcast) has nothing to wait for and failed.
\<close>

definition confirm_one ::
  "('a, 'c, 'w, 'st) TxmEnv \<Rightarrow> string \<Rightarrow> ('a, 'c) UnconfirmedTx \<Rightarrow> ('a, 'c) AccountStore \<Rightarrow> ('a, 'c) AccountStore res option" where
  "confirm_one env account u accounts =
     (let mark = (\<lambda>traceSucceeded exitCode. let (txStore, accounts') = GetTxStore account accounts in
                   (case MarkFinalized (u_LT u) traceSucceeded exitCode txStore of
                      Inl e \<Rightarrow> Some (Inr accounts')
                    | Inr txStore' \<Rightarrow> Some (Inr (gput account txStore' accounts'))))
      in case t_ReceivedMessage (u_Tx u) of
           None \<Rightarrow> mark False 0
         | Some m \<Rightarrow> (case WaitForTrace (addr_Equals env) (SubscribeOn env) m of
               None \<Rightarrow> None
             | Some (_, Inl e) \<Rightarrow> Some (if is_panic e then Inl e else Inr accounts)
             | Some (m', Inr _) \<Rightarrow>
                 if Status m' \<noteq> Finalized then Some (Inr accounts)
                 else (case (OutcomeExitCode (Some m'), TraceSucceeded m') of
                         (Inr exitCode, Inr traceSucceeded) \<Rightarrow> mark traceSucceeded exitCode
                       | (Inl e, _) \<Rightarrow> Some (Inl e)
                       | (_, Inl e) \<Rightarrow> Some (Inl e))))"

fun confirm_list ::
  "('a, 'c, 'w, 'st) TxmEnv \<Rightarrow> string \<Rightarrow> ('a, 'c) UnconfirmedTx list \<Rightarrow> ('a, 'c) AccountStore \<Rightarrow> ('a, 'c) AccountStore res option" where
  "confirm_list env account [] accounts = Some (Inr accounts)"
| "confirm_list env account (u # us) accounts = (case confirm_one env account u accounts of
       None \<Rightarrow> None
     | Some (Inl e) \<Rightarrow> Some (Inl e)
     | Some (Inr accounts') \<Rightarrow> confirm_list env account us accounts')"

fun confirm_accounts ::
  "('a, 'c, 'w, 'st) TxmEnv \<Rightarrow> (string \<times> ('a, 'c) UnconfirmedTx list) list \<Rightarrow> ('a, 'c) AccountStore \<Rightarrow> ('a, 'c) AccountStore res option" where
  "confirm_accounts env [] accounts = Some (Inr accounts)"
| "confirm_accounts env ((account, us) # rest) accounts =
     (case confirm_list env account us (snd (GetTxStore account accounts)) of
        None \<Rightarrow> None
      | Some (Inl e) \<Rightarrow> Some (Inl e)
      | Some (Inr accounts') \<Rightarrow> confirm_accounts env rest accounts')"

text \<open>
  \<open>rng\<close>, \<open>arng\<close> and \<open>urng\<close> are the iteration orders over a store, over the accounts and over
  the snapshot of unconfirmed transactions.
\<close>

definition checkUnconfirmed ::
  "((u64 \<times> ('a, 'c) UnconfirmedTx) list \<Rightarrow> (u64 \<times> ('a, 'c) UnconfirmedTx) list) \<Rightarrow>
   ((('a, 'c) UnconfirmedTx \<Rightarrow> ('a, 'c) UnconfirmedTx \<Rightarrow> bool) \<Rightarrow> ('a, 'c) UnconfirmedTx list \<Rightarrow> ('a, 'c) UnconfirmedTx list) \<Rightarrow>
   ((string \<times> ('a, 'c) TxStore) list \<Rightarrow> (string \<times> ('a, 'c) TxStore) list) \<Rightarrow>
   ((string \<times> ('a, 'c) UnconfirmedTx list) list \<Rightarrow> (string \<times> ('a, 'c) UnconfirmedTx list) list) \<Rightarrow>
   ('a, 'c, 'w, 'st) TxmEnv \<Rightarrow> ('a, 'c) AccountStore \<Rightarrow> ('a, 'c) AccountStore res option" where
  "checkUnconfirmed rng sort_Slice arng urng env accounts =
     confirm_accounts env (urng (GetAllUnconfirmed rng sort_Slice arng accounts)) accounts"

text \<open>Status, exit code, fees and error, with the store created if it was missing.\<close>

definition GetTransactionStatus ::
  "('a, 'c, 'w, 'st) TxmEnv \<Rightarrow> (int option \<Rightarrow> nat \<Rightarrow> int res) \<Rightarrow> u64 \<Rightarrow> ('a, 'c) TxmState \<Rightarrow>
   ('a, 'c) TxmState \<times> (TransactionStatus \<times> ExitCode \<times> int \<times> gerr option) res" where
  "GetTransactionStatus env FromNano lt t =
     (let (txStore, accounts) = GetTxStore (addr_String env (wallet_Address env (Client_Wallet env))) (Accounts t)
      in (t\<lparr>Accounts := accounts\<rparr>,
          bindE (GetTxState FromNano lt txStore) (\<lambda>(status, succeeded, exitCode, totalActionFees, found).
            if \<not> found then Inr (TS_Unknown, 0, totalActionFees, Some (Err ''transaction not found''))
            else Inr (case status of
                NotFound \<Rightarrow> (TS_Unknown, 0, totalActionFees, Some (Err ''transaction not found in state map''))
              | Cascading \<Rightarrow> (TS_Pending, 0, totalActionFees, None)
              | Received \<Rightarrow> (TS_Unconfirmed, 0, totalActionFees, None)
              | Finalized \<Rightarrow> if succeeded then (TS_Finalized, exitCode, totalActionFees, None)
                            else (TS_Failed, exitCode, totalActionFees, None)))))"

section \<open>The manager as a state machine\<close>

inductive txm_step ::
  "TxmConfig \<Rightarrow> ('a, 'c, 'w, 'st) TxmEnv \<Rightarrow> ('a, 'c) TxmState \<Rightarrow> ('a, 'c) TxmState \<Rightarrow> bool"
  for cfg env where
  enqueue: "Enqueue cfg env now1 now2 request t = Inr t' \<Longrightarrow> txm_step cfg env t t'"
| broadcast: "broadcast_iteration cfg env send stopped t = Inr t' \<Longrightarrow> txm_step cfg env t t'"
| confirm: "confirm_one env account u (Accounts t) = Some (Inr accounts) \<Longrightarrow>
     txm_step cfg env t (t\<lparr>Accounts := accounts\<rparr>)"
| get_store: "txm_step cfg env t (t\<lparr>Accounts := snd (GetTxStore account (Accounts t))\<rparr>)"
| status: "GetTransactionStatus env FromNano lt t = (t', r) \<Longrightarrow> txm_step cfg env t t'"

inductive txm_reachable ::
  "TxmConfig \<Rightarrow> ('a, 'c, 'w, 'st) TxmEnv \<Rightarrow> ('a, 'c) TxmState \<Rightarrow> bool" for cfg env where
  init: "txm_reachable cfg env NewTxm"
| step: "txm_reachable cfg env t \<Longrightarrow> txm_step cfg env t t' \<Longrightarrow> txm_reachable cfg env t'"

inductive_cases txm_stepE: "txm_step cfg env t t'"

section \<open>Invariant and progress of transactions\<close>

text \<open>
  A store of the manager is well formed and holds, for each unconfirmed transaction, the message
  that was received for it, filed under that message's logical time.
\<close>

definition store_ok :: "('a, 'c) TxStore \<Rightarrow> bool" where
  "store_ok s = (store_wf s \<and> (\<forall>lt u. map_of (unconfirmedTxs s) lt = Some u \<longrightarrow>
     (\<exists>m. t_ReceivedMessage (u_Tx u) = Some m \<and> rm_LamportTime (info m) = lt)))"

definition accounts_ok :: "('a, 'c) AccountStore \<Rightarrow> bool" where
  "accounts_ok c = (gomap_wf c \<and> (\<forall>a s. map_of c a = Some s \<longrightarrow> store_ok s))"

definition txm_ok :: "TxmConfig \<Rightarrow> ('a, 'c) TxmState \<Rightarrow> bool" where
  "txm_ok cfg t = (length (BroadcastChan t) \<le> BroadcastChanSize cfg \<and> accounts_ok (Accounts t))"

definition account_ledger :: "('a, 'c) AccountStore \<Rightarrow> string \<Rightarrow> u64 \<Rightarrow> ledger_entry option" where
  "account_ledger c a lt = (case map_of c a of None \<Rightarrow> None | Some s \<Rightarrow> ledger s lt)"

text \<open>A transaction moves from unknown to pending to done, and a done one does not change.\<close>

definition entry_le :: "ledger_entry option \<Rightarrow> ledger_entry option \<Rightarrow> bool" where
  "entry_le x y = (x = None \<or> x = y \<or> (x = Some Pending \<and> y \<noteq> None))"

lemma entry_le_refl [simp]: "entry_le x x"
  by (simp add: entry_le_def)

lemma entry_le_trans: "entry_le x y \<Longrightarrow> entry_le y z \<Longrightarrow> entry_le x z"
  by (auto simp: entry_le_def)

lemma AddUnconfirmed_le:
  assumes "store_wf s" "AddUnconfirmed lt e tx s = Inr s'"
  shows "entry_le (ledger s x) (ledger s' x)"
  using assms store_ledger.add_fresh [OF assms(1), of lt e tx] store_ledger.add_known [OF assms(1), of lt e tx]
  by (cases "ledger s lt") (auto simp: entry_le_def)

lemma MarkFinalized_le:
  assumes "store_wf s" "MarkFinalized lt ok code s = Inr s'"
  shows "entry_le (ledger s x) (ledger s' x)"
  using assms store_ledger.finalize_pending [OF assms(1), of lt ok code] store_ledger.finalize_other [OF assms(1), of lt ok code]
  by (cases "ledger s lt = Some Pending") (auto simp: entry_le_def)

lemma store_ok_wf: "store_ok s \<Longrightarrow> store_wf s"
  by (simp add: store_ok_def)

lemma AddUnconfirmed_ok:
  "store_ok s \<Longrightarrow> t_ReceivedMessage tx = Some m \<Longrightarrow> rm_LamportTime (info m) = lt \<Longrightarrow>
     AddUnconfirmed lt e tx s = Inr s' \<Longrightarrow> store_ok s'"
  using AddUnconfirmed_wf [of s lt e tx s']
  by (auto simp: store_ok_def AddUnconfirmed_def split: if_splits)

lemma MarkFinalized_ok: "store_ok s \<Longrightarrow> MarkFinalized lt ok code s = Inr s' \<Longrightarrow> store_ok s'"
  using MarkFinalized_wf [of s lt ok code s']
  by (auto simp: store_ok_def MarkFinalized_def split: if_splits option.splits)

lemma GetTxStore_ok:
  fixes c :: "('a, 'b) AccountStore"
  assumes "accounts_ok c" "GetTxStore a c = (s, c')"
  shows "store_ok s \<and> accounts_ok c' \<and> map_of c' a = Some s \<and> account_ledger c' = account_ledger c"
proof -
  have "ledger (NewTxStore :: ('a, 'b) TxStore) lt = None" for lt :: u64
    by (simp add: ledger_def NewTxStore_def)
  moreover have "store_ok (NewTxStore :: ('a, 'b) TxStore)"
    by (simp add: store_ok_def) (simp add: NewTxStore_def)
  ultimately show ?thesis
    using assms by (auto simp: GetTxStore_def accounts_ok_def account_ledger_def fun_eq_iff split: option.splits if_splits)
qed

lemma put_store_ok:
  assumes "accounts_ok c" "map_of c a = Some s" "store_ok s'" "\<And>x. entry_le (ledger s x) (ledger s' x)"
  shows "accounts_ok (gput a s' c) \<and> entry_le (account_ledger c b lt) (account_ledger (gput a s' c) b lt)"
  using assms by (auto simp: accounts_ok_def account_ledger_def)

lemma broadcastWithRetry_ok:
  assumes "accounts_ok c" "broadcastWithRetry cfg env send stopped tx c = (c', r)"
  shows "accounts_ok c' \<and> entry_le (account_ledger c b lt) (account_ledger c' b lt)"
proof (cases "send_loop (MaxSendRetryAttempts cfg) send stopped 1 None")
  case (Inl e)
  with assms show ?thesis by (simp add: broadcastWithRetry_def)
next
  case (Inr m)
  let ?a = "addr_String env (wallet_Address env (Client_Wallet env))"
  obtain s c1 where get: "GetTxStore ?a c = (s, c1)" by (cases "GetTxStore ?a c")
  note st = GetTxStore_ok [OF assms(1) get]
  show ?thesis
  proof (cases "AddUnconfirmed (rm_LamportTime (info m))
      (rm_LamportTime (info m) div 1000 + of_nat (SendRetryDelay cfg div 10 ^ 9)) (tx\<lparr>t_ReceivedMessage := Some m\<rparr>) s")
    case (Inl e)
    with assms(2) Inr get st show ?thesis
      by (auto simp: broadcastWithRetry_def Let_def)
  next
    case add: (Inr s')
    from st have "store_ok s'" by (auto intro: AddUnconfirmed_ok [OF _ _ refl add])
    moreover from st have "\<And>x. entry_le (ledger s x) (ledger s' x)"
      by (auto intro: AddUnconfirmed_le [OF _ add] store_ok_wf)
    ultimately have "store_ok s'" "\<And>x. entry_le (ledger s x) (ledger s' x)" by auto
    with st put_store_ok [of c1 ?a s s' b lt] assms(2) Inr get add show ?thesis
      by (auto simp: broadcastWithRetry_def Let_def)
  qed
qed

lemma mark_ok:
  assumes "accounts_ok c" "(let (s, c1) = GetTxStore a c in
      (case MarkFinalized x ok code s of Inl e \<Rightarrow> Some (Inr c1) | Inr s' \<Rightarrow> Some (Inr (gput a s' c1)))) = Some (Inr c')"
  shows "accounts_ok c' \<and> entry_le (account_ledger c b lt) (account_ledger c' b lt)"
proof -
  obtain s c1 where get: "GetTxStore a c = (s, c1)" by (cases "GetTxStore a c")
  note st = GetTxStore_ok [OF assms(1) get]
  show ?thesis
  proof (cases "MarkFinalized x ok code s")
    case (Inl e)
    with assms(2) get st show ?thesis by auto
  next
    case (Inr s')
    with st have "store_ok s'" "\<And>x. entry_le (ledger s x) (ledger s' x)"
      by (auto intro: MarkFinalized_ok MarkFinalized_le store_ok_wf)
    with st put_store_ok [of c1 a s s' b lt] assms(2) Inr get show ?thesis by auto
  qed
qed

lemma confirm_one_ok:
  assumes "accounts_ok c" "confirm_one env a u c = Some (Inr c')"
  shows "accounts_ok c' \<and> entry_le (account_ledger c b lt) (account_ledger c' b lt)"
  using assms(2) unfolding confirm_one_def Let_def [of "\<lambda>x y. _ x y"]
  by (auto split: option.splits sum.splits if_splits simp: assms(1) dest!: mark_ok [OF assms(1), unfolded Let_def]
      intro: back_subst [where P = accounts_ok, OF assms(1)])

lemma broadcast_iteration_cases:
  assumes "broadcast_iteration cfg env send stopped t = Inr t'"
  obtains (idle) "t' = t"
  | (dropped) tx rest where "BroadcastChan t = tx # rest" "t' = t\<lparr>BroadcastChan := rest\<rparr>"
  | (tried) tx rest send' accounts r where "BroadcastChan t = tx # rest"
      "broadcastWithRetry cfg env send' stopped tx (Accounts t) = (accounts, r)"
      "t' = t\<lparr>BroadcastChan := rest, Accounts := accounts\<rparr>"
proof (cases "BroadcastChan t")
  case Nil
  with assms idle show thesis by (simp add: broadcast_iteration_def)
next
  case (Cons tx rest)
  let ?loaded = "case t_StateInit tx of None \<Rightarrow> Inr None | Some c \<Rightarrow> map_sum id Some (LoadStateInit env c)"
  show thesis
  proof (cases ?loaded)
    case (Inl e)
    with assms Cons dropped [OF Cons] show thesis
      by (simp add: broadcast_iteration_def split: if_splits)
  next
    case (Inr st)
    let ?send = "send (t_To tx) (wallet_message tx st)"
    obtain accounts r where b: "broadcastWithRetry cfg env ?send stopped tx (Accounts t) = (accounts, r)"
      by fastforce
    with assms Cons Inr have "t' = t\<lparr>BroadcastChan := rest, Accounts := accounts\<rparr>"
      by (cases r) (simp_all add: broadcast_iteration_def split: if_splits)
    with tried [OF Cons b] show thesis by blast
  qed
qed

lemma broadcast_iteration_ok:
  assumes ok: "txm_ok cfg t" and b: "broadcast_iteration cfg env send stopped t = Inr t'"
  shows "txm_ok cfg t' \<and> entry_le (account_ledger (Accounts t) a lt) (account_ledger (Accounts t') a lt)"
  using b
proof (cases rule: broadcast_iteration_cases)
  case (tried tx rest send' accounts r)
  with ok broadcastWithRetry_ok [OF _ tried(2), of a lt] show ?thesis by (simp add: txm_ok_def)
qed (use ok in \<open>auto simp: txm_ok_def\<close>)

lemma Enqueue_ok:
  "txm_ok cfg t \<Longrightarrow> Enqueue cfg env now1 now2 request t = Inr t' \<Longrightarrow> txm_ok cfg t' \<and> Accounts t' = Accounts t"
  by (auto simp: Enqueue_def txm_ok_def Let_def split: if_splits)

lemma GetTransactionStatus_ok:
  assumes "txm_ok cfg t" "GetTransactionStatus env FromNano lt t = (t', r)"
  shows "txm_ok cfg t' \<and> account_ledger (Accounts t') = account_ledger (Accounts t)"
  using assms GetTxStore_ok [of "Accounts t" "addr_String env (wallet_Address env (Client_Wallet env))"]
  by (auto simp: GetTransactionStatus_def txm_ok_def Let_def split: prod.splits)

lemma txm_step_ok:
  assumes "txm_step cfg env t t'" "txm_ok cfg t"
  shows "txm_ok cfg t' \<and> entry_le (account_ledger (Accounts t) b lt) (account_ledger (Accounts t') b lt)"
  using assms
proof (induction rule: txm_step.induct)
  case (enqueue now1 now2 request t t')
  with Enqueue_ok [OF enqueue(2,1)] show ?case by simp
next
  case (broadcast send stopped t t')
  with broadcast_iteration_ok [OF broadcast(2,1)] show ?case by simp
next
  case (confirm account u t accounts)
  with confirm_one_ok [of "Accounts t" env account u accounts b lt] show ?case by (simp add: txm_ok_def)
next
  case (get_store t account)
  then show ?case
    using GetTxStore_ok [of "Accounts t" account "fst (GetTxStore account (Accounts t))" "snd (GetTxStore account (Accounts t))"]
    by (simp add: txm_ok_def)
next
  case (status FromNano lt' t t' r)
  with GetTransactionStatus_ok [OF status(2,1)] show ?case by simp
qed

lemma txm_steps_ok:
  assumes "(txm_step cfg env)\<^sup>*\<^sup>* t t'" "txm_ok cfg t"
  shows "txm_ok cfg t' \<and> entry_le (account_ledger (Accounts t) b lt) (account_ledger (Accounts t') b lt)"
  using assms
proof (induction rule: rtranclp_induct)
  case (step t1 t2)
  then show ?case using txm_step_ok entry_le_trans by blast
qed simp

lemma txm_reachable_ok: "txm_reachable cfg env t \<Longrightarrow> txm_ok cfg t"
proof (induction rule: txm_reachable.induct)
  case init
  show ?case by (simp add: txm_ok_def NewTxm_def NewAccountStore_def accounts_ok_def)
next
  case (step t t')
  with txm_step_ok show ?case by blast
qed

section \<open>Confirming transactions: lemmas\<close>

text \<open>The outcome of a settled trace: did all of it succeed, and the deciding exit code.\<close>

definition trace_ok :: "('a, 'c) ReceivedMessage \<Rightarrow> bool" where
  "trace_ok m = (\<forall>n \<in> set (messages m). rm_Success (info n))"

definition trace_code :: "('a, 'c) ReceivedMessage \<Rightarrow> ExitCode" where
  "trace_code m = (case find (\<lambda>n. \<not> rm_Success (info n)) (messages m) of
     None \<Rightarrow> ExitCodeSuccess | Some n \<Rightarrow> rm_ExitCode (info n))"

lemma wait_settled:
  assumes "recvs m = []" "WaitForTrace E S m = Some (m', Inr ())"
  shows "Status m' = Finalized \<and> TraceSucceeded m' = Inr (trace_ok m') \<and> OutcomeExitCode (Some m') = Inr (trace_code m')"
proof -
  have "settled m'" using assms by (rule WaitForTrace_settled)
  then have nodes: "\<forall>n \<in> set (messages m'). sents n = []" "\<forall>n \<in> set (messages m'). None \<notin> set (recvs n)"
    by (auto simp: settled_def)
  moreover have "m' \<in> set (messages m')" by (cases m') simp
  ultimately show ?thesis
    using TraceSucceeded_messages(1) [of m'] outcome_loop_messages [of "[Some m']"]
    by (simp add: Status_def OutcomeExitCode_def trace_ok_def trace_code_def)
qed

lemma confirm_one_settled:
  assumes ok: "accounts_ok c" and msg: "t_ReceivedMessage (u_Tx u) = Some m" "recvs m = []"
    and w: "WaitForTrace (addr_Equals env) (SubscribeOn env) m = Some (m', Inr ())"
  shows "\<exists>c'. confirm_one env a u c = Some (Inr c') \<and> accounts_ok c' \<and>
    account_ledger c' = (if account_ledger c a (u_LT u) = Some Pending
      then (account_ledger c)(a := (account_ledger c a)(u_LT u \<mapsto> Done (trace_ok m') (trace_code m')))
      else account_ledger c)"
proof -
  obtain s c1 where get: "GetTxStore a c = (s, c1)" by (cases "GetTxStore a c")
  note st = GetTxStore_ok [OF ok get]
  have "account_ledger c1 a = ledger s" using st by (simp add: account_ledger_def fun_eq_iff)
  with st have led: "account_ledger c a = ledger s" by simp
  have eq: "confirm_one env a u c = (case MarkFinalized (u_LT u) (trace_ok m') (trace_code m') s of
      Inl e \<Rightarrow> Some (Inr c1) | Inr s' \<Rightarrow> Some (Inr (gput a s' c1)))"
    using wait_settled [OF msg(2) w] msg w get by (simp add: confirm_one_def)
  have wf: "store_wf s" using st by (simp add: store_ok_wf)
  show ?thesis
  proof (cases "ledger s (u_LT u) = Some Pending")
    case True
    then obtain s' where s': "MarkFinalized (u_LT u) (trace_ok m') (trace_code m') s = Inr s'"
      "ledger s' = (ledger s)(u_LT u \<mapsto> Done (trace_ok m') (trace_code m'))"
      using store_ledger.finalize_pending [OF wf True] by blast
    have "accounts_ok (gput a s' c1)"
      using put_store_ok [of c1 a s s'] st MarkFinalized_ok [OF _ s'(1)] MarkFinalized_le [OF wf s'(1)] by blast
    moreover have "account_ledger (gput a s' c1) = (account_ledger c1)(a := ledger s')"
      by (auto simp: account_ledger_def fun_eq_iff)
    ultimately show ?thesis using eq s' st led True by simp
  next
    case False
    then show ?thesis
      using store_ledger.finalize_other [OF wf False, of "trace_ok m'" "trace_code m'"] eq st led by auto
  qed
qed

text \<open>The unconfirmed transactions of all accounts.\<close>

definition pending_tx :: "('a, 'c) AccountStore \<Rightarrow> string \<Rightarrow> ('a, 'c) UnconfirmedTx \<Rightarrow> bool" where
  "pending_tx c a u = (\<exists>s. map_of c a = Some s \<and> map_of (unconfirmedTxs s) (u_LT u) = Some u)"

text \<open>The trace of an unconfirmed transaction can be followed to its end.\<close>

definition followable :: "('a, 'c, 'w, 'st) TxmEnv \<Rightarrow> ('a, 'c) UnconfirmedTx \<Rightarrow> bool" where
  "followable env u = (\<exists>m m'. t_ReceivedMessage (u_Tx u) = Some m \<and> recvs m = [] \<and>
     WaitForTrace (addr_Equals env) (SubscribeOn env) m = Some (m', Inr ()))"

lemma confirm_list_settled:
  assumes "accounts_ok c" "\<forall>u \<in> set us. followable env u"
  shows "\<exists>c'. confirm_list env a us c = Some (Inr c') \<and> accounts_ok c' \<and>
    (\<forall>b lt. account_ledger c' b lt = Some Pending \<longrightarrow>
       account_ledger c b lt = Some Pending \<and> (b = a \<longrightarrow> lt \<notin> u_LT ` set us))"
  using assms
proof (induction us arbitrary: c)
  case (Cons u us)
  from Cons.prems(2) obtain m m' where "t_ReceivedMessage (u_Tx u) = Some m" "recvs m = []"
    "WaitForTrace (addr_Equals env) (SubscribeOn env) m = Some (m', Inr ())"
    by (auto simp: followable_def)
  from confirm_one_settled [OF Cons.prems(1) this, of a] obtain c1 where
    c1: "confirm_one env a u c = Some (Inr c1)" "accounts_ok c1"
      and upd: "account_ledger c1 = (if account_ledger c a (u_LT u) = Some Pending
        then (account_ledger c)(a := (account_ledger c a)(u_LT u \<mapsto> Done (trace_ok m') (trace_code m')))
        else account_ledger c)"
    by blast
  have c1': "account_ledger c b lt = Some Pending \<and> (b = a \<longrightarrow> lt \<noteq> u_LT u)"
    if "account_ledger c1 b lt = Some Pending" for b lt
    using that upd by (auto split: if_splits)
  from Cons.IH [OF c1(2)] Cons.prems(2) obtain c' where
    "confirm_list env a us c1 = Some (Inr c')" "accounts_ok c'"
    "\<forall>b lt. account_ledger c' b lt = Some Pending \<longrightarrow> account_ledger c1 b lt = Some Pending \<and> (b = a \<longrightarrow> lt \<notin> u_LT ` set us)"
    by auto
  with c1 c1' show ?case by auto
qed simp

lemma confirm_accounts_settled:
  assumes "accounts_ok c" "\<forall>(a, us) \<in> set xs. \<forall>u \<in> set us. followable env u"
  shows "\<exists>c'. confirm_accounts env xs c = Some (Inr c') \<and> accounts_ok c' \<and>
    (\<forall>b lt. account_ledger c' b lt = Some Pending \<longrightarrow>
       account_ledger c b lt = Some Pending \<and> (\<forall>us. (b, us) \<in> set xs \<longrightarrow> lt \<notin> u_LT ` set us))"
  using assms
proof (induction xs arbitrary: c)
  case (Cons x xs)
  obtain a us where x: "x = (a, us)" by (cases x)
  let ?c0 = "snd (GetTxStore a c)"
  have c0: "accounts_ok ?c0" "account_ledger ?c0 = account_ledger c"
    using GetTxStore_ok [OF Cons.prems(1), of a "fst (GetTxStore a c)" ?c0] by auto
  from confirm_list_settled [OF c0(1), of us env a] Cons.prems(2) x c0(2) obtain c1 where
    c1: "confirm_list env a us ?c0 = Some (Inr c1)" "accounts_ok c1"
      "\<forall>b lt. account_ledger c1 b lt = Some Pending \<longrightarrow> account_ledger c b lt = Some Pending \<and> (b = a \<longrightarrow> lt \<notin> u_LT ` set us)"
    by auto
  from Cons.IH [OF c1(2)] Cons.prems(2) obtain c' where
    "confirm_accounts env xs c1 = Some (Inr c')" "accounts_ok c'"
    "\<forall>b lt. account_ledger c' b lt = Some Pending \<longrightarrow>
       account_ledger c1 b lt = Some Pending \<and> (\<forall>us. (b, us) \<in> set xs \<longrightarrow> lt \<notin> u_LT ` set us)"
    by auto
  with c1 x show ?case by auto
qed simp

lemma gomap_wf_foldl: "gomap_wf m \<Longrightarrow> gomap_wf (foldl (\<lambda>m (k, v). gput k (f v) m) m xs)"
  by (induction xs arbitrary: m) auto

lemma snapshot_covers:
  assumes ok: "accounts_ok c" and laws: "go_range rng" "go_sort srt" "go_range arng" "go_range urng"
  shows "(a, us) \<in> set (urng (GetAllUnconfirmed rng srt arng c)) \<longleftrightarrow>
    (\<exists>s. map_of c a = Some s \<and> us = GetUnconfirmed rng srt s)"
proof -
  have wf: "gomap_wf (GetAllUnconfirmed rng srt arng c)" by (simp add: GetAllUnconfirmed_def gomap_wf_foldl)
  have "gomap_wf c" using ok by (simp add: accounts_ok_def)
  from GetAllUnconfirmed_lookup [OF laws(3) this, of rng srt a] show ?thesis
    using in_gomap [OF wf] go_range.set_rng [OF laws(4)] by auto
qed

lemma set_GetUnconfirmed:
  "go_range rng \<Longrightarrow> go_sort srt \<Longrightarrow> set (GetUnconfirmed rng srt s) = snd ` set (unconfirmedTxs s)"
  by (simp add: GetUnconfirmed_def go_sort.set_sort go_range.set_rng)

lemma ledger_pending: "ledger s lt = Some Pending \<longleftrightarrow> (\<exists>u. map_of (unconfirmedTxs s) lt = Some u)"
  by (auto simp: ledger_def split: option.splits)

section \<open>Properties\<close>

text \<open>
  C1: In every reachable state of the transaction manager the broadcast channel is within its
  capacity, and every account's store is well formed: no transaction is both unconfirmed and
  finalised, and each unconfirmed one holds its received message under that message's time.
\<close>

theorem txm_invariant:
  assumes "txm_reachable cfg env t"
  shows "txm_ok cfg t"
  using assms by (rule txm_reachable_ok)

text \<open>
  C2: Transactions only move forward. Whatever the callers, the broadcast loop and the confirmation
  loop do from a reachable state, a transaction known to an account stays known, and once it is
  done its success flag and exit code never change.
\<close>

theorem txm_progress:
  assumes "txm_reachable cfg env t" "(txm_step cfg env)\<^sup>*\<^sup>* t t'"
  shows "entry_le (account_ledger (Accounts t) account lt) (account_ledger (Accounts t') account lt)"
  using txm_steps_ok [OF assms(2) txm_reachable_ok [OF assms(1)]] by blast

text \<open>
  C20: One run of \<open>checkUnconfirmed\<close> clears the backlog: if the trace of every unconfirmed
  transaction can be followed to its end, the run returns and no transaction of any account is
  left pending, whatever the map iteration orders and the sort.
\<close>

theorem checkUnconfirmed_clears:
  assumes ok: "accounts_ok accounts" and fol: "\<forall>a u. pending_tx accounts a u \<longrightarrow> followable env u"
    and laws: "go_range rng" "go_sort sort_Slice" "go_range arng" "go_range urng"
  shows "\<exists>accounts'. checkUnconfirmed rng sort_Slice arng urng env accounts = Some (Inr accounts') \<and>
    accounts_ok accounts' \<and> (\<forall>a lt. account_ledger accounts' a lt \<noteq> Some Pending)"
proof -
  let ?xs = "urng (GetAllUnconfirmed rng sort_Slice arng accounts)"
  have fol': "followable env u" if x: "(a, us) \<in> set ?xs" "u \<in> set us" for a us u
  proof -
    from x(1) snapshot_covers [OF ok laws] obtain s where s: "map_of accounts a = Some s" "us = GetUnconfirmed rng sort_Slice s"
      by blast
    with x(2) obtain lt where "(lt, u) \<in> set (unconfirmedTxs s)" by (auto simp: set_GetUnconfirmed [OF laws(1,2)])
    moreover from ok s have "store_wf s" by (simp add: accounts_ok_def store_ok_wf)
    ultimately have "map_of (unconfirmedTxs s) (u_LT u) = Some u" by (auto simp: store_wf_def in_gomap)
    with s fol show ?thesis by (auto simp: pending_tx_def)
  qed
  then have "\<forall>(a, us) \<in> set ?xs. \<forall>u \<in> set us. followable env u" by blast
  from confirm_accounts_settled [OF ok this] obtain c' where
    c': "confirm_accounts env ?xs accounts = Some (Inr c')" "accounts_ok c'"
      "\<forall>b lt. account_ledger c' b lt = Some Pending \<longrightarrow>
         account_ledger accounts b lt = Some Pending \<and> (\<forall>us. (b, us) \<in> set ?xs \<longrightarrow> lt \<notin> u_LT ` set us)"
    by blast
  have "account_ledger c' a lt \<noteq> Some Pending" for a lt
  proof
    assume "account_ledger c' a lt = Some Pending"
    with c'(3) have pend: "account_ledger accounts a lt = Some Pending"
      and miss: "\<And>us. (a, us) \<in> set ?xs \<Longrightarrow> lt \<notin> u_LT ` set us" by auto
    from pend obtain s u where s: "map_of accounts a = Some s" "map_of (unconfirmedTxs s) lt = Some u"
      by (auto simp: account_ledger_def ledger_pending split: option.splits)
    with ok have "u_LT u = lt" by (auto simp: accounts_ok_def store_ok_def store_wf_def)
    moreover from s have "u \<in> set (GetUnconfirmed rng sort_Slice s)"
      by (force simp: set_GetUnconfirmed [OF laws(1,2)] dest: map_of_SomeD)
    moreover from s snapshot_covers [OF ok laws] have "(a, GetUnconfirmed rng sort_Slice s) \<in> set ?xs" by blast
    ultimately show False using miss by blast
  qed
  with c'(1,2) show ?thesis by (auto simp: checkUnconfirmed_def)
qed

text \<open>
  What is recorded is the verdict on the whole trace. Confirming a pending transaction whose
  trace was followed to its end files it as done, with the flag saying whether every message of the
  trace succeeded and the exit code of the first one that did not.
\<close>

theorem confirm_one_verdict:
  assumes "accounts_ok accounts" "account_ledger accounts account (u_LT u) = Some Pending"
    and "t_ReceivedMessage (u_Tx u) = Some m" "recvs m = []"
    and "WaitForTrace (addr_Equals env) (SubscribeOn env) m = Some (m', Inr ())"
  shows "\<exists>accounts'. confirm_one env account u accounts = Some (Inr accounts') \<and>
    account_ledger accounts' account (u_LT u) =
      Some (Done (\<forall>n \<in> set (messages m'). rm_Success (info n))
                 (case find (\<lambda>n. \<not> rm_Success (info n)) (messages m') of
                    None \<Rightarrow> ExitCodeSuccess | Some n \<Rightarrow> rm_ExitCode (info n)))"
  using confirm_one_settled [OF assms(1,3,4,5), of account] assms(2)
  by (auto simp: trace_ok_def trace_code_def)

section \<open>Broadcasting\<close>

lemma send_loop_find:
  assumes "attempt \<le> maxAttempts" "\<forall>i \<in> {attempt..maxAttempts}. \<not> stopped i"
    and "\<forall>i \<in> {attempt..maxAttempts}. \<forall>e. send i = Inl e \<longrightarrow> \<not> is_panic e"
  shows "send_loop maxAttempts send stopped attempt lastErr =
    (case find (\<lambda>i. okE (send i)) [attempt..<Suc maxAttempts] of Some k \<Rightarrow> send k | None \<Rightarrow> send maxAttempts)"
  using assms
proof (induction maxAttempts send stopped attempt lastErr rule: send_loop.induct)
  case (1 n send stopped attempt lastErr)
  have upt: "[attempt..<Suc n] = attempt # [Suc attempt..<Suc n]"
    using "1.prems"(1) by (simp add: upt_conv_Cons)
  show ?case
  proof (cases "send attempt")
    case (Inr m)
    then show ?thesis by (subst send_loop.simps) (simp add: upt "1.prems" del: upt_Suc)
  next
    case (Inl e)
    with "1.prems" have e: "\<not> is_panic e" "\<not> stopped attempt" by auto
    show ?thesis
    proof (cases "attempt = n")
      case True
      with Inl e show ?thesis
        by (subst send_loop.simps, subst send_loop.simps) simp
    next
      case False
      have "send_loop n send stopped (Suc attempt) (Some e) =
        (case find (\<lambda>i. okE (send i)) [Suc attempt..<Suc n] of Some k \<Rightarrow> send k | None \<Rightarrow> send n)"
        using "1.prems" Inl e False by (intro "1.IH") auto
      with Inl e "1.prems"(1) show ?thesis
        by (subst send_loop.simps) (simp add: upt del: upt_Suc)
    qed
  qed
qed

text \<open>What \<open>broadcastWithRetry\<close> does with the message of a successful send.\<close>

lemma broadcastWithRetry_sent:
  assumes ok: "accounts_ok accounts"
    and loop: "send_loop (MaxSendRetryAttempts cfg) send stopped 1 None = Inr m"
    and res: "broadcastWithRetry cfg env send stopped tx accounts = (accounts', r)"
    and a: "a = addr_String env (wallet_Address env (Client_Wallet env))" and lt: "lt = rm_LamportTime (info m)"
  shows "if account_ledger accounts a lt = None
    then r = Inr () \<and> account_ledger accounts' = (account_ledger accounts)(a := (account_ledger accounts a)(lt \<mapsto> Pending)) \<and>
      pending_tx accounts' a \<lparr>u_LT = lt, u_ExpirationMs = lt div 1000 + of_nat (SendRetryDelay cfg div 10 ^ 9),
        u_Tx = tx\<lparr>t_ReceivedMessage := Some m\<rparr>\<rparr>
    else r = Inl (Err ''tx already exists'') \<and> account_ledger accounts' = account_ledger accounts"
proof -
  obtain s c1 where get: "GetTxStore a accounts = (s, c1)" by (cases "GetTxStore a accounts")
  note st = GetTxStore_ok [OF ok get]
  have "account_ledger c1 a = ledger s" using st by (simp add: account_ledger_def fun_eq_iff)
  with st have led: "account_ledger accounts a = ledger s" by simp
  let ?u = "\<lparr>u_LT = lt, u_ExpirationMs = lt div 1000 + of_nat (SendRetryDelay cfg div 10 ^ 9), u_Tx = tx\<lparr>t_ReceivedMessage := Some m\<rparr>\<rparr>"
  show ?thesis
  proof (cases "ledger s lt = None")
    case True
    then have none: "map_of (unconfirmedTxs s) lt = None" "map_of (finalizedTxs s) lt = None"
      by (auto simp: ledger_def split: option.splits)
    let ?s = "s\<lparr>unconfirmedTxs := gput lt ?u (unconfirmedTxs s)\<rparr>"
    have "accounts' = gput a ?s c1" "r = Inr ()"
      using res loop get none by (auto simp: broadcastWithRetry_def Let_def AddUnconfirmed_def a lt)
    moreover have "ledger ?s = (ledger s)(lt \<mapsto> Pending)"
      by (auto simp: ledger_def fun_eq_iff split: option.splits)
    then have "account_ledger (gput a ?s c1) = (account_ledger accounts)(a := (account_ledger accounts a)(lt \<mapsto> Pending))"
      using st led by (auto simp: account_ledger_def fun_eq_iff)
    moreover have "pending_tx (gput a ?s c1) a ?u" by (simp add: pending_tx_def)
    ultimately show ?thesis using True led by simp
  next
    case False
    then have "AddUnconfirmed lt e x s = Inl (Err ''tx already exists'')" for e x
      by (auto simp: AddUnconfirmed_def ledger_def split: option.splits)
    with False res loop get st led show ?thesis by (auto simp: broadcastWithRetry_def Let_def a lt)
  qed
qed

text \<open>
  C23: The retry policy. While the manager is not stopped and no attempt panics, \<open>broadcastWithRetry\<close> makes at
  most \<open>MaxSendRetryAttempts\<close> attempts. If one succeeds, the message of the first that does is used: unless the
  sender's ledger knows its Lamport time already (which is an error and changes nothing), the call succeeds, the
  transaction is stored with that message and its expiry, and the only change of the ledgers is that it is
  pending. If none succeeds, the error of the last one is reported and nothing is stored. With
  \<open>MaxSendRetryAttempts = 0\<close> nothing is sent and the nil message is dereferenced.
\<close>

theorem broadcastWithRetry_policy:
  assumes ok: "accounts_ok accounts"
    and nostop: "\<forall>i \<in> {1..MaxSendRetryAttempts cfg}. \<not> stopped i"
    and nopanic: "\<forall>i \<in> {1..MaxSendRetryAttempts cfg}. \<forall>e. send i = Inl e \<longrightarrow> \<not> is_panic e"
    and res: "broadcastWithRetry cfg env send stopped tx accounts = (accounts', r)"
    and sender: "a = addr_String env (wallet_Address env (Client_Wallet env))"
  shows "if MaxSendRetryAttempts cfg = 0 then r = Inl (Panic ''nil pointer dereference'') \<and> accounts' = accounts
    else (case find (\<lambda>i. okE (send i)) [1..<Suc (MaxSendRetryAttempts cfg)] of
        None \<Rightarrow> \<exists>e. send (MaxSendRetryAttempts cfg) = Inl e \<and> r = Inl e \<and> accounts' = accounts
      | Some k \<Rightarrow> \<exists>m lt. send k = Inr m \<and> lt = rm_LamportTime (info m) \<and>
          (if account_ledger accounts a lt = None
           then r = Inr () \<and> account_ledger accounts' = (account_ledger accounts)(a := (account_ledger accounts a)(lt \<mapsto> Pending)) \<and>
             pending_tx accounts' a \<lparr>u_LT = lt, u_ExpirationMs = lt div 1000 + of_nat (SendRetryDelay cfg div 10 ^ 9),
               u_Tx = tx\<lparr>t_ReceivedMessage := Some m\<rparr>\<rparr>
           else r = Inl (Err ''tx already exists'') \<and> account_ledger accounts' = account_ledger accounts))"
proof (cases "MaxSendRetryAttempts cfg = 0")
  case True
  with res show ?thesis by (simp add: broadcastWithRetry_def send_loop.simps)
next
  case False
  let ?n = "MaxSendRetryAttempts cfg"
  have loop: "send_loop ?n send stopped 1 None =
      (case find (\<lambda>i. okE (send i)) [1..<Suc ?n] of Some k \<Rightarrow> send k | None \<Rightarrow> send ?n)"
    using False nostop nopanic by (intro send_loop_find) auto
  show ?thesis
  proof (cases "find (\<lambda>i. okE (send i)) [1..<Suc ?n]")
    case None
    then have "\<not> okE (send ?n)" using False by (auto simp: find_None_iff)
    then obtain e where "send ?n = Inl e" by (cases "send ?n") auto
    with None loop False res show ?thesis by (simp add: broadcastWithRetry_def)
  next
    case (Some k)
    then have "okE (send k)" by (auto simp: find_Some_iff)
    then obtain m where m: "send k = Inr m" by (auto simp: okE_iff)
    with loop Some have "send_loop ?n send stopped 1 None = Inr m" by simp
    from broadcastWithRetry_sent [OF ok this res sender refl] Some m False show ?thesis by simp
  qed
qed

section \<open>A concrete manager\<close>

definition sample_env :: "(nat, nat, nat, nat) TxmEnv" where
  "sample_env = \<lparr>Keystore_Sign = (\<lambda>k d. Inr []), wallet_Public = (\<lambda>w. Ed25519 [1, 171]), wallet_Address = (\<lambda>w. w),
     addr_String = (\<lambda>a. if a = 1 then ''1'' else ''2''), addr_Equals = (=), Client_Wallet = 1, LoadStateInit = (\<lambda>c. Inr c),
     SubscribeOn = sample_chain\<rparr>"

definition sample_request :: "(nat, nat, nat) Request" where
  "sample_request = \<lparr>r_Mode = 1, r_FromWallet = 1, r_ContractAddress = 2, r_Body = None, r_Amount = 50, r_Bounce = True, r_StateInit = None\<rparr>"

definition sample_msg :: "(nat, nat) ReceivedMessage" where
  "sample_msg = projr (MapToReceivedMessage (sample_tx 1 2 10 [MsgInternal (sample_internal 2 3 11)]))"

definition sample_state :: "(nat, nat) TxmState" where
  "sample_state = projr (broadcast_iteration DefaultTxmConfig sample_env
     (\<lambda>a m i. if i < 3 then Inl (Err ''timeout'') else Inr sample_msg) (\<lambda>i. False)
     (projr (Enqueue DefaultTxmConfig sample_env 0 0 sample_request NewTxm)))"

lemma sample_msg_simps: "recvs sample_msg = []" "rm_LamportTime (info sample_msg) = 11"
  by (simp_all add: sample_msg_def sample_simps)

lemma sample_enqueue: "Enqueue DefaultTxmConfig sample_env 0 0 sample_request NewTxm =
  Inr \<lparr>BroadcastChan = [\<lparr>t_Mode = 1, t_From = 1, t_To = 2, t_Amount = 50, t_Body = None, t_StateInit = None, t_Bounceable = True,
    t_CreatedAt = 0, t_Expiration = 300 * 10 ^ 9, t_ReceivedMessage = None\<rparr>], Accounts = []\<rparr>"
  by (simp add: Enqueue_def PublicKeyHex_def sample_env_def sample_request_def NewTxm_def NewAccountStore_def
      DefaultTxmConfig_def)

lemma sample_send: "send_loop 5 (\<lambda>i. if i < 3 then Inl (Err ''timeout'') else Inr sample_msg) (\<lambda>i. False) (Suc 0) None = Inr sample_msg"
  by (simp add: send_loop.simps)

lemma sample_broadcast:
  "\<exists>u. broadcast_iteration DefaultTxmConfig sample_env (\<lambda>a m i. if i < 3 then Inl (Err ''timeout'') else Inr sample_msg) (\<lambda>i. False)
     (projr (Enqueue DefaultTxmConfig sample_env 0 0 sample_request NewTxm)) =
   Inr \<lparr>BroadcastChan = [], Accounts = [(''1'', \<lparr>unconfirmedTxs = [(11, u)], finalizedTxs = []\<rparr>)]\<rparr> \<and>
   u_LT u = 11 \<and> u_ExpirationMs u = 3 \<and> t_ReceivedMessage (u_Tx u) = Some sample_msg"
  unfolding sample_enqueue
  by (simp add: broadcast_iteration_def broadcastWithRetry_def sample_send sample_msg_simps GetTxStore_def NewTxStore_def
      AddUnconfirmed_def DefaultTxmConfig_def sample_env_def)

lemma sample_state_eq:
  obtains u where "Accounts sample_state = [(''1'', \<lparr>unconfirmedTxs = [(11, u)], finalizedTxs = []\<rparr>)]"
    "u_LT u = 11" "t_ReceivedMessage (u_Tx u) = Some sample_msg"
  using sample_broadcast by (auto simp: sample_state_def)

lemma sample_reachable: "txm_reachable DefaultTxmConfig sample_env sample_state"
proof -
  let ?t = "projr (Enqueue DefaultTxmConfig sample_env 0 0 sample_request NewTxm)"
  have "txm_reachable DefaultTxmConfig sample_env ?t"
    by (rule txm_reachable.step [OF txm_reachable.init], rule txm_step.enqueue [of _ _ 0 0 sample_request])
      (simp add: sample_enqueue)
  then show ?thesis
    by (rule txm_reachable.step, intro txm_step.broadcast) (use sample_broadcast in \<open>auto simp: sample_state_def\<close>)
qed

lemma sample_wait: "\<exists>m'. WaitForTrace (=) sample_chain sample_msg = Some (m', Inr ()) \<and> map (rm_Success \<circ> info) (messages m') = [True, True]"
  by (simp add: sample_msg_def sample_simps WaitForTrace_def Status_def trace_loop.simps sample_chain_def
      WaitForOutgoingMessagesToBeReceived_def MapToReceivedMessageIfMatches_def MatchesReceived_def)

theorem txm_invariant_witness:
  "txm_reachable DefaultTxmConfig sample_env sample_state \<and> txm_ok DefaultTxmConfig sample_state"
  using sample_reachable txm_invariant [OF sample_reachable] by simp

lemma sample_accounts_ok: "accounts_ok (Accounts sample_state)"
  by (rule sample_state_eq)
    (auto simp: accounts_ok_def store_ok_def store_wf_def gomap_wf_def sample_msg_simps split: if_splits)

lemma sample_confirm:
  obtains u c' where "confirm_one sample_env ''1'' u (Accounts sample_state) = Some (Inr c')"
    "account_ledger c' ''1'' 11 = Some (Done True ExitCodeSuccess)"
proof -
  obtain u where u: "Accounts sample_state = [(''1'', \<lparr>unconfirmedTxs = [(11, u)], finalizedTxs = []\<rparr>)]"
    "u_LT u = 11" "t_ReceivedMessage (u_Tx u) = Some sample_msg" by (rule sample_state_eq)
  obtain m' where m': "WaitForTrace (addr_Equals sample_env) (SubscribeOn sample_env) sample_msg = Some (m', Inr ())"
    "map (rm_Success \<circ> info) (messages m') = [True, True]"
    using sample_wait by (auto simp: sample_env_def)
  from m'(2) have ok: "\<forall>n \<in> set (messages m'). rm_Success (info n)" by (auto simp: Cons_eq_map_conv map_eq_Cons_conv)
  then have "find (\<lambda>n. \<not> rm_Success (info n)) (messages m') = None" by (simp add: find_None_iff)
  moreover have "account_ledger (Accounts sample_state) ''1'' (u_LT u) = Some Pending"
    using u by (simp add: account_ledger_def ledger_def)
  ultimately show thesis
    using confirm_one_settled [OF sample_accounts_ok u(3) sample_msg_simps(1) m'(1), of "''1''"] u(2) ok that
    by (auto simp: trace_ok_def trace_code_def)
qed

theorem txm_progress_witness:
  "\<exists>t. (txm_step DefaultTxmConfig sample_env)\<^sup>*\<^sup>* sample_state t \<and>
     account_ledger (Accounts sample_state) ''1'' 11 = Some Pending \<and>
     account_ledger (Accounts t) ''1'' 11 = Some (Done True ExitCodeSuccess) \<and>
     (\<exists>t'. (txm_step DefaultTxmConfig sample_env)\<^sup>*\<^sup>* t t' \<and> map_of (Accounts t') ''2'' \<noteq> None \<and>
        account_ledger (Accounts t') ''1'' 11 = Some (Done True ExitCodeSuccess))"
proof -
  obtain u c' where c: "confirm_one sample_env ''1'' u (Accounts sample_state) = Some (Inr c')"
    and done1: "account_ledger c' ''1'' 11 = Some (Done True ExitCodeSuccess)" by (rule sample_confirm)
  let ?t = "sample_state\<lparr>Accounts := c'\<rparr>"
  let ?t' = "?t\<lparr>Accounts := snd (GetTxStore ''2'' (Accounts ?t))\<rparr>"
  have step: "txm_step DefaultTxmConfig sample_env sample_state ?t" by (rule txm_step.confirm [OF c])
  have step': "(txm_step DefaultTxmConfig sample_env)\<^sup>*\<^sup>* ?t ?t'" by (intro r_into_rtranclp txm_step.get_store)
  have "map_of (Accounts ?t') ''2'' \<noteq> None" by (auto simp: GetTxStore_def split: option.splits)
  moreover have "account_ledger (Accounts ?t') ''1'' 11 = Some (Done True ExitCodeSuccess)"
    using txm_progress [OF txm_reachable.step [OF sample_reachable step] step', of "''1''" 11] done1
    by (simp add: entry_le_def)
  moreover have "account_ledger (Accounts sample_state) ''1'' 11 = Some Pending"
    by (rule sample_state_eq) (simp add: account_ledger_def ledger_def)
  ultimately show ?thesis using step step' done1 by (intro exI [of _ ?t]) auto
qed

theorem checkUnconfirmed_clears_witness:
  "\<exists>accounts'. checkUnconfirmed rev sort_by rev rev sample_env (Accounts sample_state) = Some (Inr accounts') \<and>
     (\<forall>a lt. account_ledger accounts' a lt \<noteq> Some Pending)"
proof -
  have "\<forall>a u. pending_tx (Accounts sample_state) a u \<longrightarrow> followable sample_env u"
    by (rule sample_state_eq)
      (use sample_wait in \<open>auto simp: followable_def pending_tx_def sample_env_def sample_msg_simps split: if_splits\<close>)
  from checkUnconfirmed_clears [OF sample_accounts_ok this rng_rev.go_range_axioms isort.go_sort_axioms
      rng_rev.go_range_axioms rng_rev.go_range_axioms] show ?thesis by blast
qed

theorem confirm_one_verdict_witness:
  "\<exists>u accounts'. confirm_one sample_env ''1'' u (Accounts sample_state) = Some (Inr accounts') \<and>
     account_ledger accounts' ''1'' 11 = Some (Done True ExitCodeSuccess)"
proof -
  obtain u where u: "Accounts sample_state = [(''1'', \<lparr>unconfirmedTxs = [(11, u)], finalizedTxs = []\<rparr>)]"
    "u_LT u = 11" "t_ReceivedMessage (u_Tx u) = Some sample_msg" by (rule sample_state_eq)
  obtain m' where m': "WaitForTrace (addr_Equals sample_env) (SubscribeOn sample_env) sample_msg = Some (m', Inr ())"
    "map (rm_Success \<circ> info) (messages m') = [True, True]"
    using sample_wait by (auto simp: sample_env_def)
  from m'(2) have ok: "\<forall>n \<in> set (messages m'). rm_Success (info n)" by (auto simp: Cons_eq_map_conv map_eq_Cons_conv)
  then have "find (\<lambda>n. \<not> rm_Success (info n)) (messages m') = None" by (simp add: find_None_iff)
  moreover have "account_ledger (Accounts sample_state) ''1'' (u_LT u) = Some Pending"
    using u by (simp add: account_ledger_def ledger_def)
  ultimately show ?thesis
    using confirm_one_verdict [OF sample_accounts_ok _ u(3) sample_msg_simps(1) m'(1), of "''1''"] u(2) ok by auto
qed

theorem broadcastWithRetry_policy_witness:
  "\<forall>tx. \<exists>accounts'. broadcastWithRetry DefaultTxmConfig sample_env
       (\<lambda>i. if i < 3 then Inl (Err ''timeout'') else Inr sample_msg) (\<lambda>i. False) tx [] = (accounts', Inr ()) \<and>
     account_ledger accounts' ''1'' 11 = Some Pending \<and>
     pending_tx accounts' ''1'' \<lparr>u_LT = 11, u_ExpirationMs = 3, u_Tx = tx\<lparr>t_ReceivedMessage := Some sample_msg\<rparr>\<rparr>"
proof
  fix tx :: "(nat, nat) Tx"
  let ?send = "\<lambda>i::nat. if i < 3 then Inl (Err ''timeout'') else Inr sample_msg"
  obtain accounts' r where b: "broadcastWithRetry DefaultTxmConfig sample_env ?send (\<lambda>i. False) tx [] = (accounts', r)"
    by (cases "broadcastWithRetry DefaultTxmConfig sample_env ?send (\<lambda>i. False) tx []")
  have "find (\<lambda>i. okE (?send i)) [1..<Suc (MaxSendRetryAttempts DefaultTxmConfig)] = Some 3"
    by (simp add: DefaultTxmConfig_def upt_rec)
  moreover have "accounts_ok ([] :: (nat, nat) AccountStore)" by (simp add: accounts_ok_def)
  moreover have "''1'' = addr_String sample_env (wallet_Address sample_env (Client_Wallet sample_env))" by (simp add: sample_env_def)
  ultimately have "r = Inr () \<and> account_ledger accounts' = (\<lambda>x y. None)(''1'' := [11 \<mapsto> Pending]) \<and>
    pending_tx accounts' ''1'' \<lparr>u_LT = 11, u_ExpirationMs = 3, u_Tx = tx\<lparr>t_ReceivedMessage := Some sample_msg\<rparr>\<rparr>"
    using broadcastWithRetry_policy [OF _ _ _ b]
    by (auto simp: DefaultTxmConfig_def sample_msg_simps account_ledger_def fun_eq_iff split: if_splits)
  with b show "\<exists>accounts'. broadcastWithRetry DefaultTxmConfig sample_env ?send (\<lambda>i. False) tx [] = (accounts', Inr ()) \<and>
     account_ledger accounts' ''1'' 11 = Some Pending \<and>
     pending_tx accounts' ''1'' \<lparr>u_LT = 11, u_ExpirationMs = 3, u_Tx = tx\<lparr>t_ReceivedMessage := Some sample_msg\<rparr>\<rparr>" by simp
qed

end
