(* ===== verification/Relay_Config.thy ===== *)
theory Relay_Config
  imports Txm
begin

text \<open>
  The configuration of a chain (\<open>pkg/config/config.go\<close>, \<open>pkg/config/toml.go\<close>): validation, defaults and the
  merging of configurations. The TOML reader and writer are arguments; a URL is its printed form. Nodes are
  pointers into a heap, because \<open>SetFrom\<close> shares and updates them in place. An \<open>errors.Join\<close> is the list of
  the errors joined, empty for nil.
\<close>

section \<open>Data\<close>

record Node =
  Node_Name :: "string option"
  Node_URL :: "string option"

type_synonym node_heap = "nat \<Rightarrow> Node"

record ChainConfig =
  TransactionManager :: "TxmConfig option"
  ClientTTL :: int \<comment> \<open>a time.Duration, in nanoseconds\<close>

record TOMLConfig =
  Enabled :: "bool option"
  ChainID :: string
  NetworkName :: string
  NetworkNameFull :: string
  Chain_cfg :: ChainConfig
  Nodes :: "nat list"

definition ChainFamilyName :: string where
  "ChainFamilyName = ''ton''"

definition DefaultChainConfig :: ChainConfig where
  "DefaultChainConfig = \<lparr>TransactionManager = Some DefaultTxmConfig, ClientTTL = 10 * 60 * 10 ^ 9\<rparr>"

datatype config_error = ErrMissing string string | ErrEmpty string string

text \<open>The errors of \<open>NewDecodedTOMLConfig\<close>: of the TOML reader, of validation, and for a disabled chain.\<close>

datatype toml_error = ErrDecode gerr string | ErrInvalid "config_error list" | ErrDisabled string

section \<open>Validation\<close>

definition Node_ValidateConfig :: "Node \<Rightarrow> config_error list" where
  "Node_ValidateConfig n =
     (case Node_Name n of
        None \<Rightarrow> [ErrMissing ''Name'' ''required for all nodes'']
      | Some nm \<Rightarrow> if nm = '''' then [ErrEmpty ''Name'' ''required for all nodes''] else []) @
     (case Node_URL n of
        None \<Rightarrow> [ErrMissing ''URL'' ''required for all nodes'']
      | Some u \<Rightarrow> if u = '''' then [ErrEmpty ''URL'' ''required for all nodes''] else [])"

definition TOML_ValidateConfig :: "node_heap \<Rightarrow> TOMLConfig \<Rightarrow> config_error list" where
  "TOML_ValidateConfig h c =
     (if ChainID c = '''' then [ErrEmpty ''ChainID'' ''required for all chains''] else []) @
     (if length (Nodes c) = 0 then [ErrMissing ''Nodes'' ''must have at least one node'']
      else concat (map (\<lambda>p. Node_ValidateConfig (h p)) (Nodes c)))"

definition IsEnabled :: "TOMLConfig \<Rightarrow> bool" where
  "IsEnabled c = (case Enabled c of None \<Rightarrow> True | Some b \<Rightarrow> b)"

section \<open>Defaults and decoding\<close>

definition SetDefaults :: "TOMLConfig \<Rightarrow> TOMLConfig" where
  "SetDefaults c =
     (let c1 = (case TransactionManager (Chain_cfg c) of
            None \<Rightarrow> c\<lparr>Chain_cfg := (Chain_cfg c)\<lparr>TransactionManager := TransactionManager DefaultChainConfig\<rparr>\<rparr>
          | Some t \<Rightarrow> c)
      in if NetworkNameFull c1 = '''' then c1\<lparr>NetworkNameFull := ChainFamilyName @ ''-'' @ NetworkName c1\<rparr> else c1)"

definition NewDecodedTOMLConfig :: "(string \<Rightarrow> (node_heap \<times> TOMLConfig) res) \<Rightarrow> string \<Rightarrow> toml_error + node_heap \<times> TOMLConfig" where
  "NewDecodedTOMLConfig decode rawConfig = (case decode rawConfig of
       Inl e \<Rightarrow> Inl (ErrDecode e rawConfig)
     | Inr (h, cfg) \<Rightarrow>
        if TOML_ValidateConfig h cfg \<noteq> [] then Inl (ErrInvalid (TOML_ValidateConfig h cfg))
        else if \<not> IsEnabled cfg then Inl (ErrDisabled (ChainID cfg))
        else Inr (h, SetDefaults cfg))"

section \<open>Merging\<close>

definition setFromNode :: "node_heap \<Rightarrow> nat \<Rightarrow> nat \<Rightarrow> node_heap" where
  "setFromNode h n f =
     (let h1 = (case Node_Name (h f) of None \<Rightarrow> h | Some nm \<Rightarrow> h(n := (h n)\<lparr>Node_Name := Some nm\<rparr>))
      in case Node_URL (h1 f) of None \<Rightarrow> h1 | Some u \<Rightarrow> h1(n := (h1 n)\<lparr>Node_URL := Some u\<rparr>))"

text \<open>\<open>slices.IndexFunc\<close>: the first index that satisfies the predicate.\<close>

fun IndexFunc :: "('x \<Rightarrow> bool) \<Rightarrow> 'x list \<Rightarrow> nat option" where
  "IndexFunc P [] = None"
| "IndexFunc P (x # xs) = (if P x then Some 0 else map_option Suc (IndexFunc P xs))"

fun Nodes_SetFrom :: "node_heap \<Rightarrow> nat list \<Rightarrow> nat list \<Rightarrow> node_heap \<times> nat list" where
  "Nodes_SetFrom h ns [] = (h, ns)"
| "Nodes_SetFrom h ns (f # fs) = (case Node_Name (h f) of
       None \<Rightarrow> Nodes_SetFrom h (ns @ [f]) fs
     | Some nm \<Rightarrow> (case IndexFunc (\<lambda>n. Node_Name (h n) = Some nm) ns of
           None \<Rightarrow> Nodes_SetFrom h (ns @ [f]) fs
         | Some i \<Rightarrow> Nodes_SetFrom (setFromNode h (ns ! i) f) ns fs))"

definition setFromChain :: "ChainConfig \<Rightarrow> ChainConfig \<Rightarrow> ChainConfig" where
  "setFromChain c f = (case TransactionManager f of None \<Rightarrow> c | Some t \<Rightarrow> c\<lparr>TransactionManager := Some t\<rparr>)"

definition TOML_SetFrom :: "node_heap \<Rightarrow> TOMLConfig \<Rightarrow> TOMLConfig \<Rightarrow> node_heap \<times> TOMLConfig" where
  "TOML_SetFrom h c f =
     (let (h', ns) = Nodes_SetFrom h (Nodes c) (Nodes f)
      in (h', c\<lparr>Enabled := Enabled f, ChainID := ChainID f, NetworkName := NetworkName f, NetworkNameFull := NetworkNameFull f,
            Chain_cfg := setFromChain (Chain_cfg c) (Chain_cfg f), Nodes := ns\<rparr>))"

section \<open>Status\<close>

record NodeStatus =
  ns_ChainID :: string
  ns_Name :: string
  ns_Config :: string

definition NodeStatus_of :: "(Node \<Rightarrow> string res) \<Rightarrow> Node \<Rightarrow> string \<Rightarrow> NodeStatus res" where
  "NodeStatus_of Marshal n cid = (case Node_Name n of
       None \<Rightarrow> Inl (Panic ''nil pointer dereference'')
     | Some nm \<Rightarrow> bindE (Marshal n) (\<lambda>b. Inr \<lparr>ns_ChainID = cid, ns_Name = nm, ns_Config = b\<rparr>))"

section \<open>Correctness of merging\<close>

text \<open>The nodes as values: what \<open>SetFrom\<close> does where no pointer is shared.\<close>

definition merge_node :: "Node \<Rightarrow> Node \<Rightarrow> Node" where
  "merge_node n f = (case Node_URL f of None \<Rightarrow> n | Some u \<Rightarrow> n\<lparr>Node_URL := Some u\<rparr>)"

fun merge_nodes :: "Node list \<Rightarrow> Node list \<Rightarrow> Node list" where
  "merge_nodes ns [] = ns"
| "merge_nodes ns (f # fs) = (case Node_Name f of
       None \<Rightarrow> merge_nodes (ns @ [f]) fs
     | Some nm \<Rightarrow> (case IndexFunc (\<lambda>n. Node_Name n = Some nm) ns of
           None \<Rightarrow> merge_nodes (ns @ [f]) fs
         | Some i \<Rightarrow> merge_nodes (ns[i := merge_node (ns ! i) f]) fs))"

lemma IndexFunc_map: "IndexFunc P (map f xs) = IndexFunc (\<lambda>x. P (f x)) xs"
  by (induction xs) auto

lemma IndexFunc_Some: "IndexFunc P xs = Some i \<Longrightarrow> i < length xs \<and> P (xs ! i)"
  by (induction xs arbitrary: i) (auto split: if_splits)

lemma IndexFunc_None: "IndexFunc P xs = None \<longleftrightarrow> (\<forall>x \<in> set xs. \<not> P x)"
  by (induction xs) auto

lemma setFromNode_value:
  assumes "n \<noteq> f" "Node_Name (h f) = Some nm" "Node_Name (h n) = Some nm"
  shows "setFromNode h n f = h(n := merge_node (h n) (h f))"
proof -
  have "(h n)\<lparr>Node_Name := Some nm\<rparr> = h n" using assms(3) by simp
  with assms show ?thesis by (auto simp: setFromNode_def merge_node_def split: option.splits)
qed

lemma SetFrom_refines:
  assumes "distinct (ns @ fs)" "Nodes_SetFrom h ns fs = (h', ns')"
  shows "map h' ns' = merge_nodes (map h ns) (map h fs)"
  using assms
proof (induction h ns fs arbitrary: h' ns' rule: Nodes_SetFrom.induct)
  case (1 h ns)
  then show ?case by simp
next
  case (2 h ns f fs)
  show ?case
  proof (cases "Node_Name (h f)")
    case None
    with 2 show ?thesis by simp
  next
    case (Some nm)
    show ?thesis
    proof (cases "IndexFunc (\<lambda>n. Node_Name (h n) = Some nm) ns")
      case None
      with 2 Some show ?thesis by (simp add: IndexFunc_map)
    next
      case (Some i)
      let ?n = "ns ! i"
      from IndexFunc_Some [OF Some] have i: "i < length ns" "Node_Name (h ?n) = Some nm" by auto
      have "?n \<in> set ns" using i(1) by (rule nth_mem)
      with 2(4) have "?n \<noteq> f" "?n \<notin> set fs" by auto
      with \<open>Node_Name (h f) = Some nm\<close> i(2) have set: "setFromNode h ?n f = h(?n := merge_node (h ?n) (h f))"
        by (intro setFromNode_value)
      have "map (h(?n := v)) fs = map h fs" for v using \<open>?n \<notin> set fs\<close> by auto
      moreover have "map (h(?n := v)) ns = (map h ns)[i := v]" for v
        using 2(4) i(1) by (auto intro!: nth_equalityI simp: nth_list_update nth_eq_iff_index_eq)
      ultimately have "map (setFromNode h ?n f) fs = map h fs" "map (setFromNode h ?n f) ns = (map h ns)[i := merge_node (h ?n) (h f)]"
        unfolding set by blast+
      moreover have "Nodes_SetFrom (setFromNode h ?n f) ns fs = (h', ns')" using 2(5) Some \<open>Node_Name (h f) = Some nm\<close> by simp
      from 2(3) [OF \<open>Node_Name (h f) = Some nm\<close> Some _ this] 2(4)
      have "map h' ns' = merge_nodes (map (setFromNode h ?n f) ns) (map (setFromNode h ?n f) fs)" by simp
      ultimately have "map h' ns' = merge_nodes ((map h ns)[i := merge_node (h ?n) (h f)]) (map h fs)" by (simp only:)
      then show ?thesis using Some \<open>Node_Name (h f) = Some nm\<close> i(1) by (simp add: IndexFunc_map)
    qed
  qed
qed

text \<open>The URL registered under a name (the first node of that name counts), and those a list of nodes assigns to it.\<close>

definition node_url :: "Node list \<Rightarrow> string \<Rightarrow> string option option" where
  "node_url ns nm = map_option Node_URL (find (\<lambda>n. Node_Name n = Some nm) ns)"

definition named_urls :: "Node list \<Rightarrow> string \<Rightarrow> string list" where
  "named_urls fs nm = concat (map (\<lambda>f. if Node_Name f = Some nm then (case Node_URL f of None \<Rightarrow> [] | Some u \<Rightarrow> [u]) else []) fs)"

definition overridden :: "Node list \<Rightarrow> string \<Rightarrow> string option option \<Rightarrow> string option option" where
  "overridden fs nm x = (if named_urls fs nm \<noteq> [] then Some (Some (last (named_urls fs nm)))
     else if x = None \<and> (\<exists>f \<in> set fs. Node_Name f = Some nm) then Some None else x)"

lemma find_snoc: "find P (xs @ [x]) = (case find P xs of None \<Rightarrow> if P x then Some x else None | Some y \<Rightarrow> Some y)"
  by (induction xs) auto

lemma find_IndexFunc: "find P xs = map_option ((!) xs) (IndexFunc P xs)"
  by (induction xs) (auto simp: option.map_comp comp_def)

lemma IndexFunc_update: "P (xs ! i) = P y \<Longrightarrow> IndexFunc P (xs[i := y]) = IndexFunc P xs"
  by (induction xs arbitrary: i) (auto split: nat.splits)

lemma node_url_append:
  "node_url (ns @ [f]) nm = (case node_url ns nm of None \<Rightarrow> if Node_Name f = Some nm then Some (Node_URL f) else None | Some u \<Rightarrow> Some u)"
  by (auto simp: node_url_def find_snoc split: option.splits)

lemma node_url_update:
  assumes "IndexFunc (\<lambda>n. Node_Name n = Some fn) ns = Some i" "Node_Name f = Some fn"
  shows "node_url (ns[i := merge_node (ns ! i) f]) nm =
    (if nm = fn then Some (case Node_URL f of None \<Rightarrow> Node_URL (ns ! i) | Some u \<Rightarrow> Some u) else node_url ns nm)"
proof -
  from IndexFunc_Some [OF assms(1)] have i: "i < length ns" "Node_Name (ns ! i) = Some fn" by auto
  have name: "Node_Name (merge_node (ns ! i) f) = Node_Name (ns ! i)" by (simp add: merge_node_def split: option.splits)
  then have idx: "IndexFunc (\<lambda>n. Node_Name n = Some nm) (ns[i := merge_node (ns ! i) f]) = IndexFunc (\<lambda>n. Node_Name n = Some nm) ns"
    by (intro IndexFunc_update) simp
  show ?thesis
  proof (cases "nm = fn")
    case True
    with idx assms(1) i(1) show ?thesis by (simp add: node_url_def find_IndexFunc merge_node_def split: option.splits)
  next
    case False
    have "j \<noteq> i" if "IndexFunc (\<lambda>n. Node_Name n = Some nm) ns = Some j" for j
      using IndexFunc_Some [OF that] i(2) False by auto
    with idx False show ?thesis by (cases "IndexFunc (\<lambda>n. Node_Name n = Some nm) ns") (auto simp: node_url_def find_IndexFunc)
  qed
qed

lemma overridden_Cons: "overridden (f # fs) nm x = overridden fs nm (overridden [f] nm x)"
proof -
  have split: "named_urls (f # fs) nm = named_urls [f] nm @ named_urls fs nm" by (simp add: named_urls_def)
  show ?thesis
  proof (cases "named_urls fs nm = []")
    case True
    then show ?thesis unfolding overridden_def split by (cases "named_urls [f] nm = []") simp_all
  next
    case False
    then show ?thesis unfolding overridden_def split by simp
  qed
qed

lemma node_url_merge: "node_url (merge_nodes ns fs) nm = overridden fs nm (node_url ns nm)"
proof (induction ns fs rule: merge_nodes.induct)
  case (1 ns)
  then show ?case by (simp add: overridden_def named_urls_def)
next
  case (2 ns f fs)
  show ?case
  proof (cases "Node_Name f")
    case None
    then have "overridden [f] nm (node_url ns nm) = node_url (ns @ [f]) nm"
      by (simp add: overridden_def named_urls_def node_url_append split: option.splits)
    with 2(1) [OF None] None show ?thesis by (simp add: overridden_Cons [of f fs])
  next
    case (Some fn)
    show ?thesis
    proof (cases "IndexFunc (\<lambda>n. Node_Name n = Some fn) ns")
      case None
      then have "node_url ns fn = None" by (simp add: node_url_def find_IndexFunc)
      with Some have "overridden [f] nm (node_url ns nm) = node_url (ns @ [f]) nm"
        by (auto simp: overridden_def named_urls_def node_url_append split: option.splits)
      with 2(2) [OF Some None] Some None show ?thesis by (simp add: overridden_Cons [of f fs])
    next
      case i: (Some i)
      then have "node_url ns fn = Some (Node_URL (ns ! i))" by (simp add: node_url_def find_IndexFunc)
      with Some have "overridden [f] nm (node_url ns nm) = node_url (ns[i := merge_node (ns ! i) f]) nm"
        by (auto simp: overridden_def named_urls_def node_url_update [OF i Some] split: option.splits)
      with 2(3) [OF Some i] Some i show ?thesis by (simp add: overridden_Cons [of f fs])
    qed
  qed
qed

section \<open>Properties\<close>

text \<open>
  Merging configurations: where the two configurations share no node, every name has afterwards the last
  URL that the second configuration gives for it, and keeps its own if that gives none; a name that is
  only in the second one is added.
\<close>

theorem Nodes_SetFrom_overrides:
  assumes "distinct (ns @ fs)" "Nodes_SetFrom h ns fs = (h', ns')"
  shows "node_url (map h' ns') nm = overridden (map h fs) nm (node_url (map h ns) nm)"
  using SetFrom_refines [OF assms] node_url_merge by simp

theorem Nodes_SetFrom_overrides_witness:
  "node_url (map (fst (Nodes_SetFrom (\<lambda>i. if i = 0 then \<lparr>Node_Name = Some ''a'', Node_URL = Some ''u''\<rparr> else \<lparr>Node_Name = Some ''a'', Node_URL = Some ''v''\<rparr>) [0] [1]))
     (snd (Nodes_SetFrom (\<lambda>i. if i = 0 then \<lparr>Node_Name = Some ''a'', Node_URL = Some ''u''\<rparr> else \<lparr>Node_Name = Some ''a'', Node_URL = Some ''v''\<rparr>) [0] [1]))) ''a''
   = Some (Some ''v'')"
  using Nodes_SetFrom_overrides [of "[0]" "[1]"
      "\<lambda>i. if i = 0 then \<lparr>Node_Name = Some ''a'', Node_URL = Some ''u''\<rparr> else \<lparr>Node_Name = Some ''a'', Node_URL = Some ''v''\<rparr>"
      "fst (Nodes_SetFrom (\<lambda>i. if i = 0 then \<lparr>Node_Name = Some ''a'', Node_URL = Some ''u''\<rparr> else \<lparr>Node_Name = Some ''a'', Node_URL = Some ''v''\<rparr>) [0] [1])"
      "snd (Nodes_SetFrom (\<lambda>i. if i = 0 then \<lparr>Node_Name = Some ''a'', Node_URL = Some ''u''\<rparr> else \<lparr>Node_Name = Some ''a'', Node_URL = Some ''v''\<rparr>) [0] [1])"
      "''a''"]
  by (simp add: overridden_def named_urls_def)

text \<open>A node that passes validation: both fields are there and not empty.\<close>

definition node_ok :: "Node \<Rightarrow> bool" where
  "node_ok n = (\<exists>nm u. Node_Name n = Some nm \<and> nm \<noteq> '''' \<and> Node_URL n = Some u \<and> u \<noteq> '''')"

lemma Node_ValidateConfig_iff: "Node_ValidateConfig n = [] \<longleftrightarrow> node_ok n"
  by (auto simp: Node_ValidateConfig_def node_ok_def split: option.splits if_splits)

lemma TOML_ValidateConfig_iff: "TOML_ValidateConfig h c = [] \<longleftrightarrow> ChainID c \<noteq> '''' \<and> Nodes c \<noteq> [] \<and> (\<forall>p \<in> set (Nodes c). node_ok (h p))"
  by (auto simp: TOML_ValidateConfig_def Node_ValidateConfig_iff)

text \<open>
  A configuration that \<open>NewDecodedTOMLConfig\<close> returns is complete: the chain has an id and is enabled, it has a
  node, every node has a name and a URL, the transaction manager is configured and the full network name is
  set. Whatever the file gave for these is kept.
\<close>

theorem NewDecodedTOMLConfig_complete:
  assumes "NewDecodedTOMLConfig decode raw = Inr (h, cfg)"
  shows "ChainID cfg \<noteq> '''' \<and> IsEnabled cfg \<and> Nodes cfg \<noteq> [] \<and> (\<forall>p \<in> set (Nodes cfg). node_ok (h p)) \<and>
    TransactionManager (Chain_cfg cfg) \<noteq> None \<and> NetworkNameFull cfg \<noteq> '''' \<and>
    (\<exists>cfg0. decode raw = Inr (h, cfg0) \<and> ChainID cfg = ChainID cfg0 \<and> Nodes cfg = Nodes cfg0 \<and>
      ClientTTL (Chain_cfg cfg) = ClientTTL (Chain_cfg cfg0) \<and>
      (TransactionManager (Chain_cfg cfg0) \<noteq> None \<longrightarrow> TransactionManager (Chain_cfg cfg) = TransactionManager (Chain_cfg cfg0)))"
proof -
  from assms obtain cfg0 where d: "decode raw = Inr (h, cfg0)" "TOML_ValidateConfig h cfg0 = []" "IsEnabled cfg0" "cfg = SetDefaults cfg0"
    by (auto simp: NewDecodedTOMLConfig_def split: sum.splits prod.splits if_splits)
  then show ?thesis
    unfolding TOML_ValidateConfig_iff
    by (auto simp: SetDefaults_def Let_def DefaultChainConfig_def ChainFamilyName_def IsEnabled_def split: option.splits)
qed

theorem NewDecodedTOMLConfig_complete_witness:
  "\<exists>h cfg. NewDecodedTOMLConfig (\<lambda>raw. Inr (\<lambda>p. \<lparr>Node_Name = Some ''n'', Node_URL = Some ''u''\<rparr>,
      \<lparr>Enabled = None, ChainID = ''-217'', NetworkName = ''x'', NetworkNameFull = [], Chain_cfg = \<lparr>TransactionManager = None, ClientTTL = 0\<rparr>, Nodes = [0]\<rparr>)) ''raw''
     = Inr (h, cfg) \<and> NetworkNameFull cfg \<noteq> '''' \<and> ClientTTL (Chain_cfg cfg) = 0"
proof -
  let ?d = "\<lambda>raw. Inr (\<lambda>p. \<lparr>Node_Name = Some ''n'', Node_URL = Some ''u''\<rparr>,
      \<lparr>Enabled = None, ChainID = ''-217'', NetworkName = ''x'', NetworkNameFull = [], Chain_cfg = \<lparr>TransactionManager = None, ClientTTL = 0\<rparr>, Nodes = [0]\<rparr>)"
  obtain h cfg where "NewDecodedTOMLConfig ?d ''raw'' = Inr (h, cfg)"
    by (auto simp: NewDecodedTOMLConfig_def TOML_ValidateConfig_iff node_ok_def IsEnabled_def)
  with NewDecodedTOMLConfig_complete [OF this] show ?thesis by auto
qed

end
