(* ===== verification/Relay_Chain.thy ===== *)
theory Relay_Chain
  imports Relay_Config
begin

text \<open>
  The chain of the relayer (\<open>pkg/relay/chain.go\<close>): the selection and caching of clients, the signer
  wallet, the constructor and the queries. The lite client, the keystore and the wallet library are
  arguments, and so are the random permutation of the nodes and the readings of the clock (nanoseconds), one
  per visited node for the age of a cached client and one for a new entry. A call of the lite client returns a
  value or an error. The cache is \<open>None\<close> when the map is nil.
\<close>

section \<open>Data\<close>

record 'u cachedClient =
  cl_client :: 'u
  cl_timestamp :: int

record 'u chain =
  ch_id :: string
  ch_cfg :: TOMLConfig
  ch_heap :: node_heap
  ch_clientCache :: "(nat, 'u cachedClient) gomap option"

record Block =
  GlobalID :: i32
  GenUtime :: u32

record 'blk BlockID =
  b_RootHash :: bytes
  b_SeqNo :: u32
  b_rest :: 'blk

record ('g, 'u, 'blk) LiteEnv =
  GetConfigFromUrl :: "string \<Rightarrow> 'g res"
  Connect :: "'g \<Rightarrow> 'u res"
  CurrentMasterchainInfo :: "'u \<Rightarrow> 'blk BlockID res"
  GetMasterchainInfo :: "'u \<Rightarrow> 'blk BlockID res"
  GetBlockData :: "'u \<Rightarrow> 'blk BlockID \<Rightarrow> Block res"

text \<open>The permutation of the node indices and the two clocks.\<close>

record Chance =
  Perm :: "nat list"
  now_check :: "nat \<Rightarrow> int"
  now_store :: "nat \<Rightarrow> int"

section \<open>Clients\<close>

definition cached :: "'u chain \<Rightarrow> nat \<Rightarrow> 'u cachedClient option" where
  "cached c i = (case ch_clientCache c of None \<Rightarrow> None | Some m \<Rightarrow> map_of m i)"

text \<open>\<open>delete\<close> on a nil map does nothing.\<close>

definition evictClient :: "nat \<Rightarrow> 'u chain \<Rightarrow> 'u chain" where
  "evictClient index c = c\<lparr>ch_clientCache := map_option (gdel index) (ch_clientCache c)\<rparr>"

definition cache_put :: "nat \<Rightarrow> 'u cachedClient \<Rightarrow> 'u chain \<Rightarrow> 'u chain res" where
  "cache_put i e c = (case ch_clientCache c of
       None \<Rightarrow> Inl (Panic ''assignment to entry in nil map'')
     | Some m \<Rightarrow> Inr (c\<lparr>ch_clientCache := Some (gput i e m)\<rparr>))"

text \<open>
  One iteration of the loop over the nodes: a client to return, the next node (with the new value of
  \<open>lastErr\<close>, if it is assigned), or a panic.
\<close>

datatype 'u attempt = Use "'u chain" 'u | Skip "'u chain" "gerr option" | Abort "'u chain" gerr

definition new_client :: "('g, 'u, 'blk) LiteEnv \<Rightarrow> Chance \<Rightarrow> nat \<Rightarrow> 'u chain \<Rightarrow> 'u attempt" where
  "new_client L r i c =
     (let node = ch_heap c (Nodes (ch_cfg c) ! i);
          evict = (\<lambda>e. case Node_Name node of None \<Rightarrow> Abort c (Panic ''nil pointer dereference'') | Some nm \<Rightarrow> Skip (evictClient i c) (Some e))
      in case Node_URL node of
           None \<Rightarrow> Abort c (Panic ''nil pointer dereference'')
         | Some configURL \<Rightarrow> (case GetConfigFromUrl L configURL of
               Inl e \<Rightarrow> Skip c None
             | Inr tonCfg \<Rightarrow> (case Connect L tonCfg of
                   Inl e \<Rightarrow> Skip c (Some e)
                 | Inr client \<Rightarrow> (case CurrentMasterchainInfo L client of
                       Inl e \<Rightarrow> evict e
                     | Inr blockID \<Rightarrow> (case GetBlockData L client blockID of
                           Inl e \<Rightarrow> evict e
                         | Inr block \<Rightarrow>
                             if show_int (sint (GlobalID block)) \<noteq> ch_id c then Skip c None
                             else (case cache_put i \<lparr>cl_client = client, cl_timestamp = now_store r i\<rparr> c of
                                     Inl e \<Rightarrow> Abort c e | Inr c' \<Rightarrow> Use c' client))))))"

definition try_node :: "('g, 'u, 'blk) LiteEnv \<Rightarrow> Chance \<Rightarrow> nat \<Rightarrow> 'u chain \<Rightarrow> 'u attempt" where
  "try_node L r i c = (case cached c i of
       None \<Rightarrow> new_client L r i c
     | Some entry \<Rightarrow> if now_check r i - cl_timestamp entry < ClientTTL (Chain_cfg (ch_cfg c)) then Use c (cl_client entry)
         else new_client L r i (evictClient i c))"

fun get_client_loop :: "('g, 'u, 'blk) LiteEnv \<Rightarrow> Chance \<Rightarrow> nat list \<Rightarrow> gerr option \<Rightarrow> 'u chain \<Rightarrow> 'u chain \<times> 'u res" where
  "get_client_loop L r [] lastErr c =
     (c, Inl (case lastErr of None \<Rightarrow> Err ''no valid TON nodes available, last error: %!w(<nil>)''
                            | Some e \<Rightarrow> Wrap ''no valid TON nodes available, last error'' e))"
| "get_client_loop L r (i # indexes) lastErr c = (case try_node L r i c of
       Use c' client \<Rightarrow> (c', Inr client)
     | Abort c' e \<Rightarrow> (c', Inl e)
     | Skip c' None \<Rightarrow> get_client_loop L r indexes lastErr c'
     | Skip c' (Some e) \<Rightarrow> get_client_loop L r indexes (Some e) c')"

definition GetClient :: "('g, 'u, 'blk) LiteEnv \<Rightarrow> Chance \<Rightarrow> 'u chain \<Rightarrow> 'u chain \<times> 'u res" where
  "GetClient L r c =
     (if length (Nodes (ch_cfg c)) = 0 then (c, Inl (Err ''no nodes available''))
      else get_client_loop L r (Perm r) None c)"

section \<open>The signer wallet\<close>

definition GetSignerWallet :: "('u \<Rightarrow> bytes \<Rightarrow> 'w res) \<Rightarrow> 'u \<Rightarrow> string list res \<Rightarrow> int \<Rightarrow> 'w res" where
  "GetSignerWallet FromSigner client ks_accounts accountIndex =
     bindE (wrapE ''failed to list accounts'' ks_accounts) (\<lambda>accounts.
     if length accounts = 0 then Inl (Err ''no accounts available in keystore'')
     else if accountIndex < 0 \<or> accountIndex \<ge> int (length accounts)
     then Inl (Err (''account index '' @ show_int accountIndex @ '' out of range, only '' @ show_nat (length accounts) @ '' accounts available''))
     else let account = accounts ! nat accountIndex
     in bindE (wrapE ''invalid account hex string'' (hex_DecodeString account)) (\<lambda>pubKeyBytes.
        if length pubKeyBytes \<noteq> 32 then Inl (Err (''invalid public key size: '' @ show_nat (length pubKeyBytes)))
        else wrapE ''failed to create wallet'' (FromSigner client pubKeyBytes)))"

section \<open>Construction\<close>

text \<open>
  \<open>newChain\<close> returns the chain, its signer wallet and the state of its transaction manager. The cache is not
  among the fields it initialises.
\<close>

definition newChain :: "('g, 'u, 'blk) LiteEnv \<Rightarrow> Chance \<Rightarrow> string list res \<Rightarrow> ('u \<Rightarrow> bytes \<Rightarrow> 'w res) \<Rightarrow> node_heap \<Rightarrow> TOMLConfig \<Rightarrow>
   ('u chain \<times> 'w \<times> ('a, 'c) TxmState) res" where
  "newChain L r ks_accounts FromSigner h cfg =
     bindE (wrapE ''failed to fetch accounts from keystore'' ks_accounts) (\<lambda>accounts.
     if length accounts = 0 then Inl (Err ''no TON account available'')
     else bindE (wrapE (''invalid chain ID '' @ ChainID cfg @ '': could not parse as an integer'') (ParseInt 8 (ChainID cfg))) (\<lambda>_.
     let ch = \<lparr>ch_id = ChainID cfg, ch_cfg = cfg, ch_heap = h, ch_clientCache = None\<rparr>;
         (ch1, tonClient) = GetClient L r ch
     in bindE (wrapE (''failed to create TON client for chain ID '' @ ChainID cfg) tonClient) (\<lambda>client.
        bindE (wrapE (''failed to get signer wallet for chain ID '' @ ChainID cfg) (GetSignerWallet FromSigner client ks_accounts 0)) (\<lambda>w.
        Inr (ch1, w, NewTxm)))))"

definition NewChain :: "('g, 'u, 'blk) LiteEnv \<Rightarrow> Chance \<Rightarrow> string list res \<Rightarrow> ('u \<Rightarrow> bytes \<Rightarrow> 'w res) \<Rightarrow> node_heap \<Rightarrow> TOMLConfig \<Rightarrow>
   ('u chain \<times> 'w \<times> ('a, 'c) TxmState) res" where
  "NewChain L r ks_accounts FromSigner h cfg =
     (if \<not> IsEnabled cfg then Inl (Err (''cannot create new chain with ID '' @ ChainID cfg @ '': chain is disabled''))
      else newChain L r ks_accounts FromSigner h cfg)"

section \<open>Queries\<close>

record Head =
  hd_Hash :: bytes
  hd_Height :: string
  hd_Timestamp :: u64

definition LatestHead :: "('g, 'u, 'blk) LiteEnv \<Rightarrow> Chance \<Rightarrow> 'u chain \<Rightarrow> 'u chain \<times> Head res" where
  "LatestHead L r c = (let (c', got) = GetClient L r c in (c',
     bindE (wrapE ''failed to get client'' got) (\<lambda>client.
     bindE (wrapE ''failed to get masterchain info'' (GetMasterchainInfo L client)) (\<lambda>blockID.
     bindE (wrapE ''failed to get block data'' (GetBlockData L client blockID)) (\<lambda>block.
     Inr \<lparr>hd_Hash = b_RootHash blockID, hd_Height = show_nat (unat (b_SeqNo blockID)), hd_Timestamp = ucast (GenUtime block)\<rparr>)))))"

record ChainInfo =
  ci_FamilyName :: string
  ci_ChainID :: string
  ci_NetworkName :: string
  ci_NetworkNameFull :: string

definition GetChainInfo :: "(i32 \<Rightarrow> string res) \<Rightarrow> 'u chain \<Rightarrow> ChainInfo res" where
  "GetChainInfo TonNameFromChainId c =
     (let cid = ChainID (ch_cfg c)
      in bindE (wrapE (''chainID '' @ cid @ '' must be a valid int32'') (ParseInt 32 cid)) (\<lambda>i.
         bindE (wrapE (''failed to get network name from chain ID: '' @ ch_id c) (TonNameFromChainId (of_int i))) (\<lambda>networkName.
         Inr \<lparr>ci_FamilyName = ''ton'', ci_ChainID = cid, ci_NetworkName = networkName, ci_NetworkNameFull = networkName\<rparr>)))"

record ChainStatus =
  cs_ID :: string
  cs_Enabled :: bool
  cs_Config :: string

definition GetChainStatus :: "(TOMLConfig \<Rightarrow> string res) \<Rightarrow> 'u chain \<Rightarrow> ChainStatus res" where
  "GetChainStatus TOMLString c = bindE (TOMLString (ch_cfg c)) (\<lambda>toml.
     Inr \<lparr>cs_ID = ch_id c, cs_Enabled = IsEnabled (ch_cfg c), cs_Config = toml\<rparr>)"

text \<open>The loop over a page: the statuses so far are returned together with the first error.\<close>

fun node_statuses :: "(Node \<Rightarrow> NodeStatus res) \<Rightarrow> Node list \<Rightarrow> NodeStatus list \<Rightarrow> (NodeStatus list \<times> gerr option) res" where
  "node_statuses f [] stats = Inr (stats, None)"
| "node_statuses f (n # ns) stats = (case f n of
       Inl e \<Rightarrow> if is_panic e then Inl e else Inr (stats, Some e)
     | Inr s \<Rightarrow> node_statuses f ns (stats @ [s]))"

definition ErrOutOfRange :: gerr where
  "ErrOutOfRange = Err ''out of range''"

text \<open>The page \<open>[start, stop)\<close>; a slice with bad bounds panics.\<close>

definition listNodeStatuses :: "(Node \<Rightarrow> string res) \<Rightarrow> int \<Rightarrow> int \<Rightarrow> 'u chain \<Rightarrow> (NodeStatus list \<times> nat \<times> gerr option) res" where
  "listNodeStatuses Marshal start stop c =
     (let total = length (Nodes (ch_cfg c))
      in if start \<ge> int total then Inr ([], total, Some ErrOutOfRange)
         else let stop' = (if stop > int total then int total else stop)
         in if start < 0 \<or> stop' < start then Inl (Panic ''slice bounds out of range'')
            else let nodes = map (ch_heap c) (drop (nat start) (take (nat stop') (Nodes (ch_cfg c))))
            in bindE (node_statuses (\<lambda>n. NodeStatus_of Marshal n (ch_id c)) nodes []) (\<lambda>(stats, err). Inr (stats, total, err)))"

section \<open>Correctness of client selection\<close>

text \<open>A client belongs to one network, whose id the nodes report truthfully: \<open>net\<close> gives it.\<close>

definition truthful :: "('u \<Rightarrow> i32) \<Rightarrow> ('g, 'u, 'blk) LiteEnv \<Rightarrow> bool" where
  "truthful net L = (\<forall>u blk b. CurrentMasterchainInfo L u = Inr blk \<longrightarrow> GetBlockData L u blk = Inr b \<longrightarrow> GlobalID b = net u)"

definition right_net :: "('u \<Rightarrow> i32) \<Rightarrow> 'u chain \<Rightarrow> 'u \<Rightarrow> bool" where
  "right_net net c u = (show_int (sint (net u)) = ch_id c)"

definition cache_ok :: "('u \<Rightarrow> i32) \<Rightarrow> 'u chain \<Rightarrow> bool" where
  "cache_ok net c = (\<forall>i e. cached c i = Some e \<longrightarrow> right_net net c (cl_client e))"

text \<open>What stays as it is: everything but the cache, and whether the cache is nil.\<close>

definition same_chain :: "'u chain \<Rightarrow> 'u chain \<Rightarrow> bool" where
  "same_chain c c' = (ch_id c' = ch_id c \<and> ch_cfg c' = ch_cfg c \<and> ch_heap c' = ch_heap c \<and> (ch_clientCache c' = None \<longleftrightarrow> ch_clientCache c = None))"

lemma same_chain_refl [simp]: "same_chain c c"
  by (simp add: same_chain_def)

lemma same_chain_trans: "same_chain a b \<Longrightarrow> same_chain b c \<Longrightarrow> same_chain a c"
  by (simp add: same_chain_def)

lemma cached_evict [simp]: "cached (evictClient i c) j = (if j = i then None else cached c j)"
  by (simp add: cached_def evictClient_def split: option.splits)

lemma same_evict [simp]: "same_chain c (evictClient i c)"
  by (simp add: same_chain_def evictClient_def)

lemma cache_ok_evict: "cache_ok net c \<Longrightarrow> cache_ok net (evictClient i c)"
  by (auto simp: cache_ok_def right_net_def) (simp add: evictClient_def)

lemma cache_putD:
  assumes "cache_put i e c = Inr c'"
  shows "same_chain c c' \<and> cached c' j = (if j = i then Some e else cached c j)"
  using assms by (auto simp: cache_put_def same_chain_def cached_def split: option.splits)

fun attempt_chain :: "'u attempt \<Rightarrow> 'u chain" where
  "attempt_chain (Use c u) = c"
| "attempt_chain (Skip c e) = c"
| "attempt_chain (Abort c e) = c"

lemma new_client_ok:
  assumes "truthful net L" "cache_ok net c"
  shows "same_chain c (attempt_chain (new_client L r i c)) \<and> cache_ok net (attempt_chain (new_client L r i c)) \<and>
    (\<forall>c' u. new_client L r i c = Use c' u \<longrightarrow> right_net net c u)"
proof -
  have put: "same_chain c c' \<and> cache_ok net c'" if "cache_put i e c = Inr c'" "right_net net c (cl_client e)" for e c'
    using cache_putD [OF that(1)] assms(2) that(2) by (auto simp: cache_ok_def right_net_def same_chain_def split: if_splits)
  show ?thesis
    using assms cache_ok_evict [OF assms(2)] put
    by (auto simp: new_client_def Let_def truthful_def right_net_def split: option.splits sum.splits)
qed

lemma try_node_ok:
  assumes "truthful net L" "cache_ok net c"
  shows "same_chain c (attempt_chain (try_node L r i c)) \<and> cache_ok net (attempt_chain (try_node L r i c)) \<and>
    (\<forall>c' u. try_node L r i c = Use c' u \<longrightarrow> right_net net c u)"
proof -
  have id: "ch_id (evictClient i c) = ch_id c" by (simp add: evictClient_def)
  show ?thesis
    using new_client_ok [OF assms, of r i] new_client_ok [OF assms(1) cache_ok_evict [OF assms(2)], of i r i] assms(2) id
    by (auto simp: try_node_def right_net_def cache_ok_def intro: same_chain_trans [OF same_evict] split: option.splits if_splits)
qed

lemma get_client_loop_ok:
  assumes "truthful net L" "cache_ok net c" "get_client_loop L r is lastErr c = (c', res)"
  shows "same_chain c c' \<and> cache_ok net c' \<and> (\<forall>u. res = Inr u \<longrightarrow> right_net net c u)"
  using assms(2,3)
proof (induction "is" arbitrary: lastErr c)
  case Nil
  then show ?case by auto
next
  case (Cons i "is")
  note t = try_node_ok [OF assms(1) Cons.prems(1), of r i]
  have rn: "right_net net c1 u = right_net net c u" if "same_chain c c1" for c1 u using that by (simp add: right_net_def same_chain_def)
  show ?case
  proof (cases "try_node L r i c")
    case (Use c1 u)
    with Cons.prems(2) t show ?thesis by auto
  next
    case (Abort c1 e)
    with Cons.prems(2) t show ?thesis by auto
  next
    case (Skip c1 e)
    with t have c1: "same_chain c c1" "cache_ok net c1" by auto
    obtain le where "get_client_loop L r is le c1 = (c', res)" using Skip Cons.prems(2) by (cases e) auto
    from Cons.IH [OF c1(2) this] c1(1) rn [OF c1(1)] show ?thesis by (auto intro: same_chain_trans)
  qed
qed

text \<open>A node with which a new client can be made: it is reachable and belongs to the configured network.\<close>

definition healthy :: "('g, 'u, 'blk) LiteEnv \<Rightarrow> 'u chain \<Rightarrow> nat \<Rightarrow> bool" where
  "healthy L c i = (\<exists>url g u blk b. Node_URL (ch_heap c (Nodes (ch_cfg c) ! i)) = Some url \<and> GetConfigFromUrl L url = Inr g \<and> Connect L g = Inr u \<and>
     CurrentMasterchainInfo L u = Inr blk \<and> GetBlockData L u blk = Inr b \<and> show_int (sint (GlobalID b)) = ch_id c)"

lemma healthy_same: "same_chain c c' \<Longrightarrow> healthy L c' i = healthy L c i"
  by (simp add: healthy_def same_chain_def)

lemma cached_nil: "ch_clientCache c = None \<Longrightarrow> cached c i = None"
  by (simp add: cached_def)

text \<open>What an attempt does with a valid node, by the state of the cache.\<close>

lemma new_client_cases:
  assumes "node_ok (ch_heap c (Nodes (ch_cfg c) ! i))"
  shows "if healthy L c i
    then (case ch_clientCache c of None \<Rightarrow> \<exists>e. new_client L r i c = Abort c e \<and> is_panic e | Some m \<Rightarrow> \<exists>c' u. new_client L r i c = Use c' u)
    else \<exists>c' e. new_client L r i c = Skip c' e \<and> same_chain c c'"
  using assms by (auto simp: new_client_def healthy_def node_ok_def cache_put_def Let_def split: option.splits sum.splits)

lemma get_client_loop_finds:
  assumes "\<forall>i \<in> set is. node_ok (ch_heap c (Nodes (ch_cfg c) ! i))" "ch_clientCache c \<noteq> None" "\<exists>i \<in> set is. healthy L c i"
  shows "\<exists>c' u. get_client_loop L r is lastErr c = (c', Inr u)"
  using assms
proof (induction "is" arbitrary: lastErr c)
  case (Cons i "is")
  show ?case
  proof (cases "\<exists>c' u. try_node L r i c = Use c' u")
    case True
    then show ?thesis by auto
  next
    case False
    let ?c = "if cached c i = None then c else evictClient i c"
    have same: "same_chain c ?c" by simp
    have try_new: "try_node L r i c = new_client L r i ?c" using False by (auto simp: try_node_def split: option.splits if_splits)
    have ok: "node_ok (ch_heap ?c (Nodes (ch_cfg ?c) ! i))" using Cons.prems(1) same by (simp add: same_chain_def)
    have "ch_clientCache ?c \<noteq> None" using Cons.prems(2) same by (simp add: same_chain_def)
    with new_client_cases [OF ok, of L r] False try_new have unhealthy: "\<not> healthy L ?c i" by (auto split: if_splits)
    with new_client_cases [OF ok, of L r] try_new obtain c' e where skip: "try_node L r i c = Skip c' e" "same_chain ?c c'" by auto
    with same have same': "same_chain c c'" by (meson same_chain_trans)
    have "\<exists>j \<in> set is. healthy L c' j" using Cons.prems(3) unhealthy healthy_same [OF same, of L] healthy_same [OF same', of L] by auto
    moreover have "\<forall>j \<in> set is. node_ok (ch_heap c' (Nodes (ch_cfg c') ! j))" using Cons.prems(1) same' by (simp add: same_chain_def)
    moreover have "ch_clientCache c' \<noteq> None" using Cons.prems(2) same' by (simp add: same_chain_def)
    ultimately have "\<exists>c'' u. get_client_loop L r is le c' = (c'', Inr u)" for le by (intro Cons.IH)
    with skip(1) show ?thesis by (cases e) auto
  qed
qed simp

lemma new_client_nil: "ch_clientCache c = None \<Longrightarrow> new_client L r i c \<noteq> Use c' u"
  by (auto simp: new_client_def cache_put_def Let_def split: option.splits sum.splits)

lemma new_client_nil_same: "ch_clientCache c = None \<Longrightarrow> ch_clientCache (attempt_chain (new_client L r i c)) = None"
  by (auto simp: new_client_def cache_put_def evictClient_def Let_def split: option.splits sum.splits)

lemma get_client_loop_nil: "ch_clientCache c = None \<Longrightarrow> get_client_loop L r is lastErr c \<noteq> (c', Inr u)"
proof (induction "is" arbitrary: lastErr c)
  case (Cons i "is")
  have new: "try_node L r i c = new_client L r i c" using Cons.prems by (simp add: try_node_def cached_nil)
  show ?case
  proof (cases "try_node L r i c")
    case (Skip c1 e)
    then have "ch_clientCache c1 = None" using new_client_nil_same [OF Cons.prems, of L r i] new by simp
    from Cons.IH [OF this] Skip show ?thesis by (cases e) auto
  qed (use new new_client_nil [OF Cons.prems, of L r i] in auto)
qed simp

lemma get_client_loop_panics:
  assumes "\<forall>i \<in> set is. node_ok (ch_heap c (Nodes (ch_cfg c) ! i))" "ch_clientCache c = None" "\<exists>i \<in> set is. healthy L c i"
  shows "\<exists>c' e. get_client_loop L r is lastErr c = (c', Inl e) \<and> is_panic e"
  using assms
proof (induction "is" arbitrary: lastErr c)
  case (Cons i "is")
  have new: "try_node L r i c = new_client L r i c" using Cons.prems(2) by (simp add: try_node_def cached_nil)
  have ok: "node_ok (ch_heap c (Nodes (ch_cfg c) ! i))" using Cons.prems(1) by simp
  show ?case
  proof (cases "healthy L c i")
    case True
    with new_client_cases [OF ok, of L r] Cons.prems(2) new show ?thesis by auto
  next
    case False
    with new_client_cases [OF ok, of L r] new obtain c' e where skip: "try_node L r i c = Skip c' e" "same_chain c c'" by auto
    have "\<exists>j \<in> set is. healthy L c' j" using Cons.prems(3) False healthy_same [OF skip(2), of L] by auto
    moreover have "\<forall>j \<in> set is. node_ok (ch_heap c' (Nodes (ch_cfg c') ! j))" "ch_clientCache c' = None"
      using Cons.prems(1,2) skip(2) by (simp_all add: same_chain_def)
    ultimately have "\<exists>c'' e. get_client_loop L r is le c' = (c'', Inl e) \<and> is_panic e" for le by (intro Cons.IH)
    with skip(1) show ?thesis by (cases e) auto
  qed
qed simp

section \<open>Properties\<close>

text \<open>
  C13: Clients are of the right network: while nodes report their network truthfully, a cache that
  holds only clients of the configured network stays so, and a client that \<open>GetClient\<close> returns, cached or new, is
  of that network.
\<close>

theorem GetClient_right_network:
  assumes "truthful net L" "cache_ok net c" "GetClient L r c = (c', res)"
  shows "cache_ok net c' \<and> ch_cfg c' = ch_cfg c \<and> (\<forall>u. res = Inr u \<longrightarrow> show_int (sint (net u)) = ch_id c)"
  using get_client_loop_ok [OF assms(1,2), of r "Perm r" None c' res] assms(2,3)
  by (auto simp: GetClient_def right_net_def same_chain_def split: if_splits)

text \<open>A sample: two nodes, of which the second is of another network.\<close>

definition sample_lite :: "(nat, nat, unit) LiteEnv" where
  "sample_lite = \<lparr>GetConfigFromUrl = (\<lambda>u. Inr (length u)), Connect = Inr, CurrentMasterchainInfo = (\<lambda>u. Inr \<lparr>b_RootHash = [], b_SeqNo = 9, b_rest = ()\<rparr>),
     GetMasterchainInfo = (\<lambda>u. Inr \<lparr>b_RootHash = [], b_SeqNo = 9, b_rest = ()\<rparr>),
     GetBlockData = (\<lambda>u b. Inr \<lparr>GlobalID = (if u = 1 then 3 else 4), GenUtime = 0\<rparr>)\<rparr>"

definition sample_cfg :: TOMLConfig where
  "sample_cfg = \<lparr>Enabled = None, ChainID = ''3'', NetworkName = [], NetworkNameFull = [],
     Chain_cfg = \<lparr>TransactionManager = None, ClientTTL = 10\<rparr>, Nodes = [0, 1]\<rparr>"

definition sample_heap :: node_heap where
  "sample_heap p = \<lparr>Node_Name = Some ''n'', Node_URL = Some (if p = 0 then ''u'' else ''uu'')\<rparr>"

definition relay_sample :: "nat chain" where
  "relay_sample = \<lparr>ch_id = ''3'', ch_cfg = sample_cfg, ch_heap = sample_heap, ch_clientCache = Some []\<rparr>"

definition sample_chance :: Chance where
  "sample_chance = \<lparr>Perm = [1, 0], now_check = (\<lambda>i. 100), now_store = (\<lambda>i. 101)\<rparr>"

lemma sample_shows: "show_int 3 = ''3''" "show_int 4 = ''4''"
  by code_simp+

lemma sample_get: "GetClient sample_lite sample_chance relay_sample =
    (relay_sample\<lparr>ch_clientCache := Some [(0, \<lparr>cl_client = 1, cl_timestamp = 101\<rparr>)]\<rparr>, Inr 1)"
  by (simp add: GetClient_def sample_chance_def relay_sample_def sample_cfg_def sample_heap_def sample_lite_def try_node_def new_client_def
      cached_def cache_put_def sample_shows)

lemma sample_truthful: "truthful (\<lambda>u. if u = 1 then 3 else 4) sample_lite"
  by (auto simp: truthful_def sample_lite_def)

theorem GetClient_right_network_witness:
  "\<exists>c' u. GetClient sample_lite sample_chance relay_sample = (c', Inr u) \<and> cache_ok (\<lambda>u. if u = 1 then 3 else 4) c' \<and>
    show_int (sint (if u = 1 then 3 else 4 :: i32)) = ''3''"
proof -
  have "cache_ok (\<lambda>u. if u = 1 then 3 else 4) relay_sample" by (simp add: cache_ok_def cached_def relay_sample_def)
  from GetClient_right_network [OF sample_truthful this sample_get] show ?thesis
    unfolding sample_get by (simp add: relay_sample_def)
qed

text \<open>
  C14: Clients are found: when the cache map exists, every node passed validation and some node can be
  reached and is of the configured network, \<open>GetClient\<close> returns a client, in whatever order it visits the nodes. This is the
  contract of the method: the constructors in the repository leave the cache map nil.
\<close>

theorem GetClient_finds:
  assumes "ch_clientCache c \<noteq> None" "\<forall>p \<in> set (Nodes (ch_cfg c)). node_ok (ch_heap c p)"
    and "mset (Perm r) = mset [0..<length (Nodes (ch_cfg c))]" "i < length (Nodes (ch_cfg c))" "healthy L c i"
  shows "\<exists>c' u. GetClient L r c = (c', Inr u)"
proof -
  have "set (Perm r) = {0..<length (Nodes (ch_cfg c))}" using assms(3) by (metis set_mset_mset set_upt)
  then have "\<exists>c' u. get_client_loop L r (Perm r) None c = (c', Inr u)"
    using assms(1,2,4,5) by (intro get_client_loop_finds) auto
  with assms(4) show ?thesis by (auto simp: GetClient_def)
qed

theorem GetClient_finds_witness: "\<exists>c' u. GetClient sample_lite sample_chance relay_sample = (c', Inr u)"
proof (rule GetClient_finds [where i = 0])
  show "healthy sample_lite relay_sample 0"
    by (simp add: healthy_def relay_sample_def sample_cfg_def sample_heap_def sample_lite_def sample_shows)
qed (auto simp: relay_sample_def sample_chance_def sample_cfg_def sample_heap_def node_ok_def)

text \<open>
  A flaw: no chain is ever constructed. \<open>newChain\<close> leaves the client cache nil, so that
  \<open>GetClient\<close> panics as soon as a node answers for the configured network, and fails if none does.
\<close>

theorem NewChain_never_returns:
  "\<exists>e. (NewChain L r ks FromSigner h cfg :: ('u chain \<times> 'w \<times> ('a, 'c) TxmState) res) = Inl e"
proof -
  let ?ch = "\<lparr>ch_id = ChainID cfg, ch_cfg = cfg, ch_heap = h, ch_clientCache = None\<rparr>"
  have "\<exists>c e. GetClient L r ?ch = (c, Inl e)"
  proof (cases "GetClient L r ?ch")
    case (Pair c res)
    then show ?thesis using get_client_loop_nil [of ?ch L r "Perm r" None c] by (cases res) (auto simp: GetClient_def split: if_splits)
  qed
  then have none: "newChain L r ks FromSigner h cfg \<noteq> Inr x" for x :: "'u chain \<times> 'w \<times> ('a, 'c) TxmState" by (auto simp: newChain_def)
  show ?thesis
  proof (cases "newChain L r ks FromSigner h cfg :: ('u chain \<times> 'w \<times> ('a, 'c) TxmState) res")
    case (Inl e)
    then show ?thesis by (auto simp: NewChain_def)
  next
    case (Inr x)
    with none show ?thesis by blast
  qed
qed

text \<open>
  The constructor accepts only chain ids of eight bits, while the queries accept thirty-two: the id of the
  main network is refused by one and accepted by the other.
\<close>

lemma mainnet_refused:
  assumes "ks = Inr accounts" "accounts \<noteq> []" "IsEnabled cfg" "ChainID cfg = show_int (- 239)"
  shows "\<exists>s e. NewChain L r ks FromSigner h cfg = Inl (Wrap s (Err e))" "ParseInt 32 (ChainID cfg) = Inr (- 239)"
proof -
  have "ParseInt 8 (show_int (- 239)) = Inl (Err ''value out of range'')"
    using digits_value_show [of 239] by (simp add: ParseInt_def show_int_def)
  with assms show "\<exists>s e. NewChain L r ks FromSigner h cfg = Inl (Wrap s (Err e))" by (auto simp: NewChain_def newChain_def)
  show "ParseInt 32 (ChainID cfg) = Inr (- 239)" unfolding assms(4) by (rule ParseInt_show) simp_all
qed

text \<open>
  A page of node statuses: for bounds \<open>0 \<le> start \<le> stop\<close>, a page that begins behind the last node is out of range;
  any other lists, in order, the nodes from \<open>start\<close> to \<open>stop\<close> or to the last one, with the total number of
  nodes. Consecutive pages together list every node once.
\<close>

theorem listNodeStatuses_page:
  assumes "\<forall>p \<in> set (Nodes (ch_cfg c)). node_ok (ch_heap c p)" "\<forall>n. okE (Marshal n)" "0 \<le> start" "start \<le> stop"
  shows "listNodeStatuses Marshal start stop c = (let total = length (Nodes (ch_cfg c))
    in if int total \<le> start then Inr ([], total, Some ErrOutOfRange)
       else Inr (map (\<lambda>p. \<lparr>ns_ChainID = ch_id c, ns_Name = the (Node_Name (ch_heap c p)), ns_Config = projr (Marshal (ch_heap c p))\<rparr>)
         (drop (nat start) (take (nat stop) (Nodes (ch_cfg c)))), total, None))"
proof -
  define row where "row n = \<lparr>ns_ChainID = ch_id c, ns_Name = the (Node_Name n), ns_Config = projr (Marshal n)\<rparr>" for n
  have row: "NodeStatus_of Marshal n (ch_id c) = Inr (row n)" if "node_ok n" for n
    using that assms(2) by (auto simp: NodeStatus_of_def node_ok_def okE_iff row_def) (metis sum.sel(2))
  have loop: "node_statuses (\<lambda>n. NodeStatus_of Marshal n (ch_id c)) ns stats = Inr (stats @ map row ns, None)" if "\<forall>n \<in> set ns. node_ok n" for ns stats
    using that by (induction ns arbitrary: stats) (auto simp: row)
  have "node_ok n" if "n \<in> set (map (ch_heap c) (drop a (take b (Nodes (ch_cfg c)))))" for n a b
    using that assms(1) by (auto dest: in_set_dropD in_set_takeD)
  with assms(3,4) loop show ?thesis by (auto simp: listNodeStatuses_def Let_def row_def comp_def)
qed

theorem listNodeStatuses_page_witness:
  "listNodeStatuses (\<lambda>n. Inr ''toml'') 1 5 relay_sample = Inr ([\<lparr>ns_ChainID = ''3'', ns_Name = ''n'', ns_Config = ''toml''\<rparr>], 2, None)"
  using listNodeStatuses_page [of relay_sample "\<lambda>n. Inr ''toml''" 1 5]
  by (simp add: relay_sample_def sample_cfg_def sample_heap_def node_ok_def)

end
