(* ===== verification/Relay_Service.thy ===== *)
theory Relay_Service
  imports Relay_Chain Api_Client
begin

text \<open>
  The clients of the transaction manager: the TON service of the relayer (\<open>pkg/relay/service.go\<close>) and the
  CCIP transmitter (\<open>pkg/ccip/ocr/contract_transmitter.go\<close>). Addresses, the BOC reader, amounts in TON and the lite
  client are arguments. A block id of the lite client carries its workchain and shard in \<open>b_rest\<close>.
\<close>

section \<open>The TON service\<close>

record BlockIDExt =
  bx_Workchain :: i32
  bx_Shard :: u64
  bx_SeqNo :: u32

definition Service_GetMasterchainInfo ::
  "('g, 'u, i32 \<times> u64) LiteEnv \<Rightarrow> Chance \<Rightarrow> 'u chain \<Rightarrow> 'u chain \<times> BlockIDExt res" where
  "Service_GetMasterchainInfo L r c = (let (c', got) = GetClient L r c in (c',
     bindE (wrapE (''failed to create TON client for chain ID '' @ ch_id c) got) (\<lambda>client.
     bindE (wrapE (''failed to call GetMasterchainInfo for chain ID '' @ ch_id c) (GetMasterchainInfo L client)) (\<lambda>b.
     Inr \<lparr>bx_Workchain = fst (b_rest b), bx_Shard = snd (b_rest b), bx_SeqNo = b_SeqNo b\<rparr>))))"

text \<open>The id that is passed on has no hashes.\<close>

definition block_id :: "BlockIDExt \<Rightarrow> (i32 \<times> u64) BlockID" where
  "block_id b = \<lparr>b_RootHash = [], b_SeqNo = bx_SeqNo b, b_rest = (bx_Workchain b, bx_Shard b)\<rparr>"

definition Service_GetBlockData ::
  "('g, 'u, i32 \<times> u64) LiteEnv \<Rightarrow> Chance \<Rightarrow> BlockIDExt \<Rightarrow> 'u chain \<Rightarrow> 'u chain \<times> i32 res" where
  "Service_GetBlockData L r block c = (let (c', got) = GetClient L r c in (c',
     bindE (wrapE (''failed to create TON client for chain ID '' @ ch_id c) got) (\<lambda>client.
     bindE (wrapE (''failed to get block data for chain ID '' @ ch_id c) (GetBlockData L client (block_id block))) (\<lambda>blockData.
     Inr (GlobalID blockData)))))"

text \<open>\<open>GetAccount\<close> gives the balance of the account's state, or \<open>None\<close> for an account without one.\<close>

definition Service_GetAccountBalance ::
  "'a AddrLib \<Rightarrow> ('u \<Rightarrow> (i32 \<times> u64) BlockID \<Rightarrow> 'a \<Rightarrow> int option res) \<Rightarrow> ('g, 'u, i32 \<times> u64) LiteEnv \<Rightarrow> Chance \<Rightarrow>
   string \<Rightarrow> BlockIDExt \<Rightarrow> 'u chain \<Rightarrow> 'u chain \<times> int res" where
  "Service_GetAccountBalance A GetAccount L r addr block c = (let (c', got) = GetClient L r c in (c',
     bindE (wrapE (''failed to create TON client for chain ID '' @ ch_id c) got) (\<lambda>client.
     bindE (wrapE (''failed parsing address '' @ addr) (ParseAddr A addr)) (\<lambda>a.
     bindE (wrapE (''failed to get account for address '' @ addr) (GetAccount client (block_id block) a)) (\<lambda>acc.
     Inr (case acc of Some balance \<Rightarrow> balance | None \<Rightarrow> 0))))))"

record TonMessage =
  msg_Mode :: u8
  msg_ToAddress :: string
  msg_Amount :: string
  msg_Bounce :: bool
  msg_Body :: bytes
  msg_StateInit :: bytes

text \<open>\<open>MustFromTON\<close> panics on a text that is no amount.\<close>

definition SendTx ::
  "'a AddrLib \<Rightarrow> (bytes \<Rightarrow> 'c res) \<Rightarrow> (string \<Rightarrow> int res) \<Rightarrow> TxmConfig \<Rightarrow> ('a, 'c, 'w, 'st) TxmEnv \<Rightarrow> int \<Rightarrow> int \<Rightarrow>
   TonMessage \<Rightarrow> ('a, 'c) TxmState \<Rightarrow> ('a, 'c) TxmState res" where
  "SendTx A FromBOC FromTON cfg env now1 now2 msg t =
     bindE (wrapE (''failed parsing msg.ToAddress '' @ msg_ToAddress msg) (ParseAddr A (msg_ToAddress msg))) (\<lambda>toAddr.
     bindE (wrapE ''failed parsing msg.Body'' (FromBOC (msg_Body msg))) (\<lambda>body.
     bindE (wrapE ''failed parsing msg.StateInit'' (FromBOC (msg_StateInit msg))) (\<lambda>stateInit.
     bindE (must ''MustFromTON'' (FromTON (msg_Amount msg))) (\<lambda>amount.
     Enqueue cfg env now1 now2 \<lparr>r_Mode = msg_Mode msg, r_FromWallet = Client_Wallet env, r_ContractAddress = toAddr,
       r_Body = Some body, r_Amount = amount, r_Bounce = msg_Bounce msg, r_StateInit = Some stateInit\<rparr> t))))"

definition GetTxStatus ::
  "('a, 'c, 'w, 'st) TxmEnv \<Rightarrow> (int option \<Rightarrow> nat \<Rightarrow> int res) \<Rightarrow> u64 \<Rightarrow> ('a, 'c) TxmState \<Rightarrow>
   ('a, 'c) TxmState \<times> (TransactionStatus \<times> ExitCode \<times> gerr option) res" where
  "GetTxStatus env FromNano lt t = (let (t', res) = GetTransactionStatus env FromNano lt t
     in (t', bindE res (\<lambda>(status, exitCode, _, err). Inr (status, exitCode, err))))"

fun status_name :: "TransactionStatus \<Rightarrow> string" where
  "status_name TS_Unknown = ''Unknown''"
| "status_name TS_Pending = ''Pending''"
| "status_name TS_Unconfirmed = ''Unconfirmed''"
| "status_name TS_Finalized = ''Finalized''"
| "status_name TS_Failed = ''Failed''"

definition GetTxExecutionFees ::
  "('a, 'c, 'w, 'st) TxmEnv \<Rightarrow> (int option \<Rightarrow> nat \<Rightarrow> int res) \<Rightarrow> u64 \<Rightarrow> ('a, 'c) TxmState \<Rightarrow> ('a, 'c) TxmState \<times> int res" where
  "GetTxExecutionFees env FromNano lt t = (let (t', res) = GetTransactionStatus env FromNano lt t
     in (t', bindE res (\<lambda>(status, _, totalActionFees, err). case err of
          Some e \<Rightarrow> Inl (Wrap ''failed getting tx execution fees'' e)
        | None \<Rightarrow> if status \<noteq> TS_Finalized \<and> status \<noteq> TS_Failed
            then Inl (Err (''unexpected transaction status '' @ status_name status @ '' for lt '' @ show_nat (unat lt) @ '': transaction not finalized''))
            else Inr totalActionFees)))"

text \<open>Filters are not implemented: registering and unregistering succeed without an effect.\<close>

definition Service_HasFilter :: "string \<Rightarrow> bool" where
  "Service_HasFilter name = False"

definition Service_RegisterFilter :: "'q \<Rightarrow> unit res" where
  "Service_RegisterFilter query = Inr ()"

definition Service_UnregisterFilter :: "string \<Rightarrow> unit res" where
  "Service_UnregisterFilter name = Inr ()"

section \<open>The transmitter\<close>

text \<open>
  The two function fields may be nil. \<open>args\<close> of the call data is a cell or a value of another
  type, given by its type's name.
\<close>

record ('rep, 'ctx, 'c) ccipTransmitter =
  offrampAddress :: string
  toEd25519CalldataFn :: "('ctx \<Rightarrow> 'rep \<Rightarrow> bytes list \<Rightarrow> (string \<times> string \<times> (string + 'c)) res) option"
  rawReportContextFn :: "(bytes \<Rightarrow> u64 \<Rightarrow> 'ctx) option"

definition NewCCIPTransmitter :: "bool \<Rightarrow> bool \<Rightarrow> ('rep, 'ctx, 'c) ccipTransmitter res" where
  "NewCCIPTransmitter txm_nil lggr_nil =
     (if txm_nil \<or> lggr_nil then Inl (Err ''invalid transmitter args'')
      else Inr \<lparr>offrampAddress = [], toEd25519CalldataFn = None, rawReportContextFn = None\<rparr>)"

text \<open>Copying a signature into a 96-byte array is the identity on the lengths that pass the check.\<close>

definition check_sig :: "bytes \<Rightarrow> bytes res" where
  "check_sig sig = (if length sig \<noteq> 96 then Inl (Err (''invalid ed25519 signature length, expected 96, got '' @ show_nat (length sig)))
     else Inr (take 96 (sig @ replicate 96 0)))"

definition Transmit ::
  "'a AddrLib \<Rightarrow> (string \<Rightarrow> int res) \<Rightarrow> TxmConfig \<Rightarrow> ('a, 'c, 'w, 'st) TxmEnv \<Rightarrow> int \<Rightarrow> int \<Rightarrow> ('rep, 'ctx, 'c) ccipTransmitter \<Rightarrow>
   bytes \<Rightarrow> u64 \<Rightarrow> 'rep \<Rightarrow> bytes list \<Rightarrow> ('a, 'c) TxmState \<Rightarrow> ('a, 'c) TxmState res" where
  "Transmit A FromTON cfg env now1 now2 c configDigest seqNr report sigs t =
     (if length sigs > 32 then Inl (Err ''too many signatures, maximum is 32'')
      else case rawReportContextFn c of
        None \<Rightarrow> Inl (Panic ''nil pointer dereference'')
      | Some ctxFn \<Rightarrow>
         let rawReportCtx = ctxFn configDigest seqNr
         in bindE (mapE check_sig sigs) (\<lambda>signatures. case toEd25519CalldataFn c of
              None \<Rightarrow> Inl (Panic ''nil pointer dereference'')
            | Some calldata \<Rightarrow>
               bindE (wrapE ''failed to generate call data'' (calldata rawReportCtx report signatures)) (\<lambda>(_, meth, args). case args of
                 Inl ty \<Rightarrow> Inl (Err (''expected args to be *cell.Cell, got '' @ ty))
               | Inr body \<Rightarrow>
                  bindE (must ''MustParseAddr'' (ParseAddr A (offrampAddress c))) (\<lambda>addr.
                  bindE (must ''MustFromTON'' (FromTON ''0.05'')) (\<lambda>amount.
                  wrapE ''failed to submit transaction via txm'' (Enqueue cfg env now1 now2
                    \<lparr>r_Mode = PayGasSeparately, r_FromWallet = Client_Wallet env, r_ContractAddress = addr, r_Body = Some body,
                     r_Amount = amount, r_Bounce = False, r_StateInit = None\<rparr> t))))))"

section \<open>Properties\<close>

lemma EnqueueD:
  assumes "Enqueue cfg env now1 now2 request t = Inr t'"
  shows "length (BroadcastChan t) < BroadcastChanSize cfg \<and> (\<exists>tx. t' = t\<lparr>BroadcastChan := BroadcastChan t @ [tx]\<rparr> \<and>
    t_Mode tx = r_Mode request \<and> t_From tx = wallet_Address env (r_FromWallet request) \<and> t_To tx = r_ContractAddress request \<and>
    t_Amount tx = r_Amount request \<and> t_Body tx = r_Body request \<and> t_StateInit tx = r_StateInit request \<and> t_Bounceable tx = r_Bounce request)"
  using assms by (auto simp: Enqueue_def Let_def split: if_splits)

text \<open>Samples: numbers as addresses and cells.\<close>

definition sample_addrs :: "nat AddrLib" where
  "sample_addrs = \<lparr>ParseAddr = (\<lambda>s. Inr 2), Addr_String = (\<lambda>a. ''2''), NewAddress = (\<lambda>f w d. 2), Workchain = (\<lambda>a. 0), Addr_Data = (\<lambda>a. [])\<rparr>"

definition sample_ton_msg :: TonMessage where
  "sample_ton_msg = \<lparr>msg_Mode = 1, msg_ToAddress = ''2'', msg_Amount = ''0.5'', msg_Bounce = True, msg_Body = [1], msg_StateInit = [2]\<rparr>"

definition sample_boc :: "bytes \<Rightarrow> nat res" where
  "sample_boc bs = (if bs = [] then Inl (Err ''invalid boc'') else Inr (length bs))"

definition sample_transmitter :: "(nat, nat, nat) ccipTransmitter" where
  "sample_transmitter = \<lparr>offrampAddress = ''2'', toEd25519CalldataFn = Some (\<lambda>ctx rep sigs. Inr (''OffRamp'', ''commit'', Inr (length sigs))),
     rawReportContextFn = Some (\<lambda>d n. 0)\<rparr>"

text \<open>
  \<open>SendTx\<close> hands a message to the transaction manager as it is: if it succeeds, the channel had room and
  now ends with one more transaction, from the signer wallet to the parsed address, with the message's
  mode, amount, bounce flag, body and state init; the stores are untouched. Otherwise nothing
  was enqueued.
\<close>

theorem SendTx_enqueues:
  assumes "SendTx A FromBOC FromTON cfg env now1 now2 msg t = Inr t'"
  shows "length (BroadcastChan t) < BroadcastChanSize cfg \<and> Accounts t' = Accounts t \<and>
    (\<exists>tx a amount body st. BroadcastChan t' = BroadcastChan t @ [tx] \<and> ParseAddr A (msg_ToAddress msg) = Inr a \<and> FromTON (msg_Amount msg) = Inr amount \<and>
       FromBOC (msg_Body msg) = Inr body \<and> FromBOC (msg_StateInit msg) = Inr st \<and> t_From tx = wallet_Address env (Client_Wallet env) \<and>
       t_To tx = a \<and> t_Amount tx = amount \<and> t_Body tx = Some body \<and> t_StateInit tx = Some st \<and> t_Mode tx = msg_Mode msg \<and> t_Bounceable tx = msg_Bounce msg)"
proof -
  from assms obtain a body st amount where
    p: "ParseAddr A (msg_ToAddress msg) = Inr a" "FromBOC (msg_Body msg) = Inr body" "FromBOC (msg_StateInit msg) = Inr st" "FromTON (msg_Amount msg) = Inr amount"
    and e: "Enqueue cfg env now1 now2 \<lparr>r_Mode = msg_Mode msg, r_FromWallet = Client_Wallet env, r_ContractAddress = a,
       r_Body = Some body, r_Amount = amount, r_Bounce = msg_Bounce msg, r_StateInit = Some st\<rparr> t = Inr t'"
    by (auto simp: SendTx_def)
  from EnqueueD [OF e] p show ?thesis by auto
qed

theorem SendTx_enqueues_witness:
  "\<exists>t' tx. SendTx sample_addrs sample_boc (\<lambda>s. Inr 5) DefaultTxmConfig sample_env 0 0 sample_ton_msg NewTxm = Inr t' \<and>
    BroadcastChan t' = [tx] \<and> t_To tx = 2 \<and> t_Amount tx = 5 \<and> t_StateInit tx = Some 1"
proof -
  obtain t' where t': "SendTx sample_addrs sample_boc (\<lambda>s. Inr 5) DefaultTxmConfig sample_env 0 0 sample_ton_msg NewTxm = Inr t'"
    by (simp add: SendTx_def sample_addrs_def sample_boc_def sample_ton_msg_def Enqueue_def PublicKeyHex_def sample_env_def NewTxm_def DefaultTxmConfig_def)
  from SendTx_enqueues [OF t'] t' show ?thesis
    by (auto simp: sample_addrs_def sample_boc_def sample_ton_msg_def NewTxm_def)
qed

text \<open>
  A flaw: the optional state init is not optional. As the BOC reader refuses the empty byte string, a
  message without a state init is never sent.
\<close>

theorem SendTx_needs_StateInit:
  assumes "FromBOC [] = Inl e" "msg_StateInit msg = []"
  shows "\<exists>e'. SendTx A FromBOC FromTON cfg env now1 now2 msg t = Inl e'"
  using assms by (cases "ParseAddr A (msg_ToAddress msg)"; cases "FromBOC (msg_Body msg)") (auto simp: SendTx_def)

theorem SendTx_needs_StateInit_witness:
  "\<exists>e'. SendTx sample_addrs sample_boc (\<lambda>s. Inr 5) DefaultTxmConfig sample_env 0 0 (sample_ton_msg\<lparr>msg_StateInit := []\<rparr>) NewTxm = Inl e'"
  by (rule SendTx_needs_StateInit [where e = "Err ''invalid boc''"]) (simp_all add: sample_boc_def)

text \<open>
  Fees are reported for settled transactions only: if \<open>GetTxExecutionFees\<close> returns a fee, the ledger of the
  signer's account says that the transaction is done. Asking does not change any ledger.
\<close>

theorem GetTxExecutionFees_settled:
  assumes "accounts_ok (Accounts t)" "GetTxExecutionFees env FromNano lt t = (t', Inr fee)"
  shows "(\<exists>ok code. account_ledger (Accounts t) (addr_String env (wallet_Address env (Client_Wallet env))) lt = Some (Done ok code)) \<and>
    account_ledger (Accounts t') = account_ledger (Accounts t)"
proof -
  let ?me = "addr_String env (wallet_Address env (Client_Wallet env))"
  obtain s accounts where s: "GetTxStore ?me (Accounts t) = (s, accounts)" by (cases "GetTxStore ?me (Accounts t)")
  from GetTxStore_ok [OF assms(1) s] have acc: "map_of accounts ?me = Some s" "account_ledger accounts = account_ledger (Accounts t)" by auto
  from assms(2) s have t': "Accounts t' = accounts" by (auto simp: GetTxExecutionFees_def GetTransactionStatus_def)
  from assms(2) s obtain st ok code fees found where g: "GetTxState FromNano lt s = Inr (st, ok, code, fees, found)" and "st = Finalized"
    by (cases "GetTxState FromNano lt s")
      (auto simp: GetTxExecutionFees_def GetTransactionStatus_def split: if_splits MsgStatus.splits option.splits)
  with ledger_GetTxState [OF g] have "ledger s lt = Some (Done ok code)" by simp
  then have "account_ledger accounts ?me lt = Some (Done ok code)" using acc(1) by (simp add: account_ledger_def)
  with acc(2) t' show ?thesis by auto
qed

theorem GetTxExecutionFees_settled_witness:
  "\<exists>t' :: (nat, nat) TxmState. GetTxExecutionFees sample_env (\<lambda>v d. Inr 11) 5
      \<lparr>BroadcastChan = [], Accounts = [(''1'', store_op (OpFinalize 5 False 37) sample_store)]\<rparr> = (t', Inr 11) \<and>
    (\<exists>ok code. account_ledger (Accounts t') ''1'' 5 = Some (Done ok code))"
proof -
  let ?s = "store_op (OpFinalize 5 False 37) sample_store"
  let ?t = "\<lparr>BroadcastChan = [], Accounts = [(''1'', ?s)]\<rparr> :: (nat, nat) TxmState"
  have "accounts_ok (Accounts ?t)"
    by (simp add: accounts_ok_def store_ok_def store_wf_def gomap_wf_def sample_store_def MarkFinalized_def)
  moreover have fees: "GetTxExecutionFees sample_env (\<lambda>v d. Inr 11) 5 ?t = (?t, Inr 11)"
    by (simp add: GetTxExecutionFees_def GetTransactionStatus_def GetTxStore_def GetTxState_def sample_env_def sample_store_def MarkFinalized_def)
  ultimately show ?thesis
    using GetTxExecutionFees_settled [of ?t sample_env "\<lambda>v d. Inr 11" 5 ?t 11] by (auto simp: sample_env_def)
qed

text \<open>
  C32: What the transmitter submits: if \<open>Transmit\<close> succeeds, there were at most 32 signatures of 96 bytes
  each, passed unchanged to the call data function, and exactly one transaction was enqueued, to the off-ramp,
  with the body that function returned. This is the contract of the method for a transmitter whose function fields are set;
  no constructor in the repository sets them.
\<close>

theorem Transmit_enqueues:
  assumes "Transmit A FromTON cfg env now1 now2 c digest seqNr report sigs t = Inr t'"
  shows "length sigs \<le> 32 \<and> (\<forall>s \<in> set sigs. length s = 96) \<and> Accounts t' = Accounts t \<and>
    (\<exists>ctxFn calldata nm meth body tx a. rawReportContextFn c = Some ctxFn \<and> toEd25519CalldataFn c = Some calldata \<and>
       calldata (ctxFn digest seqNr) report sigs = Inr (nm, meth, Inr body) \<and> ParseAddr A (offrampAddress c) = Inr a \<and>
       BroadcastChan t' = BroadcastChan t @ [tx] \<and> t_To tx = a \<and> t_Body tx = Some body)"
proof -
  from assms obtain signatures where sigs: "length sigs \<le> 32" "mapE check_sig sigs = Inr signatures"
    by (auto simp: Transmit_def Let_def split: if_splits option.splits)
  have "\<forall>s \<in> set sigs. length s = 96" "signatures = sigs"
  proof -
    have "list_all2 (\<lambda>x y. length x = 96 \<and> y = x) sigs signatures"
      using sigs(2) unfolding mapE_Inr_iff by (rule list_all2_mono) (auto simp: check_sig_def split: if_splits)
    then show "\<forall>s \<in> set sigs. length s = 96" "signatures = sigs"
      by (auto simp: list_all2_conv_all_nth in_set_conv_nth intro: nth_equalityI)
  qed
  note len = this
  from assms sigs obtain ctxFn calldata nm meth body a amount where
    f: "rawReportContextFn c = Some ctxFn" "toEd25519CalldataFn c = Some calldata" "calldata (ctxFn digest seqNr) report signatures = Inr (nm, meth, Inr body)"
      "ParseAddr A (offrampAddress c) = Inr a"
    and e: "Enqueue cfg env now1 now2 \<lparr>r_Mode = PayGasSeparately, r_FromWallet = Client_Wallet env, r_ContractAddress = a, r_Body = Some body,
       r_Amount = amount, r_Bounce = False, r_StateInit = None\<rparr> t = Inr t'"
    by (auto simp: Transmit_def Let_def not_Inl_iff split: if_splits option.split_asm sum.split_asm)
  from EnqueueD [OF e] sigs(1) len f show ?thesis by auto
qed

theorem Transmit_enqueues_witness:
  "\<exists>t' tx. Transmit sample_addrs (\<lambda>s. Inr 5) DefaultTxmConfig sample_env 0 0 sample_transmitter [] 7 0 [replicate 96 1] NewTxm = Inr t' \<and>
    BroadcastChan t' = [tx] \<and> t_To tx = 2 \<and> t_Body tx = Some 1"
proof -
  obtain t' where t': "Transmit sample_addrs (\<lambda>s. Inr 5) DefaultTxmConfig sample_env 0 0 sample_transmitter [] 7 0 [replicate 96 1] NewTxm = Inr t'"
    by (simp add: Transmit_def sample_addrs_def sample_transmitter_def check_sig_def Enqueue_def PublicKeyHex_def sample_env_def NewTxm_def DefaultTxmConfig_def)
  from Transmit_enqueues [OF t'] t' show ?thesis by (auto simp: sample_addrs_def sample_transmitter_def NewTxm_def)
qed

text \<open>
  A flaw: a transmitter made by \<open>NewCCIPTransmitter\<close> transmits nothing: the function fields stay nil, so
  every call with an admissible number of signatures panics.
\<close>

theorem NewCCIPTransmitter_panics:
  assumes "NewCCIPTransmitter txm_nil lggr_nil = Inr c"
  shows "if length sigs \<le> 32 then \<exists>m. Transmit A FromTON cfg env now1 now2 c digest seqNr report sigs t = Inl (Panic m)
    else \<exists>m. Transmit A FromTON cfg env now1 now2 c digest seqNr report sigs t = Inl (Err m)"
  using assms by (auto simp: NewCCIPTransmitter_def Transmit_def split: if_splits)

theorem NewCCIPTransmitter_panics_witness:
  "\<exists>(c :: (nat, nat, nat) ccipTransmitter) m. NewCCIPTransmitter False False = Inr c \<and>
    Transmit sample_addrs (\<lambda>s. Inr 5) DefaultTxmConfig sample_env 0 0 c [] 7 0 [replicate 96 1] NewTxm = Inl (Panic m)"
proof -
  obtain c :: "(nat, nat, nat) ccipTransmitter" where c: "NewCCIPTransmitter False False = Inr c" by (simp add: NewCCIPTransmitter_def)
  from NewCCIPTransmitter_panics [OF c, of "[replicate 96 1]"] c show ?thesis by auto
qed

end
