(* ===== verification/Lifecycle.thy ===== *)
theory Lifecycle
  imports Relay_Service
begin

text \<open>
  Starting and stopping: the relayer (\<open>pkg/relay/relay.go\<close>), the chain (\<open>pkg/relay/chain.go\<close>), the transaction
  manager with its two loops (\<open>pkg/txm/txm.go\<close>) and the CCIP provider (\<open>pkg/ccip/provider/provider.go\<close>), and the
  calls of the relayer that it passes on or refuses.

  \<open>services.StateMachine\<close> and \<open>StartStopOnce\<close> of chainlink-common are the record \<open>OnceLib\<close>: a call of \<open>StartOnce\<close> or
  \<open>StopOnce\<close> is refused with an error or runs its function, whose error decides the next state. The locale
  \<open>once_laws\<close> states what is documented of them.

  \<open>Close\<close> waits for the loops (\<open>Done.Wait()\<close>), which run beside it. It is therefore cut in two: what happens up
  to the wait (the outcome is \<open>Waiting\<close> or, when the call is refused, \<open>Returned\<close>) and what happens after it. Between
  the two the loops return, in either order, and other calls may come in. \<open>rl_waiting\<close> says that a call of \<open>Close\<close>
  is in its wait.
\<close>

section \<open>The service library\<close>

datatype phase = Unstarted | Started | StartFailed | Stopping | Stopped | StopFailed

record 's OnceLib =
  o_new :: 's
  o_start_refused :: "'s \<Rightarrow> string \<Rightarrow> gerr option"
  o_after_start :: "'s \<Rightarrow> gerr option \<Rightarrow> 's"
  o_stop_refused :: "'s \<Rightarrow> string \<Rightarrow> gerr option"
  o_stopping :: "'s \<Rightarrow> 's"
  o_after_stop :: "'s \<Rightarrow> gerr option \<Rightarrow> 's"
  o_Ready :: "'s \<Rightarrow> gerr option"
  o_Healthy :: "'s \<Rightarrow> gerr option"

datatype outcome = Waiting | Returned "gerr option"

text \<open>\<open>sm\<close> and \<open>put\<close> read and write the state machine of a service.\<close>

definition StartOnce :: "'s OnceLib \<Rightarrow> string \<Rightarrow> ('x \<Rightarrow> 's) \<Rightarrow> ('s \<Rightarrow> 'x \<Rightarrow> 'x) \<Rightarrow> ('x \<Rightarrow> 'x \<times> gerr option) \<Rightarrow> 'x \<Rightarrow> 'x \<times> gerr option" where
  "StartOnce M name sm put fn x = (case o_start_refused M (sm x) name of
       Some e \<Rightarrow> (x, Some e)
     | None \<Rightarrow> (let (x', err) = fn x in (put (o_after_start M (sm x') err) x', err)))"

definition StopOnce :: "'s OnceLib \<Rightarrow> string \<Rightarrow> ('x \<Rightarrow> 's) \<Rightarrow> ('s \<Rightarrow> 'x \<Rightarrow> 'x) \<Rightarrow> ('x \<Rightarrow> 'x \<times> outcome) \<Rightarrow> 'x \<Rightarrow> 'x \<times> outcome" where
  "StopOnce M name sm put fn x = (case o_stop_refused M (sm x) name of
       Some e \<Rightarrow> (x, Returned (Some e))
     | None \<Rightarrow> (case fn (put (o_stopping M (sm x)) x) of
           (x', Waiting) \<Rightarrow> (x', Waiting)
         | (x', Returned err) \<Rightarrow> (put (o_after_stop M (sm x') err) x', Returned err)))"

locale once_laws =
  fixes M :: "'s OnceLib" and phase_of :: "'s \<Rightarrow> phase"
  assumes new: "phase_of (o_new M) = Unstarted"
    and start_refused: "o_start_refused M s n = None \<longleftrightarrow> phase_of s = Unstarted"
    and start_error: "o_start_refused M s n = Some e \<Longrightarrow> \<not> is_panic e"
    and after_start: "phase_of (o_after_start M s err) = (if err = None then Started else StartFailed)"
    and stop_refused: "o_stop_refused M s n = None \<longleftrightarrow> phase_of s = Started"
    and stop_error: "o_stop_refused M s n = Some e \<Longrightarrow> \<not> is_panic e"
    and stopping: "phase_of (o_stopping M s) = Stopping"
    and after_stop: "phase_of (o_after_stop M s err) = (if err = None then Stopped else StopFailed)"
    and ready: "o_Ready M s = None \<longleftrightarrow> phase_of s = Started"
    and healthy_started: "o_Healthy M s = None \<longleftrightarrow> phase_of s = Started"

definition ref_once :: "phase OnceLib" where
  "ref_once = \<lparr>o_new = Unstarted,
     o_start_refused = (\<lambda>s n. if s = Unstarted then None else Some (Err (n @ '' has already been started''))),
     o_after_start = (\<lambda>s err. if err = None then Started else StartFailed),
     o_stop_refused = (\<lambda>s n. if s = Started then None else Some (Err (n @ '' cannot be stopped from this state''))),
     o_stopping = (\<lambda>s. Stopping), o_after_stop = (\<lambda>s err. if err = None then Stopped else StopFailed),
     o_Ready = (\<lambda>s. if s = Started then None else Some (Err ''not started'')),
     o_Healthy = (\<lambda>s. if s = Started then None else Some (Err ''not started''))\<rparr>"

interpretation once: once_laws ref_once "\<lambda>s. s"
  by unfold_locales (auto simp: ref_once_def split: if_splits)

section \<open>The transaction manager\<close>

text \<open>
  \<open>tl_Done\<close> is the counter of the wait group, \<open>tl_Stop\<close> whether the channel is closed, and the last two fields
  whether the loops run.
\<close>

record 's TxmLife =
  tl_Starter :: 's
  tl_Done :: nat
  tl_Stop :: bool
  tl_Broadcast :: bool
  tl_Confirm :: bool

definition NewTxm_life :: "'s OnceLib \<Rightarrow> 's TxmLife" where
  "NewTxm_life M = \<lparr>tl_Starter = o_new M, tl_Done = 0, tl_Stop = False, tl_Broadcast = False, tl_Confirm = False\<rparr>"

definition Txm_Start :: "'s OnceLib \<Rightarrow> 's TxmLife \<Rightarrow> 's TxmLife \<times> gerr option" where
  "Txm_Start M = StartOnce M ''Txm'' tl_Starter (\<lambda>s. tl_Starter_update (\<lambda>_. s)) (\<lambda>t.
     (t\<lparr>tl_Done := tl_Done t + 2, tl_Broadcast := True, tl_Confirm := True\<rparr>, None))"

text \<open>Up to \<open>t.Done.Wait()\<close>. Closing a closed channel panics.\<close>

definition Txm_Close :: "'s OnceLib \<Rightarrow> 's TxmLife \<Rightarrow> 's TxmLife \<times> outcome" where
  "Txm_Close M = StopOnce M ''Txm'' tl_Starter (\<lambda>s. tl_Starter_update (\<lambda>_. s)) (\<lambda>t.
     if tl_Stop t then (t, Returned (Some (Panic ''close of closed channel'')))
     else (t\<lparr>tl_Stop := True\<rparr>, Waiting))"

definition Txm_Close_waited :: "'s OnceLib \<Rightarrow> 's TxmLife \<Rightarrow> 's TxmLife" where
  "Txm_Close_waited M t = t\<lparr>tl_Starter := o_after_stop M (tl_Starter t) None\<rparr>"

text \<open>A loop returns when it sees the channel closed; its deferred call counts the wait group down.\<close>

definition broadcastLoop_returns :: "'s TxmLife \<Rightarrow> 's TxmLife" where
  "broadcastLoop_returns t = (if tl_Broadcast t \<and> tl_Stop t then t\<lparr>tl_Broadcast := False, tl_Done := tl_Done t - 1\<rparr> else t)"

definition confirmLoop_returns :: "'s TxmLife \<Rightarrow> 's TxmLife" where
  "confirmLoop_returns t = (if tl_Confirm t \<and> tl_Stop t then t\<lparr>tl_Confirm := False, tl_Done := tl_Done t - 1\<rparr> else t)"

definition Txm_Ready :: "'s OnceLib \<Rightarrow> 's TxmLife \<Rightarrow> gerr option" where
  "Txm_Ready M t = o_Ready M (tl_Starter t)"

definition Txm_HealthReport :: "'s OnceLib \<Rightarrow> string \<Rightarrow> 's TxmLife \<Rightarrow> (string, gerr option) gomap" where
  "Txm_HealthReport M name t = [(name, o_Healthy M (tl_Starter t))]"

section \<open>The chain\<close>

record 's ChainLife =
  sc_starter :: 's
  sc_txm :: "'s TxmLife"

definition newChain_life :: "'s OnceLib \<Rightarrow> 's ChainLife" where
  "newChain_life M = \<lparr>sc_starter = o_new M, sc_txm = NewTxm_life M\<rparr>"

text \<open>\<open>MultiStart.Start\<close> and \<open>CloseAll\<close> of the one service return its error.\<close>

definition chain_Start :: "'s OnceLib \<Rightarrow> 's ChainLife \<Rightarrow> 's ChainLife \<times> gerr option" where
  "chain_Start M = StartOnce M ''Chain'' sc_starter (\<lambda>s. sc_starter_update (\<lambda>_. s)) (\<lambda>c.
     (let (t, err) = Txm_Start M (sc_txm c) in (c\<lparr>sc_txm := t\<rparr>, err)))"

definition chain_Close :: "'s OnceLib \<Rightarrow> 's ChainLife \<Rightarrow> 's ChainLife \<times> outcome" where
  "chain_Close M = StopOnce M ''Chain'' sc_starter (\<lambda>s. sc_starter_update (\<lambda>_. s)) (\<lambda>c.
     (let (t, out) = Txm_Close M (sc_txm c) in (c\<lparr>sc_txm := t\<rparr>, out)))"

definition chain_Close_waited :: "'s OnceLib \<Rightarrow> 's ChainLife \<Rightarrow> 's ChainLife" where
  "chain_Close_waited M c = c\<lparr>sc_txm := Txm_Close_waited M (sc_txm c), sc_starter := o_after_stop M (sc_starter c) None\<rparr>"

text \<open>\<open>errors.Join\<close>: the errors that are there; nil is the empty list.\<close>

definition errors_Join :: "gerr option list \<Rightarrow> gerr list" where
  "errors_Join es = List.map_filter (\<lambda>e. e) es"

definition chain_Ready :: "'s OnceLib \<Rightarrow> 's ChainLife \<Rightarrow> gerr list" where
  "chain_Ready M c = errors_Join [o_Ready M (sc_starter c), Txm_Ready M (sc_txm c)]"

text \<open>\<open>services.CopyHealth\<close>\<close>

definition CopyHealth :: "(string, gerr option) gomap \<Rightarrow> (string, gerr option) gomap \<Rightarrow> (string, gerr option) gomap" where
  "CopyHealth dest src = fold (\<lambda>(k, v). gput k v) src dest"

definition chain_HealthReport :: "'s OnceLib \<Rightarrow> string \<Rightarrow> string \<Rightarrow> 's ChainLife \<Rightarrow> (string, gerr option) gomap" where
  "chain_HealthReport M name txm_name c = CopyHealth [(name, o_Healthy M (sc_starter c))] (Txm_HealthReport M txm_name (sc_txm c))"

definition ErrUnsupported :: gerr where
  "ErrUnsupported = Err ''unsupported operation''"

definition chain_Transact :: "string \<Rightarrow> string \<Rightarrow> int \<Rightarrow> bool \<Rightarrow> unit res" where
  "chain_Transact from to amount balanceCheck = Inl ErrUnsupported"

definition chain_Replay :: "string \<Rightarrow> 'm \<Rightarrow> unit res" where
  "chain_Replay fromBlock args = Inl ErrUnsupported"

section \<open>The relayer\<close>

record 's RelayerLife =
  rl_sm :: 's
  rl_stopCh :: bool
  rl_chain :: "'s ChainLife option"
  rl_waiting :: bool

definition NewRelayer :: "'s OnceLib \<Rightarrow> 's ChainLife option \<Rightarrow> 's RelayerLife" where
  "NewRelayer M chain = \<lparr>rl_sm = o_new M, rl_stopCh = False, rl_chain = chain, rl_waiting = False\<rparr>"

definition Relayer_Start :: "'s OnceLib \<Rightarrow> 's RelayerLife \<Rightarrow> 's RelayerLife \<times> gerr option" where
  "Relayer_Start M = StartOnce M ''TONRelayer'' rl_sm (\<lambda>s. rl_sm_update (\<lambda>_. s)) (\<lambda>r. case rl_chain r of
       None \<Rightarrow> (r, Some (Err ''chain is not set for TON relayer''))
     | Some c \<Rightarrow> (let (c', err) = chain_Start M c in (r\<lparr>rl_chain := Some c'\<rparr>, err)))"

text \<open>The call enters the wait when the chain's \<open>Close\<close> does.\<close>

definition Relayer_Close :: "'s OnceLib \<Rightarrow> 's RelayerLife \<Rightarrow> 's RelayerLife \<times> outcome" where
  "Relayer_Close M = StopOnce M ''TONRelayer'' rl_sm (\<lambda>s. rl_sm_update (\<lambda>_. s)) (\<lambda>r.
     if rl_stopCh r then (r, Returned (Some (Panic ''close of closed channel'')))
     else (let r1 = r\<lparr>rl_stopCh := True\<rparr> in case rl_chain r1 of
         None \<Rightarrow> (r1, Returned (Some (Panic ''nil pointer dereference'')))
       | Some c \<Rightarrow> (let (c', out) = chain_Close M c in (r1\<lparr>rl_chain := Some c', rl_waiting := (out = Waiting)\<rparr>, out))))"

definition Relayer_Close_waited :: "'s OnceLib \<Rightarrow> 's RelayerLife \<Rightarrow> 's RelayerLife" where
  "Relayer_Close_waited M r = r\<lparr>rl_chain := map_option (chain_Close_waited M) (rl_chain r), rl_waiting := False,
     rl_sm := o_after_stop M (rl_sm r) None\<rparr>"

text \<open>Both report on the chain; without one they panic.\<close>

definition Relayer_Ready :: "'s OnceLib \<Rightarrow> 's RelayerLife \<Rightarrow> gerr list res" where
  "Relayer_Ready M r = (case rl_chain r of None \<Rightarrow> Inl (Panic ''nil pointer dereference'') | Some c \<Rightarrow> Inr (chain_Ready M c))"

definition Relayer_HealthReport :: "'s OnceLib \<Rightarrow> string \<Rightarrow> string \<Rightarrow> string \<Rightarrow> 's RelayerLife \<Rightarrow> (string, gerr option) gomap res" where
  "Relayer_HealthReport M name chain_name txm_name r = (case rl_chain r of
       None \<Rightarrow> Inl (Panic ''nil pointer dereference'')
     | Some c \<Rightarrow> Inr (CopyHealth [(name, o_Healthy M (rl_sm r))] (chain_HealthReport M chain_name txm_name c)))"

text \<open>What the relayer passes on to its chain.\<close>

definition Relayer_GetChainInfo :: "(i32 \<Rightarrow> string res) \<Rightarrow> 'u chain \<Rightarrow> ChainInfo res" where
  "Relayer_GetChainInfo TonNameFromChainId c = GetChainInfo TonNameFromChainId c"

definition Relayer_LatestHead :: "('g, 'u, 'blk) LiteEnv \<Rightarrow> Chance \<Rightarrow> 'u chain \<Rightarrow> 'u chain \<times> Head res" where
  "Relayer_LatestHead L r c = LatestHead L r c"

definition Relayer_GetChainStatus :: "(TOMLConfig \<Rightarrow> string res) \<Rightarrow> 'u chain \<Rightarrow> ChainStatus res" where
  "Relayer_GetChainStatus TOMLString c = GetChainStatus TOMLString c"

definition Relayer_Transact :: "string \<Rightarrow> string \<Rightarrow> int \<Rightarrow> bool \<Rightarrow> unit res" where
  "Relayer_Transact from to amount balanceCheck = chain_Transact from to amount balanceCheck"

definition Relayer_Replay :: "string \<Rightarrow> 'm \<Rightarrow> unit res" where
  "Relayer_Replay fromBlock args = chain_Replay fromBlock args"

text \<open>The providers the relayer does not have: nil without an error for two, an error for the others.\<close>

datatype provider_kind = ConfigProvider | MedianProvider | FunctionsProvider | AutomationProvider | MercuryProvider | LLOProvider
  | CCIPCommitProvider | CCIPExecProvider | PluginProvider | OCR3CapabilityProvider

fun Relayer_NewProvider :: "provider_kind \<Rightarrow> 'p option res" where
  "Relayer_NewProvider ConfigProvider = Inr None"
| "Relayer_NewProvider MedianProvider = Inr None"
| "Relayer_NewProvider FunctionsProvider = Inl (Err ''functions are not supported for TON'')"
| "Relayer_NewProvider AutomationProvider = Inl (Err ''automation is not supported for TON'')"
| "Relayer_NewProvider MercuryProvider = Inl (Err ''mercury is not supported for TON'')"
| "Relayer_NewProvider LLOProvider = Inl (Err ''data streams is not supported for TON'')"
| "Relayer_NewProvider CCIPCommitProvider = Inl (Err ''ccip.commit is not supported for TON'')"
| "Relayer_NewProvider CCIPExecProvider = Inl (Err ''ccip.exec is not supported for TON'')"
| "Relayer_NewProvider PluginProvider = Inl (Err ''plugin provider is not supported for TON'')"
| "Relayer_NewProvider OCR3CapabilityProvider = Inl (Err ''ocr3 capability provider is not supported for TON'')"

section \<open>The CCIP provider\<close>

record ('ca, 'rep, 'ctx, 'c, 's) Provider =
  cp_ca :: "'ca option"
  cp_ct :: "('rep, 'ctx, 'c) ccipTransmitter"
  cp_sm :: 's

definition NewCCIPProvider :: "'s OnceLib \<Rightarrow> bool \<Rightarrow> bool \<Rightarrow> ('ca, 'rep, 'ctx, 'c, 's) Provider res" where
  "NewCCIPProvider M txm_nil lggr_nil =
     bindE (wrapE ''failed to create a CCIP ContractTransmitter'' (NewCCIPTransmitter txm_nil lggr_nil)) (\<lambda>ct.
     Inr \<lparr>cp_ca = None, cp_ct = ct, cp_sm = o_new M\<rparr>)"

definition Provider_Start :: "'s OnceLib \<Rightarrow> ('ca, 'rep, 'ctx, 'c, 's) Provider \<Rightarrow> ('ca, 'rep, 'ctx, 'c, 's) Provider \<times> gerr option" where
  "Provider_Start M = StartOnce M ''TONCCIPProvider'' cp_sm (\<lambda>s. cp_sm_update (\<lambda>_. s)) (\<lambda>p. (p, None))"

text \<open>Nothing is ever added to the provider's wait group, so that its wait returns at once.\<close>

definition Provider_Close :: "'s OnceLib \<Rightarrow> ('ca, 'rep, 'ctx, 'c, 's) Provider \<Rightarrow> ('ca, 'rep, 'ctx, 'c, 's) Provider \<times> outcome" where
  "Provider_Close M = StopOnce M ''TONCCIPProvider'' cp_sm (\<lambda>s. cp_sm_update (\<lambda>_. s)) (\<lambda>p. (p, Returned None))"

definition Provider_Ready :: "'s OnceLib \<Rightarrow> ('ca, 'rep, 'ctx, 'c, 's) Provider \<Rightarrow> gerr option" where
  "Provider_Ready M p = o_Ready M (cp_sm p)"

definition Provider_HealthReport :: "'s OnceLib \<Rightarrow> string \<Rightarrow> ('ca, 'rep, 'ctx, 'c, 's) Provider \<Rightarrow> (string, gerr option) gomap" where
  "Provider_HealthReport M name p = [(name, o_Healthy M (cp_sm p))]"

definition ChainAccessor :: "('ca, 'rep, 'ctx, 'c, 's) Provider \<Rightarrow> 'ca option" where
  "ChainAccessor p = cp_ca p"

definition ContractTransmitter :: "('ca, 'rep, 'ctx, 'c, 's) Provider \<Rightarrow> ('rep, 'ctx, 'c) ccipTransmitter" where
  "ContractTransmitter p = cp_ct p"

text \<open>The account of a transmitter: the raw form of its wallet's address.\<close>

definition FromAccount :: "('a \<Rightarrow> string) \<Rightarrow> 'a \<Rightarrow> string res" where
  "FromAccount StringRaw walletAddress = Inr (StringRaw walletAddress)"

text \<open>\<open>Relayer.NewCCIPProvider\<close> passes on the transaction manager of its chain.\<close>

definition Relayer_NewCCIPProvider :: "'s OnceLib \<Rightarrow> bool \<Rightarrow> bool \<Rightarrow> ('ca, 'rep, 'ctx, 'c, 's) Provider res" where
  "Relayer_NewCCIPProvider M txm_nil lggr_nil = NewCCIPProvider M txm_nil lggr_nil"

section \<open>Runs\<close>

text \<open>The calls of \<open>Start\<close> and \<open>Close\<close>, the returns of the loops and the return of a waiting \<open>Close\<close>, in any order.\<close>

datatype event = CallStart | CallClose | BroadcastReturns | ConfirmReturns | CloseReturns

definition on_txm :: "('s TxmLife \<Rightarrow> 's TxmLife) \<Rightarrow> 's RelayerLife \<Rightarrow> 's RelayerLife" where
  "on_txm f r = r\<lparr>rl_chain := map_option (\<lambda>c. c\<lparr>sc_txm := f (sc_txm c)\<rparr>) (rl_chain r)\<rparr>"

definition loops_done :: "'s RelayerLife \<Rightarrow> bool" where
  "loops_done r = (case rl_chain r of None \<Rightarrow> True | Some c \<Rightarrow> tl_Done (sc_txm c) = 0)"

inductive relayer_step :: "'s OnceLib \<Rightarrow> 's RelayerLife \<Rightarrow> event \<Rightarrow> 's RelayerLife \<Rightarrow> bool" for M where
  start: "relayer_step M r CallStart (fst (Relayer_Start M r))"
| close: "relayer_step M r CallClose (fst (Relayer_Close M r))"
| broadcast: "relayer_step M r BroadcastReturns (on_txm broadcastLoop_returns r)"
| confirm: "relayer_step M r ConfirmReturns (on_txm confirmLoop_returns r)"
| closed: "rl_waiting r \<Longrightarrow> loops_done r \<Longrightarrow> relayer_step M r CloseReturns (Relayer_Close_waited M r)"

inductive relayer_reach :: "'s OnceLib \<Rightarrow> 's RelayerLife \<Rightarrow> bool" for M where
  new: "relayer_reach M (NewRelayer M (if present then Some (newChain_life M) else None))"
| step: "relayer_reach M r \<Longrightarrow> relayer_step M r e r' \<Longrightarrow> relayer_reach M r'"

text \<open>The state of a relayer in phase \<open>p\<close>: the three state machines agree, and the channels and loops go with the phase.\<close>

definition txm_life_ok :: "('s \<Rightarrow> phase) \<Rightarrow> phase \<Rightarrow> 's TxmLife \<Rightarrow> bool" where
  "txm_life_ok ph p t = (ph (tl_Starter t) = p \<and> (tl_Stop t \<longleftrightarrow> p \<in> {Stopping, Stopped}) \<and>
     tl_Done t = of_bool (tl_Broadcast t) + of_bool (tl_Confirm t) \<and> (p = Started \<longrightarrow> tl_Broadcast t \<and> tl_Confirm t) \<and>
     (p \<in> {Unstarted, Stopped} \<longrightarrow> tl_Done t = 0))"

definition relayer_ok :: "('s \<Rightarrow> phase) \<Rightarrow> phase \<Rightarrow> 's RelayerLife \<Rightarrow> bool" where
  "relayer_ok ph p r = (ph (rl_sm r) = p \<and> (rl_stopCh r \<longleftrightarrow> p \<in> {Stopping, Stopped}) \<and> (rl_waiting r \<longleftrightarrow> p = Stopping) \<and>
     (case rl_chain r of None \<Rightarrow> p \<in> {Unstarted, StartFailed}
      | Some c \<Rightarrow> ph (sc_starter c) = p \<and> p \<in> {Unstarted, Started, Stopping, Stopped} \<and> txm_life_ok ph p (sc_txm c)))"

lemma loop_life_ok:
  assumes "txm_life_ok ph p t"
  shows "txm_life_ok ph p (broadcastLoop_returns t)" "txm_life_ok ph p (confirmLoop_returns t)"
proof -
  show "txm_life_ok ph p (broadcastLoop_returns t)"
    using assms by (cases "tl_Broadcast t"; cases "tl_Stop t"; cases p) (simp_all add: txm_life_ok_def broadcastLoop_returns_def)
  show "txm_life_ok ph p (confirmLoop_returns t)"
    using assms by (cases "tl_Confirm t"; cases "tl_Stop t"; cases p) (simp_all add: txm_life_ok_def confirmLoop_returns_def)
qed

lemmas once_defs = StartOnce_def StopOnce_def Txm_Start_def Txm_Close_def chain_Start_def chain_Close_def Relayer_Start_def Relayer_Close_def

context once_laws
begin

lemmas phases = new start_refused after_start stop_refused stopping after_stop ready healthy_started

lemma refused_start: "phase_of s \<noteq> Unstarted \<Longrightarrow> \<exists>e. o_start_refused M s n = Some e"
  using start_refused [of s n] by (cases "o_start_refused M s n") auto

lemma refused_stop: "phase_of s \<noteq> Started \<Longrightarrow> \<exists>e. o_stop_refused M s n = Some e"
  using stop_refused [of s n] by (cases "o_stop_refused M s n") auto

lemma started: "phase_of s = Unstarted \<Longrightarrow> o_start_refused M s n = None"
  by (simp add: start_refused)

lemma stoppable: "phase_of s = Started \<Longrightarrow> o_stop_refused M s n = None"
  by (simp add: stop_refused)

text \<open>What the calls do, by the phase of the relayer.\<close>

lemma start_call:
  assumes "relayer_ok phase_of p r"
  shows "if p = Unstarted \<and> rl_chain r \<noteq> None then relayer_ok phase_of Started (fst (Relayer_Start M r)) \<and> snd (Relayer_Start M r) = None
    else relayer_ok phase_of (if p = Unstarted then StartFailed else p) (fst (Relayer_Start M r)) \<and> rl_chain (fst (Relayer_Start M r)) = rl_chain r \<and>
      (\<exists>e. snd (Relayer_Start M r) = Some e \<and> \<not> is_panic e)"
proof (cases "p = Unstarted")
  case True
  show ?thesis
  proof (cases "rl_chain r")
    case None
    with assms True show ?thesis by (simp add: relayer_ok_def Relayer_Start_def StartOnce_def started after_start)
  next
    case (Some c)
    with assms True show ?thesis by (simp add: relayer_ok_def txm_life_ok_def once_defs started after_start) auto
  qed
next
  case False
  with assms refused_start [of "rl_sm r" "''TONRelayer''"] obtain e where "o_start_refused M (rl_sm r) ''TONRelayer'' = Some e"
    by (auto simp: relayer_ok_def)
  with False assms start_error show ?thesis by (auto simp: Relayer_Start_def StartOnce_def)
qed

lemma close_call:
  assumes "relayer_ok phase_of p r"
  shows "if p = Started then relayer_ok phase_of Stopping (fst (Relayer_Close M r)) \<and> snd (Relayer_Close M r) = Waiting
    else fst (Relayer_Close M r) = r \<and> (\<exists>e. snd (Relayer_Close M r) = Returned (Some e) \<and> \<not> is_panic e)"
proof (cases "p = Started")
  case True
  with assms obtain c where "rl_chain r = Some c" by (auto simp: relayer_ok_def split: option.splits)
  with assms True show ?thesis by (simp add: relayer_ok_def txm_life_ok_def once_defs stoppable stopping)
next
  case False
  with assms refused_stop [of "rl_sm r" "''TONRelayer''"] obtain e where "o_stop_refused M (rl_sm r) ''TONRelayer'' = Some e"
    by (auto simp: relayer_ok_def)
  with False stop_error show ?thesis by (auto simp: Relayer_Close_def StopOnce_def)
qed

lemma loops_ok:
  assumes "relayer_ok phase_of p r"
  shows "relayer_ok phase_of p (on_txm broadcastLoop_returns r)" "relayer_ok phase_of p (on_txm confirmLoop_returns r)"
  using assms by (simp_all add: relayer_ok_def on_txm_def loop_life_ok split: option.splits)

lemma waited_ok:
  assumes "relayer_ok phase_of p r" "rl_waiting r" "loops_done r"
  shows "relayer_ok phase_of Stopped (Relayer_Close_waited M r)"
  using assms by (auto simp: relayer_ok_def txm_life_ok_def loops_done_def Relayer_Close_waited_def chain_Close_waited_def Txm_Close_waited_def after_stop
      split: option.splits)

lemma reach_ok: "relayer_reach M r \<Longrightarrow> \<exists>p. relayer_ok phase_of p r"
proof (induction rule: relayer_reach.induct)
  case (new present)
  have "relayer_ok phase_of Unstarted (NewRelayer M (if present then Some (newChain_life M) else None))"
    by (simp add: relayer_ok_def txm_life_ok_def NewRelayer_def newChain_life_def NewTxm_life_def once_laws.new [OF once_laws_axioms])
  then show ?case by blast
next
  case (step r e r')
  from step.IH obtain p where p: "relayer_ok phase_of p r" by blast
  from step.hyps(2) show ?case
  proof (cases rule: relayer_step.cases)
    case start
    with start_call [OF p] p show ?thesis by (metis (full_types))
  next
    case close
    with close_call [OF p] p show ?thesis by (metis (full_types))
  next
    case broadcast
    with loops_ok [OF p] show ?thesis by blast
  next
    case confirm
    with loops_ok [OF p] show ?thesis by blast
  next
    case closed
    with waited_ok [OF p] show ?thesis by blast
  qed
qed

lemma ready_iff:
  assumes "relayer_ok phase_of p r" "rl_chain r = Some c"
  shows "Relayer_Ready M r = Inr [] \<longleftrightarrow> p = Started"
proof -
  from assms have "phase_of (sc_starter c) = p" "phase_of (tl_Starter (sc_txm c)) = p" by (simp_all add: relayer_ok_def txm_life_ok_def)
  then have "o_Ready M (sc_starter c) = None \<longleftrightarrow> p = Started" "o_Ready M (tl_Starter (sc_txm c)) = None \<longleftrightarrow> p = Started"
    by (simp_all add: ready)
  with assms(2) show ?thesis by (auto simp: Relayer_Ready_def chain_Ready_def Txm_Ready_def errors_Join_def map_filter_simps split: option.splits)
qed

lemma lifecycle:
  assumes "relayer_reach M r"
  shows "(case rl_chain r of None \<Rightarrow> True | Some c \<Rightarrow>
      (Relayer_Ready M r = Inr [] \<longleftrightarrow> phase_of (rl_sm r) = Started) \<and>
      (phase_of (rl_sm r) = Started \<longrightarrow> tl_Broadcast (sc_txm c) \<and> tl_Confirm (sc_txm c) \<and> \<not> tl_Stop (sc_txm c)) \<and>
      tl_Done (sc_txm c) = of_bool (tl_Broadcast (sc_txm c)) + of_bool (tl_Confirm (sc_txm c)) \<and>
      (phase_of (rl_sm r) \<in> {Unstarted, Stopped} \<longrightarrow> \<not> tl_Broadcast (sc_txm c) \<and> \<not> tl_Confirm (sc_txm c))) \<and>
    snd (Relayer_Start M r) \<noteq> Some (Panic m) \<and> snd (Relayer_Close M r) \<noteq> Returned (Some (Panic m))"
proof -
  from reach_ok [OF assms] obtain p where p: "relayer_ok phase_of p r" by blast
  have "snd (Relayer_Start M r) \<noteq> Some (Panic m)" using start_call [OF p] by (auto split: if_splits)
  moreover have "snd (Relayer_Close M r) \<noteq> Returned (Some (Panic m))" using close_call [OF p] by (auto split: if_splits)
  ultimately show ?thesis using p ready_iff [OF p] by (auto simp: relayer_ok_def txm_life_ok_def split: option.splits)
qed

lemma close_finishes:
  assumes "relayer_reach M r" "rl_waiting r"
  shows "\<exists>r'. relayer_step M (on_txm confirmLoop_returns (on_txm broadcastLoop_returns r)) CloseReturns r' \<and>
    on_txm confirmLoop_returns (on_txm broadcastLoop_returns r) = on_txm broadcastLoop_returns (on_txm confirmLoop_returns r) \<and>
    phase_of (rl_sm r') = Stopped \<and> loops_done r'"
proof -
  let ?r = "on_txm confirmLoop_returns (on_txm broadcastLoop_returns r)"
  from reach_ok [OF assms(1)] obtain p where p: "relayer_ok phase_of p r" by blast
  then have ok: "relayer_ok phase_of p ?r" by (intro loops_ok)
  from p assms(2) obtain c where c: "rl_chain r = Some c" "p = Stopping" by (auto simp: relayer_ok_def split: option.splits)
  have w: "rl_waiting ?r" using assms(2) by (simp add: on_txm_def)
  have d: "loops_done ?r"
    using p c by (auto simp: loops_done_def on_txm_def broadcastLoop_returns_def confirmLoop_returns_def relayer_ok_def txm_life_ok_def)
  have comm: "?r = on_txm broadcastLoop_returns (on_txm confirmLoop_returns r)"
    using p c by (auto simp: on_txm_def broadcastLoop_returns_def confirmLoop_returns_def)
  from waited_ok [OF ok w d] have "relayer_ok phase_of Stopped (Relayer_Close_waited M ?r)" .
  then have "phase_of (rl_sm (Relayer_Close_waited M ?r)) = Stopped" "loops_done (Relayer_Close_waited M ?r)"
    by (auto simp: relayer_ok_def txm_life_ok_def loops_done_def split: option.splits)
  with comm relayer_step.closed [OF w d, of M] show ?thesis by auto
qed

end

section \<open>Properties\<close>

text \<open>
  C11: Starting and stopping, in every reachable state, whatever the calls and however they interleave with the returns of
  the loops. With a chain, the relayer is ready exactly while it is started, and then both loops of the
  transaction manager run and its channel is open; the wait group counts the loops that run; before a start and
  after a stop none runs. No call closes a channel twice or uses a missing chain: no \<open>Start\<close> and no \<open>Close\<close> panics.
\<close>

theorem relayer_lifecycle:
  assumes "once_laws M ph" "relayer_reach M r"
  shows "(case rl_chain r of None \<Rightarrow> True | Some c \<Rightarrow>
      (Relayer_Ready M r = Inr [] \<longleftrightarrow> ph (rl_sm r) = Started) \<and>
      (ph (rl_sm r) = Started \<longrightarrow> tl_Broadcast (sc_txm c) \<and> tl_Confirm (sc_txm c) \<and> \<not> tl_Stop (sc_txm c)) \<and>
      tl_Done (sc_txm c) = of_bool (tl_Broadcast (sc_txm c)) + of_bool (tl_Confirm (sc_txm c)) \<and>
      (ph (rl_sm r) \<in> {Unstarted, Stopped} \<longrightarrow> \<not> tl_Broadcast (sc_txm c) \<and> \<not> tl_Confirm (sc_txm c))) \<and>
    snd (Relayer_Start M r) \<noteq> Some (Panic m) \<and> snd (Relayer_Close M r) \<noteq> Returned (Some (Panic m))"
  using assms by (rule once_laws.lifecycle)

definition sample_relayer :: "phase RelayerLife" where
  "sample_relayer = fst (Relayer_Close ref_once (fst (Relayer_Start ref_once (NewRelayer ref_once (Some (newChain_life ref_once))))))"

lemma sample_relayer_reach: "relayer_reach ref_once sample_relayer"
  unfolding sample_relayer_def using relayer_reach.new [of ref_once True]
  by (auto intro: relayer_reach.step relayer_step.start relayer_step.close)

theorem relayer_lifecycle_witness:
  "(\<exists>c. rl_chain sample_relayer = Some c \<and> tl_Done (sc_txm c) = 2 \<and> tl_Stop (sc_txm c) \<and> Relayer_Ready ref_once sample_relayer \<noteq> Inr []) \<and>
   snd (Relayer_Close ref_once sample_relayer) \<noteq> Returned (Some (Panic ''close of closed channel''))"
  using relayer_lifecycle [OF once.once_laws_axioms sample_relayer_reach, of "''close of closed channel''"]
  by (simp add: sample_relayer_def once_defs ref_once_def NewRelayer_def newChain_life_def NewTxm_life_def)

text \<open>
  C16: A \<open>Close\<close> that waits returns: from every reachable state in which it waits, once both loops have seen the closed
  channel, in whichever order, the wait is over; the relayer is then stopped and no loop runs.
\<close>

theorem relayer_close_returns:
  assumes "once_laws M ph" "relayer_reach M r" "rl_waiting r"
  shows "\<exists>r'. relayer_step M (on_txm confirmLoop_returns (on_txm broadcastLoop_returns r)) CloseReturns r' \<and>
    on_txm confirmLoop_returns (on_txm broadcastLoop_returns r) = on_txm broadcastLoop_returns (on_txm confirmLoop_returns r) \<and>
    ph (rl_sm r') = Stopped \<and> loops_done r'"
  using once_laws.close_finishes [OF assms] by blast

theorem relayer_close_returns_witness:
  "\<exists>r'. relayer_step ref_once (on_txm confirmLoop_returns (on_txm broadcastLoop_returns sample_relayer)) CloseReturns r' \<and>
    rl_sm r' = Stopped \<and> loops_done r'"
proof -
  have "rl_waiting sample_relayer"
    by (simp add: sample_relayer_def once_defs ref_once_def NewRelayer_def newChain_life_def NewTxm_life_def)
  from relayer_close_returns [OF once.once_laws_axioms sample_relayer_reach this] show ?thesis by blast
qed

text \<open>A sequence of \<open>Start\<close> and \<open>Close\<close> calls on a provider with their outcomes, and the ones that are accepted.\<close>

datatype provider_call = StartProvider | CloseProvider

fun provider_run :: "'s OnceLib \<Rightarrow> provider_call list \<Rightarrow> ('ca, 'rep, 'ctx, 'c, 's) Provider \<Rightarrow> ('ca, 'rep, 'ctx, 'c, 's) Provider \<times> outcome list" where
  "provider_run M [] p = (p, [])"
| "provider_run M (StartProvider # calls) p =
     (let (p', err) = Provider_Start M p; (q, outs) = provider_run M calls p' in (q, Returned err # outs))"
| "provider_run M (CloseProvider # calls) p =
     (let (p', out) = Provider_Close M p; (q, outs) = provider_run M calls p' in (q, out # outs))"

text \<open>The first \<open>Start\<close> and the first \<open>Close\<close> after it.\<close>

fun accepted :: "phase \<Rightarrow> provider_call list \<Rightarrow> bool list" where
  "accepted ph [] = []"
| "accepted ph (StartProvider # calls) = (ph = Unstarted) # accepted (if ph = Unstarted then Started else ph) calls"
| "accepted ph (CloseProvider # calls) = (ph = Started) # accepted (if ph = Started then Stopped else ph) calls"

definition outcome_ok :: "bool \<Rightarrow> outcome \<Rightarrow> bool" where
  "outcome_ok ok out = (case out of Waiting \<Rightarrow> False | Returned None \<Rightarrow> ok | Returned (Some e) \<Rightarrow> \<not> ok \<and> \<not> is_panic e)"

context once_laws
begin

lemma provider_start:
  "Provider_Start M p = (if phase_of (cp_sm p) = Unstarted then (p\<lparr>cp_sm := o_after_start M (cp_sm p) None\<rparr>, None)
     else (p, o_start_refused M (cp_sm p) ''TONCCIPProvider''))"
  using start_refused [of "cp_sm p" "''TONCCIPProvider''"] by (auto simp: Provider_Start_def StartOnce_def split: option.splits)

lemma provider_close:
  "Provider_Close M p = (if phase_of (cp_sm p) = Started then (p\<lparr>cp_sm := o_after_stop M (o_stopping M (cp_sm p)) None\<rparr>, Returned None)
     else (p, Returned (o_stop_refused M (cp_sm p) ''TONCCIPProvider'')))"
  using stop_refused [of "cp_sm p" "''TONCCIPProvider''"] by (auto simp: Provider_Close_def StopOnce_def split: option.splits)

lemma provider_run_keeps:
  "cp_ca (fst (provider_run M calls p)) = cp_ca p \<and> cp_ct (fst (provider_run M calls p)) = cp_ct p \<and>
   list_all2 outcome_ok (accepted (phase_of (cp_sm p)) calls) (snd (provider_run M calls p))"
proof (induction calls arbitrary: p)
  case (Cons c calls)
  show ?case
  proof (cases c)
    case StartProvider
    then show ?thesis
      using Cons [of "fst (Provider_Start M p)"] start_refused [of "cp_sm p" "''TONCCIPProvider''"] start_error [of "cp_sm p" "''TONCCIPProvider''"]
      by (auto simp: provider_start outcome_ok_def after_start split_beta Let_def split: if_splits option.splits)
  next
    case CloseProvider
    then show ?thesis
      using Cons [of "fst (Provider_Close M p)"] stop_refused [of "cp_sm p" "''TONCCIPProvider''"] stop_error [of "cp_sm p" "''TONCCIPProvider''"]
      by (auto simp: provider_close outcome_ok_def after_stop split_beta Let_def split: if_splits option.splits)
  qed
qed simp_all

end

text \<open>
  C36: A flaw: the provider that \<open>NewCCIPProvider\<close> returns can be started and stopped but does nothing. Over any sequence of
  calls of \<open>Start\<close> and \<open>Close\<close>, the first \<open>Start\<close> and the first \<open>Close\<close> after it return without an error, every other call
  returns an error, and none waits or panics. After any such sequence the chain accessor is still nil, and the transmitter panics on
  every report with at most 32 signatures (and refuses one with more).
\<close>

theorem NewCCIPProvider_inert:
  assumes "once_laws M phase_of" "NewCCIPProvider M txm_nil lggr_nil = Inr p" "provider_run M calls p = (q, outs)"
  shows "list_all2 outcome_ok (accepted Unstarted calls) outs \<and> ChainAccessor q = None \<and>
    (if length sigs \<le> 32 then \<exists>m. Transmit A FromTON cfg env now1 now2 (ContractTransmitter q) digest seqNr report sigs t = Inl (Panic m)
     else \<exists>m. Transmit A FromTON cfg env now1 now2 (ContractTransmitter q) digest seqNr report sigs t = Inl (Err m))"
proof -
  from assms(2) obtain ct where ct: "NewCCIPTransmitter txm_nil lggr_nil = Inr ct" "p = \<lparr>cp_ca = None, cp_ct = ct, cp_sm = o_new M\<rparr>"
    by (auto simp: NewCCIPProvider_def)
  have "list_all2 outcome_ok (accepted Unstarted calls) outs \<and> ChainAccessor q = None \<and> ContractTransmitter q = ct"
    using once_laws.provider_run_keeps [OF assms(1), of calls p] assms(3) ct(2) once_laws.new [OF assms(1)]
    by (simp add: ChainAccessor_def ContractTransmitter_def)
  with NewCCIPTransmitter_panics [OF ct(1), of sigs A FromTON cfg env now1 now2 digest seqNr report t] show ?thesis by simp
qed

theorem NewCCIPProvider_inert_witness:
  "\<exists>(p :: (nat, nat, nat, nat, phase) Provider) q m e f.
    NewCCIPProvider ref_once False False = Inr p \<and>
    provider_run ref_once [CloseProvider, StartProvider, StartProvider, CloseProvider] p =
      (q, [Returned (Some e), Returned None, Returned (Some f), Returned None]) \<and> ChainAccessor q = None \<and>
    Transmit sample_addrs (\<lambda>s. Inr 5) DefaultTxmConfig sample_env 0 0 (ContractTransmitter q) [] 7 0 [replicate 96 1] NewTxm = Inl (Panic m)"
proof -
  let ?calls = "[CloseProvider, StartProvider, StartProvider, CloseProvider]"
  obtain p :: "(nat, nat, nat, nat, phase) Provider" where p: "NewCCIPProvider ref_once False False = Inr p" "cp_sm p = Unstarted"
    by (simp add: NewCCIPProvider_def NewCCIPTransmitter_def ref_once_def)
  obtain q e f where run: "provider_run ref_once ?calls p = (q, [Returned (Some e), Returned None, Returned (Some f), Returned None])"
    using p(2) by (simp add: once.provider_start once.provider_close) (simp add: ref_once_def)
  from NewCCIPProvider_inert [OF once.once_laws_axioms p(1) run, of "[replicate 96 1]" sample_addrs "\<lambda>s. Inr 5" DefaultTxmConfig sample_env 0 0 "[]" 7 0 NewTxm]
    p(1) run show ?thesis by auto
qed

end
