(* ===== verification/Plugin.thy ===== *)
theory Plugin
  imports Lifecycle
begin

text \<open>
  The entry point of the plugin (\<open>cmd/chainlink-ton/main.go\<close>), which makes a relayer from a configuration text, and
  the chain accessor (\<open>pkg/ccip/chainaccessor/ton_accessor.go\<close>), whose methods are not implemented yet. Serving the
  plugin over gRPC belongs to the plugin library.
\<close>

section \<open>The chain accessor\<close>

record ('cl, 'lp) TONAccessor =
  ta_client :: 'cl
  ta_logPoller :: 'lp

definition NewTONAccessor :: "'cl \<Rightarrow> 'lp \<Rightarrow> 'codec \<Rightarrow> ('cl, 'lp) TONAccessor res" where
  "NewTONAccessor client logPoller addrCodec = Inr \<lparr>ta_client = client, ta_logPoller = logPoller\<rparr>"

definition not_implemented :: "'x res" where
  "not_implemented = Inl (Err ''not implemented'')"

definition GetContractAddress :: "('cl, 'lp) TONAccessor \<Rightarrow> string \<Rightarrow> bytes res" where
  "GetContractAddress acc contractName = not_implemented"

definition GetAllConfigLegacySnapshot :: "('cl, 'lp) TONAccessor \<Rightarrow> 'snapshot res" where
  "GetAllConfigLegacySnapshot acc = not_implemented"

definition GetChainFeeComponents :: "('cl, 'lp) TONAccessor \<Rightarrow> 'fees res" where
  "GetChainFeeComponents acc = not_implemented"

definition Sync :: "('cl, 'lp) TONAccessor \<Rightarrow> string \<Rightarrow> bytes \<Rightarrow> unit res" where
  "Sync acc contractName contractAddress = not_implemented"

definition MsgsBetweenSeqNums :: "('cl, 'lp) TONAccessor \<Rightarrow> u64 \<Rightarrow> u64 \<times> u64 \<Rightarrow> ('msg list) res" where
  "MsgsBetweenSeqNums acc dest seqNumRange = not_implemented"

definition LatestMessageTo :: "('cl, 'lp) TONAccessor \<Rightarrow> u64 \<Rightarrow> u64 res" where
  "LatestMessageTo acc dest = not_implemented"

definition GetExpectedNextSequenceNumber :: "('cl, 'lp) TONAccessor \<Rightarrow> u64 \<Rightarrow> u64 res" where
  "GetExpectedNextSequenceNumber acc dest = not_implemented"

definition GetTokenPriceUSD :: "('cl, 'lp) TONAccessor \<Rightarrow> bytes \<Rightarrow> 'price res" where
  "GetTokenPriceUSD acc address = not_implemented"

definition GetFeeQuoterDestChainConfig :: "('cl, 'lp) TONAccessor \<Rightarrow> u64 \<Rightarrow> 'fqcfg res" where
  "GetFeeQuoterDestChainConfig acc dest = not_implemented"

definition CommitReportsGTETimestamp :: "('cl, 'lp) TONAccessor \<Rightarrow> int \<Rightarrow> string \<Rightarrow> int \<Rightarrow> ('report list) res" where
  "CommitReportsGTETimestamp acc ts confidence limit = not_implemented"

definition ExecutedMessages :: "('cl, 'lp) TONAccessor \<Rightarrow> (u64, (u64 \<times> u64) list) gomap \<Rightarrow> string \<Rightarrow> (u64, u64 list) gomap res" where
  "ExecutedMessages acc ranges confidence = not_implemented"

definition NextSeqNum :: "('cl, 'lp) TONAccessor \<Rightarrow> u64 list \<Rightarrow> (u64, u64) gomap res" where
  "NextSeqNum acc sources = not_implemented"

definition Nonces :: "('cl, 'lp) TONAccessor \<Rightarrow> (u64, string list) gomap \<Rightarrow> (u64, (string, u64) gomap) gomap res" where
  "Nonces acc addresses = not_implemented"

definition GetLatestPriceSeqNr :: "('cl, 'lp) TONAccessor \<Rightarrow> u64 res" where
  "GetLatestPriceSeqNr acc = not_implemented"

definition GetRMNCurseInfo :: "('cl, 'lp) TONAccessor \<Rightarrow> 'curse res" where
  "GetRMNCurseInfo acc = not_implemented"

text \<open>A nil map.\<close>

definition GetChainFeePriceUpdate :: "('cl, 'lp) TONAccessor \<Rightarrow> u64 list \<Rightarrow> (u64, 'price) gomap" where
  "GetChainFeePriceUpdate acc selectors = []"

section \<open>The plugin\<close>

datatype plugin_error = ReadConfigs toml_error | CreateChain gerr

text \<open>\<open>subs\<close> are the services that the plugin has to close; a relayer is registered there before it is returned.\<close>

definition plugin_NewRelayer ::
  "'s OnceLib \<Rightarrow> ('g, 'u, 'blk) LiteEnv \<Rightarrow> Chance \<Rightarrow> ('u \<Rightarrow> bytes \<Rightarrow> 'w res) \<Rightarrow> (string \<Rightarrow> (node_heap \<times> TOMLConfig) res) \<Rightarrow>
     string \<Rightarrow> string list res \<Rightarrow> 's RelayerLife list \<Rightarrow> 's RelayerLife list \<times> (plugin_error + 's RelayerLife)" where
  "plugin_NewRelayer M L r FromSigner decode rawConfig loopKs subs = (case NewDecodedTOMLConfig decode rawConfig of
       Inl err \<Rightarrow> (subs, Inl (ReadConfigs err))
     | Inr (h, cfg) \<Rightarrow> (case wrapE ''failed to create TON chain''
           (NewChain L r loopKs FromSigner h cfg :: ('u chain \<times> 'w \<times> (unit, unit) TxmState) res) of
         Inl err \<Rightarrow> (subs, Inl (CreateChain err))
       | Inr _ \<Rightarrow> (let relayer = NewRelayer M (Some (newChain_life M)) in (subs @ [relayer], Inr relayer))))"

lemma NewChain_panics:
  assumes "ks = Inr accounts" "accounts \<noteq> []" "IsEnabled cfg" "okE (ParseInt 8 (ChainID cfg))"
    and "\<forall>p \<in> set (Nodes cfg). node_ok (h p)" "mset (Perm r) = mset [0..<length (Nodes cfg)]" "i < length (Nodes cfg)"
    and "healthy L \<lparr>ch_id = ChainID cfg, ch_cfg = cfg, ch_heap = h, ch_clientCache = None\<rparr> i"
  shows "\<exists>m. (NewChain L r ks FromSigner h cfg :: ('u chain \<times> 'w \<times> ('a, 'c) TxmState) res) = Inl (Panic m)"
proof -
  let ?ch = "\<lparr>ch_id = ChainID cfg, ch_cfg = cfg, ch_heap = h, ch_clientCache = None\<rparr>"
  have "set (Perm r) = {0..<length (Nodes cfg)}" using assms(6) by (metis set_mset_mset set_upt)
  with assms(5,7,8) have "\<forall>j \<in> set (Perm r). node_ok (ch_heap ?ch (Nodes (ch_cfg ?ch) ! j))" "\<exists>j \<in> set (Perm r). healthy L ?ch j"
    by auto
  from get_client_loop_panics [OF this(1) _ this(2), of r None]
  obtain c e where "get_client_loop L r (Perm r) None ?ch = (c, Inl e)" "is_panic e" by auto
  moreover obtain k where "ParseInt 8 (ChainID cfg) = Inr k" using assms(4) by (auto simp: okE_iff)
  ultimately show ?thesis
    using assms(1-3,7) by (cases e) (auto simp: NewChain_def newChain_def GetClient_def Let_def wrapE_def)
qed

text \<open>
  C38: A flaw: the plugin never gets a relayer. Whatever the configuration and the nodes, \<open>NewRelayer\<close> fails and
  registers nothing; and where nothing is wrong (the configuration is read, the key store has an account, the
  chain id is of eight bits, and a node can be reached and is of the configured network) the plugin panics, since the
  chain stores the new client in a map that was never made.
\<close>

theorem plugin_NewRelayer_fails:
  fixes L :: "('g, 'u, 'blk) LiteEnv" and FromSigner :: "'u \<Rightarrow> bytes \<Rightarrow> 'w res"
  assumes "plugin_NewRelayer M L r FromSigner decode raw ks subs = (subs', res)"
  shows "subs' = subs \<and> (\<exists>e. res = Inl e) \<and>
    (\<forall>h cfg i. NewDecodedTOMLConfig decode raw = Inr (h, cfg) \<longrightarrow> okE ks \<longrightarrow> projr ks \<noteq> [] \<longrightarrow> okE (ParseInt 8 (ChainID cfg)) \<longrightarrow>
      mset (Perm r) = mset [0..<length (Nodes cfg)] \<longrightarrow> i < length (Nodes cfg) \<longrightarrow>
      healthy L \<lparr>ch_id = ChainID cfg, ch_cfg = cfg, ch_heap = h, ch_clientCache = None\<rparr> i \<longrightarrow> (\<exists>m. res = Inl (CreateChain (Panic m))))"
proof (cases "NewDecodedTOMLConfig decode raw")
  case (Inl e)
  with assms show ?thesis by (auto simp: plugin_NewRelayer_def)
next
  case (Inr c)
  obtain h cfg where c: "NewDecodedTOMLConfig decode raw = Inr (h, cfg)" using Inr by (cases c) auto
  obtain e where e: "(NewChain L r ks FromSigner h cfg :: ('u chain \<times> 'w \<times> (unit, unit) TxmState) res) = Inl e"
    using NewChain_never_returns by blast
  have res: "subs' = subs" "res = Inl (CreateChain (if is_panic e then e else Wrap ''failed to create TON chain'' e))"
    using assms by (simp_all add: plugin_NewRelayer_def c e wrapE_def)
  from NewDecodedTOMLConfig_complete [OF c] have "IsEnabled cfg" "\<forall>p \<in> set (Nodes cfg). node_ok (h p)" by blast+
  note panics = NewChain_panics [OF _ _ this(1) _ this(2), of ks _ r _ L FromSigner, where 'c = unit and 'a = unit]
  have "\<exists>m. res = Inl (CreateChain (Panic m))" if "okE ks" "projr ks \<noteq> []" "okE (ParseInt 8 (ChainID cfg))"
    "mset (Perm r) = mset [0..<length (Nodes cfg)]" "i < length (Nodes cfg)"
    "healthy L \<lparr>ch_id = ChainID cfg, ch_cfg = cfg, ch_heap = h, ch_clientCache = None\<rparr> i" for i
  proof -
    from that(1) obtain accounts where ks: "ks = Inr accounts" unfolding okE_iff by blast
    with that(2) have "accounts \<noteq> []" by simp
    from panics [OF ks this that(3-6)] e obtain m where "e = Panic m" by auto
    with res(2) show ?thesis by simp
  qed
  with res c show ?thesis by simp
qed

theorem plugin_NewRelayer_fails_witness:
  "\<exists>m. plugin_NewRelayer ref_once sample_lite sample_chance (\<lambda>u k. Inr ()) (\<lambda>raw. Inr (sample_heap, sample_cfg)) ''raw'' (Inr [''ab'']) [] =
     ([], Inl (CreateChain (Panic m)))"
proof -
  let ?P = "plugin_NewRelayer ref_once sample_lite sample_chance (\<lambda>u k. Inr ()) (\<lambda>raw. Inr (sample_heap, sample_cfg)) ''raw'' (Inr [''ab'']) []"
  have d: "NewDecodedTOMLConfig (\<lambda>raw. Inr (sample_heap, sample_cfg)) ''raw'' = Inr (sample_heap, SetDefaults sample_cfg)"
    by (simp add: NewDecodedTOMLConfig_def TOML_ValidateConfig_iff node_ok_def sample_heap_def sample_cfg_def IsEnabled_def)
  have defaults: "ChainID (SetDefaults sample_cfg) = ''3''" "Nodes (SetDefaults sample_cfg) = [0, 1]"
    by (simp_all add: SetDefaults_def sample_cfg_def Let_def)
  have "ParseInt 8 ''3'' = Inr 3" using ParseInt_show [of 8 3] by (simp add: sample_shows)
  moreover have "healthy sample_lite \<lparr>ch_id = ''3'', ch_cfg = SetDefaults sample_cfg, ch_heap = sample_heap, ch_clientCache = None\<rparr> 0"
    by (simp add: healthy_def defaults sample_heap_def sample_lite_def sample_shows)
  ultimately have "\<exists>m. snd ?P = Inl (CreateChain (Panic m))"
    using plugin_NewRelayer_fails [OF prod.collapse [symmetric, of ?P], THEN conjunct2, THEN conjunct2, rule_format, OF d, of 0]
    by (simp add: defaults sample_chance_def)
  moreover have "fst ?P = []" using plugin_NewRelayer_fails [OF prod.collapse [symmetric, of ?P]] by simp
  ultimately show ?thesis by (metis prod.collapse)
qed

end
