(* ===== verification/Wallet_Version.thy ===== *)
theory Wallet_Version
  imports Prelude
begin

text \<open>
  The query identifiers of the high-load wallets: the relayer's (\<open>pkg/ton/config/config.go\<close>) and that of the
  integration tests (\<open>integration-tests/utils/chain.go\<close>). A wallet of this kind takes an identifier of 23 bits and
  the creation time of a message; both builders derive the identifier from the clock, thirty seconds back.
  \<open>now\<close> is the Unix time.
\<close>

text \<open>Go's \<open>%\<close>, whose result has the sign of the dividend.\<close>

definition go_rem :: "int \<Rightarrow> int \<Rightarrow> int" where
  "go_rem a b = sgn a * (\<bar>a\<bar> mod \<bar>b\<bar>)"

definition MessageTTL :: nat where
  "MessageTTL = 120"

definition MessageBuilder :: "int \<Rightarrow> (u32 \<times> int) res" where
  "MessageBuilder now = (let tm = now - 30 in Inr (word_of_int (10000 + go_rem tm (2 ^ 23)), tm))"

definition test_MessageBuilder :: "int \<Rightarrow> (u32 \<times> int) res" where
  "test_MessageBuilder now = (let createdAt = now - 30 in Inr (word_of_int (go_rem createdAt (2 ^ 23)), createdAt))"

lemma go_rem_pos: "0 \<le> a \<Longrightarrow> 0 < b \<Longrightarrow> go_rem a b = a mod b"
  by (cases "a = 0") (simp_all add: go_rem_def)

lemma go_rem_bounds: "0 \<le> a \<Longrightarrow> 0 \<le> go_rem a (2 ^ 23) \<and> go_rem a (2 ^ 23) < 2 ^ 23"
  by (simp add: go_rem_pos)

lemma MessageBuilder_id:
  assumes "30 \<le> now"
  shows "\<exists>i. MessageBuilder now = Inr (i, now - 30) \<and> uint i = 10000 + (now - 30) mod 2 ^ 23"
    "\<exists>i. test_MessageBuilder now = Inr (i, now - 30) \<and> uint i = (now - 30) mod 2 ^ 23"
proof -
  have b: "0 \<le> (now - 30) mod 2 ^ 23" "(now - 30) mod 2 ^ 23 < (2 :: int) ^ 23" by simp_all
  then have "uint (word_of_int (10000 + (now - 30) mod 2 ^ 23) :: u32) = 10000 + (now - 30) mod 2 ^ 23"
    "uint (word_of_int ((now - 30) mod 2 ^ 23) :: u32) = (now - 30) mod 2 ^ 23"
    by (simp_all only: uint_word_of_int) (simp_all add: mod_pos_pos_trivial)
  with assms show "\<exists>i. MessageBuilder now = Inr (i, now - 30) \<and> uint i = 10000 + (now - 30) mod 2 ^ 23"
    "\<exists>i. test_MessageBuilder now = Inr (i, now - 30) \<and> uint i = (now - 30) mod 2 ^ 23"
    by (simp_all add: MessageBuilder_def test_MessageBuilder_def go_rem_pos Let_def del: uint_word_of_int_eq)
qed

section \<open>Properties\<close>

text \<open>
  C39: A flaw: the query identifiers of the relayer's wallet leave their range. The builder adds 10000 after the
  reduction modulo \<open>2 ^ 23\<close>, so that for the last 10000 seconds of every period of \<open>2 ^ 23\<close> seconds the
  identifier is \<open>2 ^ 23\<close> or more, and at all other times below. The builder of the tests always stays below. Two
  times get the same identifier from the relayer's builder exactly when they are a multiple of \<open>2 ^ 23\<close> seconds
  apart.
\<close>

theorem MessageBuilder_bounds:
  assumes "30 \<le> now" "30 \<le> now'"
  shows "\<exists>i i' j. MessageBuilder now = Inr (i, now - 30) \<and> MessageBuilder now' = Inr (i', now' - 30) \<and>
    test_MessageBuilder now = Inr (j, now - 30) \<and>
    (uint i < 2 ^ 23 \<longleftrightarrow> (now - 30) mod 2 ^ 23 < 2 ^ 23 - 10000) \<and> uint j < 2 ^ 23 \<and>
    (i = i' \<longleftrightarrow> (now - now') mod 2 ^ 23 = 0)"
proof -
  from MessageBuilder_id [OF assms(1)] obtain i j where
    i: "MessageBuilder now = Inr (i, now - 30)" "uint i = 10000 + (now - 30) mod 2 ^ 23" and
    j: "test_MessageBuilder now = Inr (j, now - 30)" "uint j = (now - 30) mod 2 ^ 23" by blast
  from MessageBuilder_id(1) [OF assms(2)] obtain i' where
    i': "MessageBuilder now' = Inr (i', now' - 30)" "uint i' = 10000 + (now' - 30) mod 2 ^ 23" by blast
  have "i = i' \<longleftrightarrow> uint i = uint i'" by (simp add: word_uint_eq_iff)
  also have "\<dots> \<longleftrightarrow> (now - 30) mod 2 ^ 23 = (now' - 30) mod 2 ^ 23" by (simp only: i(2) i'(2) add_left_cancel)
  also have "\<dots> \<longleftrightarrow> (now - now') mod 2 ^ 23 = 0" by (simp only: mod_eq_dvd_iff dvd_eq_mod_eq_0) simp
  finally have same: "i = i' \<longleftrightarrow> (now - now') mod 2 ^ 23 = 0" .
  have "uint i < 2 ^ 23 \<longleftrightarrow> (now - 30) mod 2 ^ 23 < 2 ^ 23 - 10000" by (simp only: i(2)) linarith
  moreover have "uint j < 2 ^ 23" by (simp add: j(2))
  ultimately show ?thesis using i(1) i'(1) j(1) same by metis
qed

theorem MessageBuilder_bounds_witness:
  "(\<exists>i. MessageBuilder 1803550636 = Inr (i, 1803550606) \<and> \<not> uint i < 2 ^ 23) \<and>
   (\<exists>i. MessageBuilder 1700000000 = Inr (i, 1699999970) \<and> uint i < 2 ^ 23)"
  using MessageBuilder_bounds [of 1803550636 0] MessageBuilder_bounds [of 1803550636 1700000000] MessageBuilder_bounds [of 1700000000 1803550636]
  by auto

end
