(* ===== verification/Spec2Isabelle.thy ===== *)
theory Spec2Isabelle
  imports Log_Poller Pretty_Print Async_Wrappers Event_Emitter Plugin Wallet_Version
begin

text \<open>
  A verification library for chainlink-ton, the Chainlink relayer for the TON blockchain (Go, under
  \<open>src/pkg\<close>).

  \<^bold>\<open>The program.\<close> The relayer connects Chainlink nodes to TON. It sends transactions through a manager that
  retries, tracks and classifies them by following the messages they cause; it polls the masterchain for the
  events of contracts and answers queries over them; and it encodes and decodes the reports of the
  cross-chain protocol as TON cells. The parts interact as follows. A \<^emph>\<open>chain\<close> (\<open>relay/chain.go\<close>) owns the
  clients of the configured nodes and a \<^emph>\<open>transaction manager\<close> (\<open>txm\<close>). The \<^emph>\<open>TON service\<close>
  (\<open>relay/service.go\<close>) and the \<^emph>\<open>CCIP transmitter\<close> (\<open>ccip/ocr\<close>) put requests into the manager's channel. The
  manager's broadcast loop sends them with the \<^emph>\<open>signed client\<close>, records the resulting message in the
  \<^emph>\<open>transaction store\<close> of the sender, and its confirmation loop waits for the whole \<^emph>\<open>trace\<close> of each
  recorded message, whose outcome decides between success and failure. The \<^emph>\<open>log poller\<close> asks the
  \<^emph>\<open>log collector\<close> for the external messages of the watched addresses in a range of blocks, matches them
  with the \<^emph>\<open>filters\<close> and saves them in the \<^emph>\<open>log store\<close>, over which the \<^emph>\<open>query engine\<close> runs. The \<^emph>\<open>relayer\<close>
  (\<open>relay/relay.go\<close>), which the plugin binary makes from a configuration, starts and stops the chain and its
  manager. The \<^emph>\<open>bindings\<close> declare the messages, events and storage of the contracts as structs with
  TL-B tags, and wrap the contracts that the tests drive.

  \<^bold>\<open>Conventions (theory Prelude).\<close> Go integers are words of their width where they can wrap, errors are
  values of \<open>gerr\<close> in a sum, and a panic is an error that no error branch intercepts. Stateful operations take the
  state and return it, with whatever part of it they changed before an error. Go maps are association
  lists with unique keys, and the order in which a \<open>range\<close> loop visits one is an argument that may be any
  permutation (locale \<open>go_range\<close>); \<open>sort.Slice\<close> is any function that sorts (locale \<open>go_sort\<close>). Loops that
  may not end are \<open>partial_function (option)\<close>, with \<open>None\<close> for not returning; no definition uses fuel. Clocks,
  random permutations and the answers of the network are arguments.

  \<^bold>\<open>Theories.\<close>
  \<^item> \<open>Exit_Codes\<close>: \<open>ton/tvm/exit_codes.go\<close>, the exit codes of the virtual machine and their descriptions, which
    are injective.
  \<^item> \<open>Trace\<close>: \<open>ton/tracetracking/message.go\<close>. A transaction becomes a received message with its fees and outgoing
    messages (\<open>MapToReceivedMessage\<close>); \<open>WaitForTrace\<close> follows the messages breadth first, and its result has the message
    as the call leaves it beside the error, since the code changes it in place. A subscription never closes: waiting for
    a message that no transaction receives does not return (\<open>None\<close>). A trace returned without an error
    is finalized and has no missing child; the call returns whenever every message is received and the chains of
    messages are finite (\<open>cascades\<close>); the outcome functions agree with a search over all messages.
  \<^item> \<open>Pretty_Print\<close>: \<open>ton/tracetracking/pretty_print.go\<close>, the dump of a trace, which has a line for every message.
  \<^item> \<open>Api_Client\<close>: \<open>ton/tracetracking/signed_api_client.go\<close> and \<open>ton/wrappers/contract.go\<close>. Sending and waiting
    ends when the messages are received and yields finalized traces, a deployment that succeeds sent one message that was received,
    subscriptions deliver every readable message once and in order, the numeric getters and the two
    formats of compiled contracts.
  \<^item> \<open>Tx_Store\<close>: \<open>txm/txstore.go\<close>. The store refines an abstract ledger of pending and final
    transactions (locale \<open>tx_ledger\<close>): nothing is lost, nothing is decided twice, and what is final stays final.
  \<^item> \<open>Txm\<close>: \<open>txm/txm.go\<close>. Enqueueing, broadcasting with retries, confirming and the status query, and an inductive
    relation of their interleavings, with an invariant over all reachable states, progress of the records
    and the verdict of the confirmation loop.
  \<^item> \<open>Log_Filters\<close>, \<open>Log_Query\<close>, \<open>Log_Collector\<close>, \<open>Log_Poller\<close>, \<open>Event_Topics\<close>: \<open>logpoller\<close>, \<open>ton/event\<close> and
    \<open>ton/hash\<close>. The registry answers with the registered filters as long as no two share an address and
    topic and addresses are registered and looked up in one printed form (locale \<open>keyed_registry\<close>), the byte queries compare as numbers, pages partition the matching
    logs, paging through an account's history is complete. The logs that polling should save are stated without its
    functions (\<open>emitted_logs\<close>): for every external message of a watched account in the blocks scanned, one log per
    registered filter on its source and the topic read from its destination. The polling loop saves exactly these, once, when
    the scans succeed, also if some ticks find no head, under conditions that the properties name: every external message
    of the accounts carries a topic, no filter has been silenced, and accounts go by one printed form; one
    external message without a topic stops it for good. Topics are
    CRC-32 values, equal to the polynomial definition.
  \<^item> \<open>Ton_Cell\<close>, \<open>Snake\<close>: the cell library of \<open>tonutils-go\<close> as the record \<open>CellLib\<close> with the laws
    \<open>cell_laws\<close> and an executable instance, and \<open>ccip/bindings/common/common.go\<close> over it: byte
    strings, arrays of values and arrays of references chained through cells read back as written. The laws put no limit on
    the depth of cells.
  \<^item> \<open>Address_Codec\<close>, \<open>Extra_Data_Codec\<close>, \<open>Execute_Codec\<close>, \<open>Commit_Codec\<close>: \<open>ccip/codec\<close> and
    \<open>ccip/bindings/ocr\<close>. What the encoders and decoders accept, and that decoding gives the report back up to the parts the
    format does not carry.
  \<^item> \<open>Tlb_Layout\<close>, \<open>Ocr_Wire\<close>: structs as lists of TL-B tags, with the documented encoding of the tags
    (\<open>struct_enc\<close>, \<open>struct_dec\<close>) and a static check under which every value fits and is read back; the structs of the
    reports, whose laws (\<open>exec_laws\<close>, \<open>commit_laws\<close>) follow from their tags, so that both codecs round-trip down to the
    cells. Only the TL-B functions on these structs are filled in (\<open>wire_exec\<close>, \<open>wire_commit\<close>): the address package, coins, the BOC
    format, map order and the source chain's codec of extra data stay parameters with laws (\<open>exec_wire_laws\<close>, \<open>commit_wire_laws\<close>).
  \<^item> \<open>Governance\<close>, \<open>Bindings\<close>: \<open>bindings\<close> and \<open>ccip/bindings\<close>. The modelled structs survive the wire but the batches of the
    timelock, no governance message is mistaken for another one that starts with an opcode, jetton wallets have their own initial
    data; the providers, paths and getters of the examples.
  \<^item> \<open>Async_Wrappers\<close>, \<open>Event_Emitter\<close>: under \<open>integration-tests\<close>, the wrappers of the asynchronous examples, whose
    messages arrive as sent with finalized traces, and the event source of the log poller tests, a state machine with
    a mutex in which \<open>Stop\<close> can hang.
  \<^item> \<open>Relay_Config\<close>, \<open>Relay_Chain\<close>, \<open>Relay_Service\<close>: \<open>config\<close>, \<open>relay/chain.go\<close>, \<open>relay/service.go\<close> and
    \<open>ccip/ocr/contract_transmitter.go\<close>. Clients belong to the configured network, a healthy node is found,
    and the two senders enqueue exactly one transaction with the given contents. Two of these are contracts of methods
    whose state no constructor of the repository prepares: the client cache is never made and the functions of the
    transmitter are never set.
  \<^item> \<open>Lifecycle\<close>, \<open>Plugin\<close>, \<open>Wallet_Version\<close>: \<open>relay/relay.go\<close>, \<open>ccip/provider\<close>, \<open>ccip/chainaccessor\<close>, \<open>cmd\<close> and
    \<open>ton/config\<close>. Starting and stopping as a step relation, with \<open>Close\<close> cut at its wait for the loops: an invariant
    over all interleavings, and a \<open>Close\<close> that waits returns. The plugin never gets a relayer, the provider does
    nothing, and the wallet's query identifiers leave their range.

  \<^bold>\<open>Code outside the repository.\<close> The TON data types of \<open>tonutils-go\<close> are records of the fields the program
  reads. Its cell, address and TL-B functions are records of functions with their documented behaviour in
  the locales \<open>cell_laws\<close>, \<open>addr_laws\<close>, \<open>tlb_laws\<close>, \<open>exec_laws\<close>, \<open>commit_laws\<close>, \<open>exec_wire_laws\<close> and \<open>commit_wire_laws\<close>, each interpreted on an executable
  library, so that the witnesses of the theorems run. The service library's state machines are the record
  \<open>OnceLib\<close> with the laws \<open>once_laws\<close>. The lite client, wallet and keystore are arguments.

  \<^bold>\<open>Not modelled.\<close> Logging and metrics are left out, and so are mutexes where every operation that takes the
  lock is one step. \<open>main\<close> serves the plugin over gRPC, which is the work of the plugin library. \<open>InternalTransferMessage\<close> of
  the jetton bindings has a field with the tag \<open>either . ^\<close>: how the TL-B library chooses between the two forms is not
  in the sources; with it goes \<open>MintMessage\<close>, which contains it. \<open>Init\<close> of the timelock and \<open>SetConfig\<close> of the multisig
  have arrays of addresses and integers whose elements are encoded by \<open>tlb.ToCell\<close> of a type that is not a struct, which is
  not in the sources either. The client, fee estimator and chain reader packages are interfaces and placeholders. Funding test
  wallets (\<open>integration-tests/utils/chain.go\<close>, apart from the query identifiers), the test keystore and
  the generated mocks run against a network in a container or a test framework. The contracts themselves (Tolk,
  Tact) are not part of the Go implementation.
\<close>

section \<open>From a request to its verdict\<close>

text \<open>The status query reads the ledger of the sender.\<close>

lemma GetTxStatus_ledger:
  fixes t :: "('a, 'c) TxmState"
  assumes "accounts_ok (Accounts t)" "\<And>v. okE (from_nano v 9)"
    and "account_ledger (Accounts t) (addr_String env (wallet_Address env (Client_Wallet env))) lt = Some e"
  shows "snd (GetTxStatus env from_nano lt t) = Inr (case e of
     Pending \<Rightarrow> (TS_Pending, 0, None) | Done ok code \<Rightarrow> (if ok then TS_Finalized else TS_Failed, code, None))"
proof -
  let ?a = "addr_String env (wallet_Address env (Client_Wallet env))"
  obtain s c where get: "GetTxStore ?a (Accounts t) = (s, c)" by (cases "GetTxStore ?a (Accounts t)")
  from GetTxStore_ok [OF assms(1) this] assms(3) have led: "ledger s lt = Some e"
    by (metis account_ledger_def option.simps(5))
  have "okE (GetTxState from_nano lt s)"
    using assms(2) led by (auto simp: GetTxState_def okE_iff ledger_def split: option.splits sum.splits) (metis Inl_Inr_False)
  then obtain st ok code fees found where state: "GetTxState from_nano lt s = Inr (st, ok, code, fees, found)"
    by (auto simp: okE_iff)
  from ledger_GetTxState [OF state] led show ?thesis
    by (cases e) (auto simp: GetTxStatus_def GetTransactionStatus_def get state)
qed

text \<open>Broadcasting the transaction at the front of the channel files it as unconfirmed under its logical time.\<close>

lemma broadcast_iteration_files:
  fixes t :: "('a, 'c) TxmState"
  assumes ok: "accounts_ok (Accounts t)" and chan: "BroadcastChan t = tx # rest"
    and init: "t_StateInit tx = Some sc" "LoadStateInit env sc = Inr st"
    and send: "0 < MaxSendRetryAttempts cfg" "send (t_To tx) (wallet_message tx (Some st)) 1 = Inr m"
    and fresh: "account_ledger (Accounts t) (addr_String env (wallet_Address env (Client_Wallet env))) (rm_LamportTime (info m)) = None"
  shows "\<exists>t2 u. broadcast_iteration cfg env send stopped t = Inr t2 \<and> BroadcastChan t2 = rest \<and> accounts_ok (Accounts t2) \<and>
    u_LT u = rm_LamportTime (info m) \<and> t_ReceivedMessage (u_Tx u) = Some m \<and>
    pending_tx (Accounts t2) (addr_String env (wallet_Address env (Client_Wallet env))) u"
proof -
  let ?a = "addr_String env (wallet_Address env (Client_Wallet env))" and ?lt = "rm_LamportTime (info m)"
  let ?e = "?lt div 1000 + of_nat (SendRetryDelay cfg div 10 ^ 9)" and ?tx = "tx\<lparr>t_ReceivedMessage := Some m\<rparr>"
  let ?u = "\<lparr>u_LT = ?lt, u_ExpirationMs = ?e, u_Tx = ?tx\<rparr>"
  have loop: "send_loop (MaxSendRetryAttempts cfg) (send (t_To tx) (wallet_message tx (Some st))) stopped 1 None = Inr m"
    using send by (subst send_loop.simps) (simp add: Suc_le_eq)
  obtain s c where get: "GetTxStore ?a (Accounts t) = (s, c)" by (cases "GetTxStore ?a (Accounts t)")
  note st = GetTxStore_ok [OF ok get]
  with fresh have "ledger s ?lt = None" by (metis account_ledger_def option.simps(5))
  then have add: "AddUnconfirmed ?lt ?e ?tx s = Inr (s\<lparr>unconfirmedTxs := gput ?lt ?u (unconfirmedTxs s)\<rparr>)"
    by (auto simp: AddUnconfirmed_def ledger_def split: option.splits)
  let ?s = "s\<lparr>unconfirmedTxs := gput ?lt ?u (unconfirmedTxs s)\<rparr>"
  have b: "broadcastWithRetry cfg env (send (t_To tx) (wallet_message tx (Some st))) stopped tx (Accounts t) = (gput ?a ?s c, Inr ())"
    using loop get add by (simp add: broadcastWithRetry_def Let_def)
  with chan init have "broadcast_iteration cfg env send stopped t = Inr (t\<lparr>BroadcastChan := rest, Accounts := gput ?a ?s c\<rparr>)"
    by (simp add: broadcast_iteration_def Let_def)
  moreover have "accounts_ok (gput ?a ?s c)" using broadcastWithRetry_ok [OF ok b] by blast
  moreover have "pending_tx (gput ?a ?s c) ?a ?u" by (simp add: pending_tx_def update_conv')
  ultimately show ?thesis
    by (intro exI [of _ "t\<lparr>BroadcastChan := rest, Accounts := gput ?a ?s c\<rparr>"] exI [of _ ?u]) simp
qed

lemma pending_tx_ledger: "pending_tx c a u \<Longrightarrow> account_ledger c a (u_LT u) = Some Pending"
  by (auto simp: pending_tx_def account_ledger_def ledger_pending)

text \<open>
  C3: A message handed to \<open>SendTx\<close> ends with the verdict on its whole trace. If the manager is idle, the wallet answers
  the first attempt with a transaction of a new logical time, and its trace can be followed to its end,
  then the broadcast loop takes the message and reports it as pending; confirming it makes
  \<open>GetTxStatus\<close> answer finalized exactly when every message of the trace succeeded, and else failed with the
  exit code of the first message that did not; and whatever the manager does afterwards, the
  answer stays the same.
\<close>

theorem SendTx_verdict:
  fixes t :: "('a, 'c) TxmState"
  assumes idle: "txm_ok cfg t" "BroadcastChan t = []"
    and sent: "SendTx A from_boc from_ton cfg env now1 now2 msg t = Inr t1"
    and init: "\<And>c. from_boc (msg_StateInit msg) = Inr c \<Longrightarrow> okE (LoadStateInit env c)"
    and answer: "0 < MaxSendRetryAttempts cfg" "\<And>addr wm. send addr wm 1 = Inr m" "MapToReceivedMessage tx = Inr m"
    and fresh: "account_ledger (Accounts t) (addr_String env (wallet_Address env (Client_Wallet env))) (tx_LT tx) = None"
    and trace: "WaitForTrace (addr_Equals env) (SubscribeOn env) m = Some (m', Inr ())"
    and coins: "\<And>v. okE (from_nano v 9)"
  shows "\<exists>t2 u accounts. broadcast_iteration cfg env send stopped t1 = Inr t2 \<and> BroadcastChan t2 = [] \<and>
    snd (GetTxStatus env from_nano (tx_LT tx) t2) = Inr (TS_Pending, 0, None) \<and>
    pending_tx (Accounts t2) (addr_String env (wallet_Address env (Client_Wallet env))) u \<and> u_LT u = tx_LT tx \<and>
    confirm_one env (addr_String env (wallet_Address env (Client_Wallet env))) u (Accounts t2) = Some (Inr accounts) \<and>
    (\<forall>t3. (txm_step cfg env)\<^sup>*\<^sup>* (t2\<lparr>Accounts := accounts\<rparr>) t3 \<longrightarrow>
       snd (GetTxStatus env from_nano (tx_LT tx) t3) = Inr
         (if \<forall>n \<in> set (messages m'). rm_Success (info n) then TS_Finalized else TS_Failed,
          case find (\<lambda>n. \<not> rm_Success (info n)) (messages m') of None \<Rightarrow> ExitCodeSuccess | Some n \<Rightarrow> rm_ExitCode (info n), None))"
proof -
  let ?a = "addr_String env (wallet_Address env (Client_Wallet env))"
  from idle(1) have ok: "accounts_ok (Accounts t)" by (simp add: txm_ok_def)
  have lt: "rm_LamportTime (info m) = tx_LT tx" using answer(3) by (rule MapToReceivedMessage_LT)
  obtain x sc where x: "t1 = t\<lparr>BroadcastChan := [x]\<rparr>" "t_StateInit x = Some sc" "from_boc (msg_StateInit msg) = Inr sc"
    using sent idle(2) by (auto simp: SendTx_def dest!: EnqueueD)
  obtain st where st: "LoadStateInit env sc = Inr st" using init [OF x(3)] by (auto simp: okE_iff)
  from broadcast_iteration_files [where t = t1 and tx = x and send = send and rest = "[]" and stopped = stopped, OF _ _ x(2) st answer(1,2)] ok x(1) fresh lt
  obtain t2 u where t2: "broadcast_iteration cfg env send stopped t1 = Inr t2" "BroadcastChan t2 = []" "accounts_ok (Accounts t2)"
    and u: "u_LT u = tx_LT tx" "t_ReceivedMessage (u_Tx u) = Some m" "pending_tx (Accounts t2) ?a u" by auto
  have pend: "account_ledger (Accounts t2) ?a (tx_LT tx) = Some Pending" using pending_tx_ledger [OF u(3)] u(1) by simp
  obtain c where c: "confirm_one env ?a u (Accounts t2) = Some (Inr c)" "accounts_ok c"
    and led: "account_ledger c ?a (tx_LT tx) = Some (Done (trace_ok m') (trace_code m'))"
    using confirm_one_settled [OF t2(3) u(2) MapToReceivedMessage_recvs [OF answer(3)] trace, of ?a] pend u(1) by auto
  have t2_ok: "txm_ok cfg (t2\<lparr>Accounts := c\<rparr>)" using c(2) t2(2) by (simp add: txm_ok_def)
  have "snd (GetTxStatus env from_nano (tx_LT tx) t3) = Inr (if trace_ok m' then TS_Finalized else TS_Failed, trace_code m', None)"
    if steps: "(txm_step cfg env)\<^sup>*\<^sup>* (t2\<lparr>Accounts := c\<rparr>) t3" for t3
  proof -
    from txm_steps_ok [OF steps t2_ok, of ?a "tx_LT tx"] led
    have "accounts_ok (Accounts t3)" "account_ledger (Accounts t3) ?a (tx_LT tx) = Some (Done (trace_ok m') (trace_code m'))"
      by (simp_all add: txm_ok_def entry_le_def)
    from GetTxStatus_ledger [where from_nano = from_nano, OF this(1) coins this(2)] show ?thesis by simp
  qed
  moreover have "snd (GetTxStatus env from_nano (tx_LT tx) t2) = Inr (TS_Pending, 0, None)"
    using GetTxStatus_ledger [where from_nano = from_nano, OF t2(3) coins pend] by simp
  ultimately show ?thesis using t2 u c(1) unfolding trace_ok_def trace_code_def by blast
qed

theorem SendTx_verdict_witness:
  "\<exists>t1 t2 u accounts. SendTx sample_addrs sample_boc (\<lambda>s. Inr 5) DefaultTxmConfig Txm.sample_env 0 0 sample_ton_msg NewTxm = Inr t1 \<and>
    broadcast_iteration DefaultTxmConfig Txm.sample_env (\<lambda>addr wm i. Inr sample_msg) (\<lambda>i. False) t1 = Inr t2 \<and>
    snd (GetTxStatus Txm.sample_env (\<lambda>v n. Inr 0) 11 t2) = Inr (TS_Pending, 0, None) \<and>
    confirm_one Txm.sample_env ''1'' u (Accounts t2) = Some (Inr accounts) \<and>
    snd (GetTxStatus Txm.sample_env (\<lambda>v n. Inr 0) 11 (t2\<lparr>Accounts := accounts\<rparr>)) = Inr (TS_Finalized, 0, None)"
proof -
  obtain t1 where t1: "SendTx sample_addrs sample_boc (\<lambda>s. Inr 5) DefaultTxmConfig Txm.sample_env 0 0 sample_ton_msg NewTxm = Inr t1"
    by (simp add: SendTx_def sample_addrs_def sample_boc_def sample_ton_msg_def Enqueue_def PublicKeyHex_def Txm.sample_env_def NewTxm_def DefaultTxmConfig_def)
  let ?tx = "sample_tx 1 2 10 [MsgInternal (sample_internal 2 3 11)]"
  have m: "MapToReceivedMessage ?tx = Inr sample_msg" "tx_LT ?tx = 11" by (simp_all add: sample_msg_def sample_simps)
  obtain m' where m': "WaitForTrace (addr_Equals Txm.sample_env) (SubscribeOn Txm.sample_env) sample_msg = Some (m', Inr ())"
    "map (rm_Success \<circ> info) (messages m') = [True, True]"
    using sample_wait by (auto simp: Txm.sample_env_def)
  have idle: "txm_ok DefaultTxmConfig NewTxm" "BroadcastChan NewTxm = []" using txm_reachable_ok [OF txm_reachable.init] by (simp_all add: NewTxm_def)
  have fresh: "account_ledger (Accounts NewTxm) (addr_String Txm.sample_env (wallet_Address Txm.sample_env (Client_Wallet Txm.sample_env))) (tx_LT ?tx) = None"
    by (simp add: NewTxm_def NewAccountStore_def account_ledger_def)
  from m'(2) have ok: "\<forall>n \<in> set (messages m'). rm_Success (info n)" by (auto simp: map_eq_Cons_conv)
  then have "find (\<lambda>n. \<not> rm_Success (info n)) (messages m') = None" by (simp add: find_None_iff)
  moreover have "addr_String Txm.sample_env (wallet_Address Txm.sample_env (Client_Wallet Txm.sample_env)) = ''1''" by (simp add: Txm.sample_env_def)
  ultimately show ?thesis
    using SendTx_verdict [where send = "\<lambda>addr wm i. Inr sample_msg" and stopped = "\<lambda>i. False" and from_nano = "\<lambda>v n. Inr 0",
      OF idle t1 _ _ _ m(1) fresh m'(1)] t1 ok m(2)
    by (fastforce simp: Txm.sample_env_def DefaultTxmConfig_def)
qed

section \<open>From an emitted event to a query\<close>

lemma unstamped_fields [simp]:
  "log_Data (unstamped l) = log_Data l" "log_Topic (unstamped l) = log_Topic l" "log_Address (unstamped l) = log_Address l"
  by (simp_all add: unstamped_def)

text \<open>
  C4: A query finds every event, and only those. Let a poller with some filters, none silenced by the removal of another, poll
  honest nodes at any heights and in any order, and ask it, without limit and offset, for the logs of an address and topic whose
  payload satisfies some byte queries. Suppose that every external message with a body that a watched account has sent carries a
  topic, that filters and messages name an account in one printed form, that the saved bodies decode as cells whose remaining
  bits can be read, that the operators of the queries are the known ones, and that neither the number of logs nor a query's
  offset and length overflow. Then the answer holds, in the order asked for, exactly one log for every registered
  filter and every such message with the filter's topic that the filter's account has sent up to the highest
  block seen, and says that there are no more.
\<close>

theorem polled_events_queryable:
  fixes f :: "'a Filters" and from_boc :: "bytes \<Rightarrow> 'c res"
  assumes views: "\<forall>env' \<in> set envs. honest env' chain incl \<and> same_view env env'"
    and start: "lp = (NewLogPoller cfg)\<lparr>lp_filters := f\<rparr>" "pc_PageSize cfg > 0" "filters_wf f" "filtersByAddress f \<noteq> []"
      "\<forall>(s, ts) \<in> set (filtersByAddress f). s \<in> range (e_String env)" "\<And>s. incl s 0 = 0"
    and events: "all_indexed env f" "one_form env chain f" "topical env chain f"
    and head: "head = foldl seen 0 envs"
    and cells: "\<forall>l \<in># emitted_logs env chain incl f head. \<exists>c. from_boc (log_Data l) = Inr c \<and> rest_bits c = Inr (bits c) \<and> length (bits c) < 2 ^ 64"
    and srt: "go_sort sort_Slice"
    and small: "size (emitted_logs env chain incl f head) < 2 ^ 63"
    and queries: "\<forall>q \<in> set queries. unat (q_Offset q) + length (q_Value q) < 2 ^ 64 \<and> q_Operator q \<in> {EQ, NEQ, GT, GTE, LT, LTE}"
    and options: "qo_Limit options = 0" "qo_Offset options = 0"
  shows "\<exists>lp' logs. polls envs lp = Some lp' \<and>
    lp_FilteredLogs env sort_Slice from_boc rest_bits a topic queries options lp' =
      Inr \<lparr>qr_Logs = logs, qr_HasMore = False, qr_Total = length logs\<rparr> \<and>
    lt_sorted (qo_SortBy options) logs \<and>
    mset (map unstamped logs) = {#l \<in># emitted_logs env chain incl f head. log_Topic l = topic \<and> e_String env (log_Address l) = e_String env a \<and>
      (\<forall>q \<in> set queries. query_holds (bits (projr (from_boc (log_Data l)))) q)#}"
proof -
  obtain lp' where polled: "polls envs lp = Some lp'" "lp_lastProcessedSeqNo lp' = head"
    and store: "mset (map unstamped (lp_store lp')) = emitted_logs env chain incl f head"
    using polls_from_start [OF views start events] head by metis
  let ?payload = "\<lambda>log. bits (projr (from_boc (log_Data log)))"
  let ?P = "\<lambda>log. log_Topic log = topic \<and> e_String env (log_Address log) = e_String env a \<and> (\<forall>q \<in> set queries. query_holds (?payload log) q)"
  have cell: "\<exists>c. from_boc (log_Data log) = Inr c \<and> rest_bits c = Inr (bits c) \<and> length (bits c) < 2 ^ 64" if "log \<in> set (lp_store lp')" for log
  proof -
    from that have "unstamped log \<in># emitted_logs env chain incl f head" by (simp flip: store)
    with cells show ?thesis by force
  qed
  have len: "length (lp_store lp') < 2 ^ 63" using small by (simp flip: store)
  have parse: "\<forall>log \<in> set (lp_store lp'). log_Topic log = topic \<longrightarrow> e_String env (log_Address log) = e_String env a \<longrightarrow>
      (\<exists>c. from_boc (log_Data log) = Inr c \<and> rest_bits c = Inr (?payload log)) \<and> length (?payload log) < 2 ^ 64"
    using cell by fastforce
  obtain found where found: "mset found = mset (filter ?P (lp_store lp'))" "lt_sorted (qo_SortBy options) found"
    "FilteredLogs sort_Slice (e_String env) from_boc rest_bits (e_String env a) topic queries options (lp_store lp') =
      Inr \<lparr>qr_Logs = found, qr_HasMore = False, qr_Total = length found\<rparr>"
    using FilteredLogs_page [OF srt len parse queries, of options] options by (auto simp: page_def)
  have "mset (map unstamped found) = image_mset unstamped (filter_mset ?P (mset (lp_store lp')))"
    using found(1) by simp
  also have "\<dots> = filter_mset ?P (image_mset unstamped (mset (lp_store lp')))"
    by (simp add: filter_mset_image_mset comp_def)
  finally show ?thesis using polled(1) found(2,3) store by (auto simp: lp_FilteredLogs_def)
qed

text \<open>The sample history: of its four events three have a payload of at least two.\<close>

lemma sample_span_logs:
  "span_logs (Log_Poller.sample_env 0) Log_Poller.sample_chain sample_incl sample_filters 0 3 =
     mset (concat (map (\<lambda>t. concat (map (msg_logs (Log_Poller.sample_env 0) sample_filters) (tx_events t))) (sample_history ''x'' ''d'')))"
proof -
  have "sample_incl ''x'' 0 = 0" "sample_incl ''x'' 3 = 3" by (simp_all add: sample_incl_def)
  moreover have "take 3 (sample_history ''x'' ''d'') = sample_history ''x'' ''d''" by (simp add: sample_history_def)
  ultimately show ?thesis
    by (simp add: span_logs_def sample_filters_ok Log_Poller.sample_chain_def map_concat comp_def concat_concat_map)
qed

theorem polled_events_queryable_witness:
  "\<exists>lp' logs. polls [Log_Poller.sample_env 2, Log_Poller.sample_env 1, Log_Poller.sample_env 3] sample_lp = Some lp' \<and>
    lp_FilteredLogs (Log_Poller.sample_env 0) sort_by (\<lambda>bs. Inr (unat (hd bs))) (\<lambda>c. Inr [of_nat c]) ''x'' 5
      [\<lparr>q_Offset = 0, q_Operator = GTE, q_Value = [2]\<rparr>] \<lparr>qo_Limit = 0, qo_Offset = 0, qo_SortBy = []\<rparr> lp' =
      Inr \<lparr>qr_Logs = logs, qr_HasMore = False, qr_Total = length logs\<rparr> \<and>
    image_mset log_Data (mset logs) = {#[2], [3], [4]#}"
proof -
  let ?envs = "[Log_Poller.sample_env 2, Log_Poller.sample_env 1, Log_Poller.sample_env 3]" and ?env = "Log_Poller.sample_env 0"
  let ?span = "emitted_logs ?env Log_Poller.sample_chain sample_incl sample_filters 3"
  let ?q = "\<lparr>q_Offset = 0, q_Operator = GTE, q_Value = [2]\<rparr> :: CellQuery" and ?opts = "\<lparr>qo_Limit = 0, qo_Offset = 0, qo_SortBy = []\<rparr>"
  have views: "\<forall>env' \<in> set ?envs. honest env' Log_Poller.sample_chain sample_incl \<and> same_view ?env env'"
    by (simp add: sample_honest) (simp add: same_view_def Log_Poller.sample_env_def)
  have head: "3 = foldl seen 0 ?envs"
    by (simp add: seen_def Log_Poller.sample_env_def sample_block_def)
  note span = sample_emitted sample_span_logs sample_history_def tx_events_def sample_event_def sample_msg_logs new_log_def
  have cells: "\<forall>l \<in># ?span. \<exists>c. Inr (unat (hd (log_Data l))) = (Inr c :: nat res) \<and> Inr [of_nat c] = Inr [of_nat c] \<and> length [of_nat c :: u8] < 2 ^ 64"
    by simp
  have small: "size ?span < 2 ^ 63" by (simp add: span)
  have flt: "image_mset log_Data {#l \<in># ?span. log_Topic l = 5 \<and> e_String ?env (log_Address l) = e_String ?env ''x'' \<and>
      (\<forall>q \<in> set [?q]. query_holds [of_nat (projr (Inr (unat (hd (log_Data l)))))] q)#} = {#[2], [3], [4]#}"
    by (simp add: span query_holds_def be_nat_def) (simp add: op_holds_def)
  obtain lp' logs where r: "polls ?envs sample_lp = Some lp'"
    "lp_FilteredLogs ?env sort_by (\<lambda>bs. Inr (unat (hd bs))) (\<lambda>c. Inr [of_nat c]) ''x'' 5 [?q] ?opts lp' =
      Inr \<lparr>qr_Logs = logs, qr_HasMore = False, qr_Total = length logs\<rparr>"
    "mset (map unstamped logs) = {#l \<in># ?span. log_Topic l = 5 \<and> e_String ?env (log_Address l) = e_String ?env ''x'' \<and>
      (\<forall>q \<in> set [?q]. query_holds [of_nat (projr (Inr (unat (hd (log_Data l)))))] q)#}"
    using polled_events_queryable [where from_boc = "\<lambda>bs. Inr (unat (hd bs))" and bits = "\<lambda>c. [of_nat c]" and queries = "[?q]" and options = ?opts,
      OF views sample_lp_def _ sample_filters_ok(1) _ _ _ sample_spec head cells isort.go_sort_axioms small]
      sample_filters_ok(2) by (force simp: DefaultPollerConfig_def sample_incl_def Log_Poller.sample_env_def)
  have "image_mset log_Data (mset logs) = image_mset log_Data (mset (map unstamped logs))"
    by (simp add: image_mset.compositionality comp_def)
  with r flt show ?thesis by auto
qed

end
